(* ===== verification/Bridge_Prelude.thy ===== *)
theory Bridge_Prelude
  imports Main "HOL-Library.Word" "HOL-Library.Monad_Syntax"
begin

text \<open>
  Shared vocabulary of the development: the machine-integer and time types, the
  theorem collections the component theories feed, the parts of the C and C++ character
  and string library the sources use (\<^verbatim>\<open>std::isspace\<close>, \<^verbatim>\<open>std::tolower\<close> in the
  C locale, trimming), list lemmas, and the notion of a labelled transition system with
  its reachable states. The locale \<open>invariant_system\<close> is the interface every stateful
  component is proved through: a component supplies its start states, its step relation
  and an invariant that every step keeps, and receives the induction over runs.
\<close>

section \<open>Types\<close>

type_synonym byte = "8 word"
type_synonym u8 = "8 word"
type_synonym u16 = "16 word"
type_synonym u32 = "32 word"
type_synonym u64 = "64 word"

text \<open>
  A \<^verbatim>\<open>steady_clock\<close> time point, in nanoseconds since the clock's epoch. The clock is
  read as an argument; durations are differences. A \<^verbatim>\<open>std::chrono::milliseconds\<close> value
  is compared with nanosecond differences after the conversion \<open>ms\<close>.
\<close>

type_synonym time = int

definition ms :: "int \<Rightarrow> time" where
  "ms n = n * 1000000"

lemma ms_0 [simp]: "ms 0 = 0"
  by (simp add: ms_def)

lemma ms_pos_iff [simp]: "0 < ms n \<longleftrightarrow> 0 < n"
  by (simp add: ms_def zero_less_mult_iff)

lemma ms_nonneg_iff [simp]: "0 \<le> ms n \<longleftrightarrow> 0 \<le> n"
  by (simp add: ms_def zero_le_mult_iff)

section \<open>Theorem collections\<close>

named_theorems ctl_defs "the operations of the robot controller, unfolded"
named_theorems asm_defs "the operations of the frame assembler, unfolded"
named_theorems rt_defs "the operations of the driver runtime, unfolded"
named_theorems step_inv "one step of a component keeps its invariant"

section \<open>Labelled transition systems\<close>

inductive reach :: "('s \<Rightarrow> bool) \<Rightarrow> ('s \<Rightarrow> 'e \<Rightarrow> 's \<Rightarrow> bool) \<Rightarrow> 's \<Rightarrow> bool"
  for start :: "'s \<Rightarrow> bool" and step :: "'s \<Rightarrow> 'e \<Rightarrow> 's \<Rightarrow> bool" where
  reach_start: "start s \<Longrightarrow> reach start step s"
| reach_step: "reach start step s \<Longrightarrow> step s e t \<Longrightarrow> reach start step t"

inductive run :: "('s \<Rightarrow> 'e \<Rightarrow> 's \<Rightarrow> bool) \<Rightarrow> 's \<Rightarrow> 'e list \<Rightarrow> 's \<Rightarrow> bool"
  for step :: "'s \<Rightarrow> 'e \<Rightarrow> 's \<Rightarrow> bool" where
  run_nil: "run step s [] s"
| run_cons: "step s e t \<Longrightarrow> run step t es u \<Longrightarrow> run step s (e # es) u"

inductive_cases run_nilE [elim!]: "run step s [] t"
inductive_cases run_consE [elim!]: "run step s (e # es) t"
inductive_simps run_nil_iff [simp]: "run step s [] t"
inductive_simps run_cons_iff: "run step s (e # es) t"

lemma run_append:
  "run step s es t \<Longrightarrow> run step t fs u \<Longrightarrow> run step s (es @ fs) u"
  by (induction rule: run.induct) (auto intro: run.intros)

lemma run_split: "run step s (es @ fs) u \<Longrightarrow> \<exists>t. run step s es t \<and> run step t fs u"
  by (induction es arbitrary: s) (auto simp: run_cons_iff intro: run_nil, metis run_cons)

lemma reach_run:
  "run step s es t \<Longrightarrow> reach start step s \<Longrightarrow> reach start step t"
  by (induction rule: run.induct) (auto intro: reach_step)

locale invariant_system =
  fixes start :: "'s \<Rightarrow> bool"
    and step :: "'s \<Rightarrow> 'e \<Rightarrow> 's \<Rightarrow> bool"
    and inv :: "'s \<Rightarrow> bool"
  assumes inv_start: "start s \<Longrightarrow> inv s"
    and inv_step: "inv s \<Longrightarrow> step s e t \<Longrightarrow> inv t"
begin

lemma inv_run: "run step s es t \<Longrightarrow> inv s \<Longrightarrow> inv t"
  by (induction rule: run.induct) (auto dest: inv_step)

lemma inv_reach: "reach start step s \<Longrightarrow> inv s"
  by (induction rule: reach.induct) (auto dest: inv_start inv_step)

lemma inv_reach_run: "reach start step s \<Longrightarrow> run step s es t \<Longrightarrow> inv t"
  by (blast intro: inv_run inv_reach)

end

section \<open>Characters and strings\<close>

text \<open>
  \<^verbatim>\<open>std::isspace\<close> and \<^verbatim>\<open>std::tolower\<close> on an unsigned char in the C locale: the six
  white-space characters (space and codes 9 to 13), and the ASCII upper-case letters.
\<close>

definition isspace :: "char \<Rightarrow> bool" where
  "isspace c \<longleftrightarrow> (let n = (of_char c :: nat) in n = 32 \<or> (9 \<le> n \<and> n \<le> 13))"

definition tolower :: "char \<Rightarrow> char" where
  "tolower c = (let n = (of_char c :: nat) in
     if 65 \<le> n \<and> n \<le> 90 then char_of (n + 32) else c)"

definition trim_by :: "(char \<Rightarrow> bool) \<Rightarrow> string \<Rightarrow> string" where
  "trim_by P s = rev (dropWhile P (rev (dropWhile P s)))"

text \<open>A text between single quotes.\<close>

definition quoted :: "string \<Rightarrow> string" where
  "quoted s = CHR 0x27 # s @ [CHR 0x27]"

lemma quoted_nonempty [simp]: "quoted s \<noteq> []"
  by (simp add: quoted_def)

lemma tolower_code: "(of_char (tolower c) :: nat) =
    (if 65 \<le> (of_char c :: nat) \<and> (of_char c :: nat) \<le> 90 then of_char c + 32 else of_char c)"
  by (simp add: tolower_def Let_def)

lemma isspace_tolower [simp]: "isspace (tolower c) = isspace c"
  by (auto simp: isspace_def tolower_code Let_def)

lemma tolower_idem [simp]: "tolower (tolower c) = tolower c"
proof -
  have "(of_char (tolower (tolower c)) :: nat) = of_char (tolower c)"
    by (subst tolower_code) (simp add: tolower_code)
  then show ?thesis
    by simp
qed

lemma dropWhile_idem_rev:
  "dropWhile P xs = xs \<Longrightarrow> dropWhile P (rev (dropWhile P (rev xs))) = rev (dropWhile P (rev xs))"
proof -
  assume a: "dropWhile P xs = xs"
  obtain ys where ys: "xs = rev (dropWhile P (rev xs)) @ ys"
    by (metis rev_append rev_rev_ident takeWhile_dropWhile_id)
  show ?thesis
  proof (cases "rev (dropWhile P (rev xs))")
    case Nil
    then show ?thesis by (simp only: dropWhile.simps)
  next
    case (Cons z zs)
    with ys have "xs = z # zs @ ys"
      by simp
    with a have "\<not> P z"
      by (metis dropWhile_eq_self_iff list.discI list.sel(1))
    with Cons show ?thesis
      by simp
  qed
qed

lemma trim_by_idem [simp]: "trim_by P (trim_by P s) = trim_by P s"
proof -
  let ?d = "dropWhile P s"
  have "dropWhile P (trim_by P s) = trim_by P s"
    unfolding trim_by_def by (rule dropWhile_idem_rev) simp
  then show ?thesis
    unfolding trim_by_def by simp
qed

lemma dropWhile_map_pred:
  "(\<And>c. P (f c) = P c) \<Longrightarrow> dropWhile P (map f s) = map f (dropWhile P s)"
  by (induction s) auto

lemma trim_by_map: "(\<And>c. P (f c) = P c) \<Longrightarrow> trim_by P (map f s) = map f (trim_by P s)"
  by (simp add: trim_by_def dropWhile_map_pred rev_map)

section \<open>Lists\<close>

lemma sum_list_map_append1 [simp]:
  "sum_list (map f (xs @ [x])) = sum_list (map f xs) + (f x :: nat)"
  by simp

lemma sum_list_update_nat:
  "i < length xs \<Longrightarrow> sum_list (map f (xs[i := y])) + f (xs ! i) = sum_list (map f xs) + (f y :: nat)"
  by (induction xs arbitrary: i) (auto split: nat.splits simp: nth_Cons')

lemma nth_mem_cases:
  "z \<in> set (xs[i := y]) \<Longrightarrow> z = y \<or> z \<in> set xs"
  using set_update_subset_insert by fastforce

end
