(* ===== verification/Thread_Safe_Queue.thy ===== *)
theory Thread_Safe_Queue
  imports Bridge_Prelude
begin

text \<open>
  \<^verbatim>\<open>ThreadSafeQueue<T>\<close> of \<^verbatim>\<open>thread_safe_queue.hpp\<close>. Every public method holds the
  queue's mutex for its whole effect, so a method is one atomic operation on the record
  \<open>tsq\<close>. The interface the runtime relies on is the locale \<open>fifo_queue\<close> and its
  extension \<open>control_queue\<close> for the \<^verbatim>\<open>RejectNew\<close> policy; both are interpreted on the
  model of the class.
\<close>

section \<open>The class\<close>

datatype OverflowPolicy = RejectNew | DropOldest

record 'a tsq =
  capacity :: nat
  policy :: OverflowPolicy
  items :: "'a list"
  closed :: bool

definition ThreadSafeQueue :: "nat \<Rightarrow> OverflowPolicy \<Rightarrow> string + 'a tsq" where
  "ThreadSafeQueue cap pol =
     (if cap = 0 then Inl ''queue capacity must be greater than zero''
      else Inr \<lparr>capacity = cap, policy = pol, items = [], closed = False\<rparr>)"

definition push :: "'a \<Rightarrow> 'a tsq \<Rightarrow> bool \<times> 'a tsq" where
  "push value q =
     (if closed q then (False, q)
      else if length (items q) = capacity q then
        (if policy q = RejectNew then (False, q)
         else (True, q\<lparr>items := tl (items q) @ [value]\<rparr>))
      else (True, q\<lparr>items := items q @ [value]\<rparr>))"

definition pop_locked :: "'a tsq \<Rightarrow> 'a option \<times> 'a tsq" where
  "pop_locked q = (case items q of [] \<Rightarrow> (None, q) | x # xs \<Rightarrow> (Some x, q\<lparr>items := xs\<rparr>))"

definition try_pop :: "'a tsq \<Rightarrow> 'a option \<times> 'a tsq" where
  "try_pop q = pop_locked q"

text \<open>
  \<^verbatim>\<open>wait_pop_for\<close> sleeps until the queue is closed, holds an item or the timeout passes:
  \<open>None\<close> says that the call is still asleep in this state.
\<close>

definition wait_pop_for :: "bool \<Rightarrow> 'a tsq \<Rightarrow> ('a option \<times> 'a tsq) option" where
  "wait_pop_for timed_out q =
     (if closed q \<or> items q \<noteq> [] \<or> timed_out then Some (pop_locked q) else None)"

definition close :: "'a tsq \<Rightarrow> 'a tsq" where
  "close q = q\<lparr>closed := True\<rparr>"

definition size_of :: "'a tsq \<Rightarrow> nat" where
  "size_of q = length (items q)"

definition tsq_inv :: "'a tsq \<Rightarrow> bool" where
  "tsq_inv q \<longleftrightarrow> 0 < capacity q \<and> length (items q) \<le> capacity q"

lemmas queue_defs = push_def pop_locked_def try_pop_def wait_pop_for_def close_def size_of_def

text \<open>The loop \<^verbatim>\<open>while ((command = queue.try_pop()).has_value())\<close> that empties a queue.\<close>

function drain :: "'a tsq \<Rightarrow> 'a list \<times> 'a tsq" where
  "drain q = (case try_pop q of
       (None, q') \<Rightarrow> ([], q')
     | (Some x, q') \<Rightarrow> (let (xs, q'') = drain q' in (x # xs, q'')))"
  by pat_completeness auto
termination
  by (relation "measure (\<lambda>q. length (items q))") (auto simp: queue_defs split: list.splits)

declare drain.simps [simp del]

section \<open>The interface of a bounded first-in first-out queue\<close>

datatype 'a qop = Put 'a | Get

text \<open>
  One operation and a sequence of them, with the accepted insertions and the values taken
  out, in order, for any implementation of the two operations.
\<close>

fun perform :: "('a \<Rightarrow> 'q \<Rightarrow> bool \<times> 'q) \<Rightarrow> ('q \<Rightarrow> 'a option \<times> 'q) \<Rightarrow>
    'a qop \<Rightarrow> 'q \<Rightarrow> 'a list \<times> 'a list \<times> 'q" where
  "perform put get (Put x) q = (case put x q of (ok, q') \<Rightarrow> (if ok then [x] else [], [], q'))"
| "perform put get Get q =
     (case get q of (None, q') \<Rightarrow> ([], [], q') | (Some x, q') \<Rightarrow> ([], [x], q'))"

fun history :: "('a \<Rightarrow> 'q \<Rightarrow> bool \<times> 'q) \<Rightarrow> ('q \<Rightarrow> 'a option \<times> 'q) \<Rightarrow>
    'a qop list \<Rightarrow> 'q \<Rightarrow> 'a list \<times> 'a list \<times> 'q" where
  "history put get [] q = ([], [], q)"
| "history put get (f # fs) q = (case perform put get f q of (a, b, q') \<Rightarrow>
     (case history put get fs q' of (as, bs, q'') \<Rightarrow> (a @ as, b @ bs, q'')))"

locale fifo_queue =
  fixes contents :: "'q \<Rightarrow> 'a list"
    and bound :: "'q \<Rightarrow> nat"
    and wf :: "'q \<Rightarrow> bool"
    and put :: "'a \<Rightarrow> 'q \<Rightarrow> bool \<times> 'q"
    and get :: "'q \<Rightarrow> 'a option \<times> 'q"
  assumes get_empty: "contents q = [] \<Longrightarrow> get q = (None, q)"
    and get_head: "contents q = x # xs \<Longrightarrow> fst (get q) = Some x \<and> contents (snd (get q)) = xs"
    and put_refused: "put x q = (False, q') \<Longrightarrow> q' = q"
    and put_enters: "wf q \<Longrightarrow> put x q = (True, q') \<Longrightarrow>
      contents q' = contents q @ [x] \<or> contents q' = tl (contents q) @ [x]"
    and wf_get: "wf q \<Longrightarrow> wf (snd (get q))"
    and wf_put: "wf q \<Longrightarrow> wf (snd (put x q))"
    and wf_bound: "wf q \<Longrightarrow> length (contents q) \<le> bound q"
begin

lemma perform_state: "perform put get f q = (a, b, q') \<Longrightarrow>
    q' = (case f of Put x \<Rightarrow> snd (put x q) | Get \<Rightarrow> snd (get q))"
  by (cases f) (auto split: prod.splits option.splits)

lemma perform_wf: "wf q \<Longrightarrow> perform put get f q = (a, b, q') \<Longrightarrow> wf q'"
  by (drule perform_state) (auto split: qop.splits intro: wf_get wf_put)

lemma history_wf: "wf q \<Longrightarrow> history put get fs q = (as, bs, q') \<Longrightarrow> wf q'"
  by (induction fs arbitrary: q as bs) (auto split: prod.splits dest: perform_wf)

lemma history_bound: "wf q \<Longrightarrow> history put get fs q = (as, bs, q') \<Longrightarrow> length (contents q') \<le> bound q'"
  by (blast intro: wf_bound history_wf)

end

locale control_queue = fifo_queue +
  assumes put_keeps: "wf q \<Longrightarrow> put x q = (True, q') \<Longrightarrow> contents q' = contents q @ [x]"
begin

lemma perform_conserves:
  "wf q \<Longrightarrow> perform put get f q = (a, b, q') \<Longrightarrow> contents q @ a = b @ contents q'"
proof (cases f)
  case (Put x)
  assume "wf q" "perform put get f q = (a, b, q')"
  then show ?thesis
    using Put put_keeps [of q x] put_refused [of x q]
    by (cases "put x q") (auto split: if_splits)
next
  case Get
  assume "wf q" "perform put get f q = (a, b, q')"
  then show ?thesis
    using Get get_empty [of q] get_head [of q]
    by (cases "contents q"; cases "get q") (auto split: option.splits)
qed

text \<open>No accepted value is lost, duplicated or reordered.\<close>

lemma history_conserves:
  "wf q \<Longrightarrow> history put get fs q = (as, bs, q') \<Longrightarrow> contents q @ as = bs @ contents q'"
proof (induction fs arbitrary: q as bs)
  case Nil
  then show ?case by simp
next
  case (Cons f fs)
  obtain a b r where p: "perform put get f q = (a, b, r)"
    by (cases "perform put get f q") auto
  obtain as' bs' t where h: "history put get fs r = (as', bs', t)"
    by (cases "history put get fs r") auto
  have "contents q @ a = b @ contents r"
    using Cons.prems(1) p by (rule perform_conserves)
  moreover have "contents r @ as' = bs' @ contents t" if "t = q'"
    using Cons.IH [OF perform_wf [OF Cons.prems(1) p]] h that by simp
  ultimately show ?case
    using Cons.prems(2) p h by auto (metis append_assoc)
qed

end

section \<open>The class provides the interface\<close>

lemma tsq_inv_push [step_inv]: "tsq_inv q \<Longrightarrow> tsq_inv (snd (push x q))"
  by (auto simp: tsq_inv_def push_def)

lemma tsq_inv_try_pop [step_inv]: "tsq_inv q \<Longrightarrow> tsq_inv (snd (try_pop q))"
  by (auto simp: tsq_inv_def queue_defs split: list.splits)

lemma policy_ops [simp]: "policy (snd (push x q)) = policy q" "policy (snd (try_pop q)) = policy q"
  by (auto simp: queue_defs split: list.splits)

interpretation tsq: fifo_queue items capacity tsq_inv push try_pop
  by unfold_locales
    (auto simp: queue_defs tsq_inv_def split: list.splits if_splits)

interpretation ctlq: control_queue items capacity
    "\<lambda>q. tsq_inv q \<and> policy q = RejectNew" push try_pop
  by unfold_locales
    (auto simp: queue_defs tsq_inv_def split: list.splits if_splits)

lemma try_pop_simps [simp]:
  "items q = [] \<Longrightarrow> try_pop q = (None, q)"
  "items q = x # xs \<Longrightarrow> try_pop q = (Some x, q\<lparr>items := xs\<rparr>)"
  by (simp_all add: queue_defs)

lemma drain_eq: "drain q = (items q, q\<lparr>items := []\<rparr>)"
proof (induction q rule: drain.induct)
  case (1 q)
  show ?case
  proof (cases "items q")
    case Nil
    then show ?thesis by (simp add: drain.simps [of q])
  next
    case (Cons x xs)
    with "1.IH" [OF _ refl]
    have "drain (q\<lparr>items := xs\<rparr>) = (xs, q\<lparr>items := []\<rparr>)"
      by simp
    with Cons show ?thesis by (simp add: drain.simps [of q])
  qed
qed

section \<open>Properties\<close>

text \<open>
  C32. A control queue (policy \<^verbatim>\<open>RejectNew\<close>) loses, duplicates and reorders nothing: over
  any sequence of pushes and pops, what was in the queue followed by the accepted pushes is
  exactly what was popped followed by what is still in the queue, and the queue never holds
  more than its capacity.
\<close>

theorem control_queue_conserves:
  assumes "tsq_inv q" "policy q = RejectNew" "history push try_pop ops q = (accepted, popped, q')"
  shows "items q @ accepted = popped @ items q' \<and> length (items q') \<le> capacity q'"
  using assms ctlq.history_conserves [of q ops accepted popped q']
    tsq.history_bound [of q ops accepted popped q']
  by blast

theorem control_queue_conserves_witness:
  "let q = \<lparr>capacity = 1, policy = RejectNew, items = [7], closed = False\<rparr> :: nat tsq;
       r = history push try_pop [Put 8, Get, Put 9] q
   in r = ([9], [7], q\<lparr>items := [9]\<rparr>) \<and>
      items q @ [9] = [7] @ items (snd (snd r)) \<and> length (items (snd (snd r))) \<le> 1"
proof -
  let ?q = "\<lparr>capacity = 1, policy = RejectNew, items = [7], closed = False\<rparr> :: nat tsq"
  have r: "history push try_pop [Put 8, Get, Put 9] ?q = ([9], [7], ?q\<lparr>items := [9]\<rparr>)"
    by (simp add: queue_defs)
  show ?thesis
    using control_queue_conserves [OF _ _ r] r by (simp add: tsq_inv_def)
qed

end
