(* ===== verification/Ieee_Float.thy ===== *)
theory Ieee_Float
  imports Complex_Main Bridge_Prelude
begin

text \<open>
  The floating-point values the sources compute with. A \<^verbatim>\<open>float\<close> or \<^verbatim>\<open>double\<close> is a
  NaN, a signed infinity or a finite value, which is an exact rational. Comparisons follow
  IEEE 754 (every ordered comparison with a NaN is false), and so do the arithmetic
  operations: the exact rational result is rounded to the nearest representable value,
  ties to even, with gradual underflow and overflow to infinity. The sign of zero is not
  represented: no modelled branch distinguishes the two zeros.
\<close>

section \<open>Values and comparisons\<close>

datatype fl = NaN | Inf bool \<comment> \<open>true for minus infinity\<close> | Fin rat

fun isfinite :: "fl \<Rightarrow> bool" where
  "isfinite (Fin _) = True"
| "isfinite _ = False"

text \<open>\<open>fl_less a b\<close> is the C++ expression \<^verbatim>\<open>a < b\<close>, \<open>fl_eq a b\<close> is \<^verbatim>\<open>a == b\<close>.\<close>

fun fl_less :: "fl \<Rightarrow> fl \<Rightarrow> bool" where
  "fl_less NaN _ = False"
| "fl_less _ NaN = False"
| "fl_less (Fin a) (Fin b) = (a < b)"
| "fl_less (Inf s) (Inf t) = (s \<and> \<not> t)"
| "fl_less (Inf s) (Fin _) = s"
| "fl_less (Fin _) (Inf t) = (\<not> t)"

fun fl_eq :: "fl \<Rightarrow> fl \<Rightarrow> bool" where
  "fl_eq (Fin a) (Fin b) = (a = b)"
| "fl_eq (Inf s) (Inf t) = (s = t)"
| "fl_eq _ _ = False"

text \<open>\<^verbatim>\<open>std::clamp\<close>, \<^verbatim>\<open>std::min\<close> and \<^verbatim>\<open>std::max\<close> as the standard defines them.\<close>

definition std_clamp :: "fl \<Rightarrow> fl \<Rightarrow> fl \<Rightarrow> fl" where
  "std_clamp v lo hi = (if fl_less v lo then lo else if fl_less hi v then hi else v)"

definition std_min :: "fl \<Rightarrow> fl \<Rightarrow> fl" where
  "std_min a b = (if fl_less b a then b else a)"

definition std_max :: "fl \<Rightarrow> fl \<Rightarrow> fl" where
  "std_max a b = (if fl_less a b then b else a)"

definition unit_range :: "fl \<Rightarrow> bool" where
  "unit_range v \<longleftrightarrow> (\<exists>x. v = Fin x \<and> -1 \<le> x \<and> x \<le> 1)"

lemma fl_eq_refl_iff [simp]: "fl_eq a a \<longleftrightarrow> a \<noteq> NaN"
  by (cases a) auto

lemma fl_eq_iff: "fl_eq a b \<longleftrightarrow> a = b \<and> a \<noteq> NaN"
  by (cases a; cases b) auto

lemma isfiniteE: "isfinite v \<Longrightarrow> (\<And>x. v = Fin x \<Longrightarrow> P) \<Longrightarrow> P"
  by (cases v) auto

lemma unit_range_finite: "unit_range v \<Longrightarrow> isfinite v"
  by (auto simp: unit_range_def)

lemma unit_range_zero [simp]: "unit_range (Fin 0)"
  by (simp add: unit_range_def)

lemma clamp_unit_range: "isfinite v \<Longrightarrow> unit_range (std_clamp v (Fin (- 1)) (Fin 1))"
  by (auto elim!: isfiniteE simp: std_clamp_def unit_range_def)

lemma clamp_unit_id: "unit_range v \<Longrightarrow> std_clamp v (Fin (- 1)) (Fin 1) = v"
  by (auto simp: std_clamp_def unit_range_def)

section \<open>Rounding\<close>

text \<open>
  A binary format: \<open>prec\<close> significant bits, \<open>emin\<close> the exponent of the least subnormal,
  \<open>emax\<close> the exponent of the greatest finite binade.
\<close>

record fmt =
  prec :: nat
  emin :: int
  emax :: int

definition binary32 :: fmt where
  "binary32 = \<lparr>prec = 24, emin = - 149, emax = 127\<rparr>"

definition binary64 :: fmt where
  "binary64 = \<lparr>prec = 53, emin = - 1074, emax = 1023\<rparr>"

fun ilog2 :: "nat \<Rightarrow> nat" where
  "ilog2 n = (if n < 2 then 0 else Suc (ilog2 (n div 2)))"

declare ilog2.simps [simp del]

text \<open>The exponent of the binade of a positive rational: \<open>2 ^ e \<le> x < 2 ^ (e + 1)\<close>.\<close>

definition exponent_of :: "rat \<Rightarrow> int" where
  "exponent_of x = (case quotient_of x of (a, b) \<Rightarrow>
     let k = int (ilog2 (nat a)) - int (ilog2 (nat b))
     in if 2 powi k \<le> x then k else k - 1)"

definition round_half_even :: "rat \<Rightarrow> int" where
  "round_half_even y = (let f = \<lfloor>y\<rfloor>; d = y - of_int f in
     if d < 1 / 2 then f else if 1 / 2 < d then f + 1
     else if even f then f else f + 1)"

definition fround :: "fmt \<Rightarrow> rat \<Rightarrow> fl" where
  "fround F x = (if x = 0 then Fin 0 else
     let e = max (emin F) (exponent_of \<bar>x\<bar> - (int (prec F) - 1));
         y = of_int (round_half_even (x / 2 powi e)) * 2 powi e
     in if 2 powi (emax F + 1) \<le> \<bar>y\<bar> then Inf (x < 0) else Fin y)"

section \<open>Arithmetic\<close>

fun fl_neg_bit :: "fl \<Rightarrow> bool" where
  "fl_neg_bit (Fin x) = (x < 0)"
| "fl_neg_bit (Inf s) = s"
| "fl_neg_bit NaN = False"

fun fl_mul :: "fmt \<Rightarrow> fl \<Rightarrow> fl \<Rightarrow> fl" where
  "fl_mul F NaN _ = NaN"
| "fl_mul F _ NaN = NaN"
| "fl_mul F (Fin a) (Fin b) = fround F (a * b)"
| "fl_mul F (Inf s) b = (if b = Fin 0 then NaN else Inf (s \<noteq> fl_neg_bit b))"
| "fl_mul F a (Inf t) = (if a = Fin 0 then NaN else Inf (fl_neg_bit a \<noteq> t))"

fun fl_add :: "fmt \<Rightarrow> fl \<Rightarrow> fl \<Rightarrow> fl" where
  "fl_add F NaN _ = NaN"
| "fl_add F _ NaN = NaN"
| "fl_add F (Fin a) (Fin b) = fround F (a + b)"
| "fl_add F (Inf s) (Inf t) = (if s = t then Inf s else NaN)"
| "fl_add F (Inf s) (Fin _) = Inf s"
| "fl_add F (Fin _) (Inf t) = Inf t"

text \<open>
  The quotient by a zero divisor is an infinity of the dividend's sign (the divisors of the
  sources are square roots, so their zero is the positive one), and 0/0 is a NaN.
\<close>

fun fl_div :: "fmt \<Rightarrow> fl \<Rightarrow> fl \<Rightarrow> fl" where
  "fl_div F NaN _ = NaN"
| "fl_div F _ NaN = NaN"
| "fl_div F (Fin a) (Fin b) =
     (if b = 0 then (if a = 0 then NaN else Inf (a < 0)) else fround F (a / b))"
| "fl_div F (Inf s) (Inf t) = NaN"
| "fl_div F (Inf s) (Fin b) = Inf (s \<noteq> (b < 0))"
| "fl_div F (Fin _) (Inf t) = Fin 0"

fun isqrt :: "nat \<Rightarrow> nat" where
  "isqrt n = (if n = 0 then 0 else
     let r = 2 * isqrt (n div 4) in if (r + 1) * (r + 1) \<le> n then r + 1 else r)"

declare isqrt.simps [simp del]

text \<open>
  The square root, correctly rounded: \<open>x\<close> is scaled by an even power of two so that its
  integer root has at least two bits more than the format; an inexact root is replaced by
  the midpoint of its unit interval, which lies on the same side of every rounding boundary.
\<close>

fun fl_sqrt :: "fmt \<Rightarrow> fl \<Rightarrow> fl" where
  "fl_sqrt F NaN = NaN"
| "fl_sqrt F (Inf s) = (if s then NaN else Inf False)"
| "fl_sqrt F (Fin x) = (if x < 0 then NaN else if x = 0 then Fin 0 else
     let s = int (prec F) + 2 - exponent_of x div 2;
         z = x * 2 powi (2 * s);
         r = int (isqrt (nat \<lfloor>z\<rfloor>))
     in if of_int (r * r) = z then fround F (of_int r / 2 powi s)
        else fround F (of_int (2 * r + 1) / 2 powi (s + 1)))"

text \<open>
  \<^verbatim>\<open>static_cast<double>(n)\<close> of an integer and \<^verbatim>\<open>static_cast<float>(d)\<close> of a double.
\<close>

definition fl_of_int :: "fmt \<Rightarrow> int \<Rightarrow> fl" where
  "fl_of_int F n = fround F (of_int n)"

fun fl_cast :: "fmt \<Rightarrow> fl \<Rightarrow> fl" where
  "fl_cast F (Fin x) = fround F x"
| "fl_cast F v = v"

section \<open>Bounds on rounding\<close>

lemma ilog2_bounds: "0 < n \<Longrightarrow> 2 ^ ilog2 n \<le> n \<and> n < 2 ^ Suc (ilog2 n)"
proof (induction n rule: ilog2.induct)
  case (1 n)
  show ?case
  proof (cases "n < 2")
    case True
    with "1.prems" show ?thesis by (subst (1 2) ilog2.simps) simp
  next
    case False
    with "1.IH" have "2 ^ ilog2 (n div 2) \<le> n div 2 \<and> n div 2 < 2 ^ Suc (ilog2 (n div 2))"
      by simp
    moreover have "ilog2 n = Suc (ilog2 (n div 2))"
      using False by (subst ilog2.simps) simp
    ultimately show ?thesis by auto
  qed
qed

lemma ilog2_bounds_int:
  assumes "0 < a"
  shows "(2::int) ^ ilog2 (nat a) \<le> a \<and> a < 2 ^ Suc (ilog2 (nat a))"
proof -
  have "2 ^ ilog2 (nat a) \<le> nat a \<and> nat a < 2 ^ Suc (ilog2 (nat a))"
    using assms ilog2_bounds [of "nat a"] by simp
  then have "int (2 ^ ilog2 (nat a)) \<le> int (nat a) \<and> int (nat a) < int (2 ^ Suc (ilog2 (nat a)))"
    by (simp only: of_nat_le_iff of_nat_less_iff)
  then show ?thesis
    using assms by simp
qed

lemma powi_2_pos [simp]: "0 < (2::rat) powi k"
  by simp

lemma powi_2_add: "(2::rat) powi (a + b) = 2 powi a * 2 powi b"
  by (simp add: power_int_add)

lemma powi_2_mono_iff [simp]: "(2::rat) powi a \<le> 2 powi b \<longleftrightarrow> a \<le> b"
  by (metis linorder_not_le one_less_numeral_iff order_less_imp_le power_int_increasing
      power_int_strict_increasing semiring_norm(76))

lemma powi_2_strict_iff [simp]: "(2::rat) powi a < 2 powi b \<longleftrightarrow> a < b"
  using powi_2_mono_iff [of b a] by (simp add: not_le [symmetric])

lemma exponent_of_bounds:
  assumes "0 < x"
  shows "2 powi exponent_of x \<le> x \<and> x < 2 powi (exponent_of x + 1)"
proof -
  obtain a b where q: "quotient_of x = (a, b)" by force
  have b: "0 < b" by (rule quotient_of_denom_pos [OF q])
  have x: "x = of_int a / of_int b" by (rule quotient_of_div [OF q])
  with b assms have a: "0 < a" by (simp add: zero_less_divide_iff)
  let ?m = "ilog2 (nat a)" and ?n = "ilog2 (nat b)"
  have "(2::int) ^ ?m \<le> a \<and> a < 2 ^ Suc ?m" "(2::int) ^ ?n \<le> b \<and> b < 2 ^ Suc ?n"
    using ilog2_bounds_int [OF a] ilog2_bounds_int [OF b] by blast+
  then have A: "(2::rat) ^ ?m \<le> of_int a" "of_int a < (2::rat) ^ Suc ?m"
    and B: "(2::rat) ^ ?n \<le> of_int b" "of_int b < (2::rat) ^ Suc ?n"
    by (metis of_int_le_iff of_int_less_iff of_int_numeral of_int_power)+
  have e: "(2::rat) powi (int ?m - int ?n) = 2 ^ ?m / 2 ^ ?n"
    by (simp add: power_int_diff)
  have bpos: "(0::rat) < of_int b" using b by simp
  have up: "x < 2 powi (int ?m - int ?n + 1)"
  proof -
    have "of_int a / of_int b < (2::rat) ^ Suc ?m / of_int b"
      using A(2) bpos by (rule divide_strict_right_mono)
    also have "\<dots> \<le> 2 ^ Suc ?m / 2 ^ ?n"
      using B(1) bpos by (intro divide_left_mono) auto
    finally show ?thesis by (simp add: x e powi_2_add mult.commute)
  qed
  have low: "2 powi (int ?m - int ?n - 1) \<le> x"
  proof -
    have "(2::rat) powi (int ?m - int ?n - 1) = 2 ^ ?m / 2 ^ Suc ?n"
      by (simp add: power_int_diff)
    also have "\<dots> \<le> 2 ^ ?m / of_int b"
      using B(2) bpos by (intro divide_left_mono) auto
    also have "\<dots> \<le> x"
      unfolding x using A(1) bpos by (intro divide_right_mono) auto
    finally show ?thesis .
  qed
  show ?thesis
    using up low by (auto simp: exponent_of_def q Let_def)
qed

lemma exponent_of_le: "0 < x \<Longrightarrow> x < 2 powi k \<Longrightarrow> exponent_of x < k"
  using exponent_of_bounds [of x] powi_2_strict_iff [of "exponent_of x" k] by linarith

lemma round_half_even_int [simp]: "round_half_even (of_int n) = n"
  by (simp add: round_half_even_def)

lemma round_half_even_bounds: "\<lfloor>y\<rfloor> \<le> round_half_even y \<and> round_half_even y \<le> \<lceil>y\<rceil>"
proof (cases "y = of_int \<lfloor>y\<rfloor>")
  case True
  then have "round_half_even y = \<lfloor>y\<rfloor>"
    by (metis round_half_even_int)
  then show ?thesis
    by (simp add: floor_le_ceiling)
next
  case False
  then have "\<lceil>y\<rceil> = \<lfloor>y\<rfloor> + 1"
    by (metis ceiling_altdef)
  then show ?thesis
    by (auto simp: round_half_even_def Let_def)
qed

lemma round_half_even_abs_le:
  assumes "\<bar>y\<bar> \<le> of_int n"
  shows "\<bar>round_half_even y\<bar> \<le> n"
proof -
  have "- of_int n \<le> y" "y \<le> of_int n"
    using assms by auto
  then have "- n \<le> \<lfloor>y\<rfloor>" "\<lceil>y\<rceil> \<le> n"
    by (auto simp: le_floor_iff ceiling_le_iff)
  then show ?thesis
    using round_half_even_bounds [of y] by linarith
qed

lemma fround_bounded:
  assumes x: "\<bar>x\<bar> \<le> 2 powi k" and k: "emin F \<le> k" "k \<le> emax F" and p: "0 < prec F"
  shows "\<exists>y. fround F x = Fin y \<and> \<bar>y\<bar> \<le> 2 powi k"
proof (cases "x = 0")
  case True
  then show ?thesis by (simp add: fround_def)
next
  case False
  let ?e = "max (emin F) (exponent_of \<bar>x\<bar> - (int (prec F) - 1))"
  let ?y = "of_int (round_half_even (x / 2 powi ?e)) * 2 powi ?e :: rat"
  have "2 powi exponent_of \<bar>x\<bar> \<le> \<bar>x\<bar>"
    using exponent_of_bounds [of "\<bar>x\<bar>"] False by simp
  then have "(2::rat) powi exponent_of \<bar>x\<bar> \<le> 2 powi k"
    using x by (rule order_trans)
  then have e: "?e \<le> k"
    using k p by simp
  have "\<bar>x / 2 powi ?e\<bar> \<le> 2 powi k / 2 powi ?e"
    using x by (simp add: divide_right_mono)
  also have "\<dots> = of_int (2 ^ nat (k - ?e))"
    using e by (simp add: power_int_diff [symmetric] power_int_nonneg_exp)
  finally have "\<bar>round_half_even (x / 2 powi ?e)\<bar> \<le> 2 ^ nat (k - ?e)"
    by (rule round_half_even_abs_le)
  then have "\<bar>of_int (round_half_even (x / 2 powi ?e))\<bar> \<le> (2::rat) ^ nat (k - ?e)"
    by (metis of_int_abs of_int_le_iff of_int_numeral of_int_power)
  then have "\<bar>?y\<bar> \<le> 2 ^ nat (k - ?e) * 2 powi ?e"
    by (simp add: abs_mult)
  also have "\<dots> = 2 powi k"
    using e by (simp add: power_int_nonneg_exp [symmetric] powi_2_add [symmetric])
  finally have y: "\<bar>?y\<bar> \<le> 2 powi k" .
  moreover have "(2::rat) powi k < 2 powi (emax F + 1)"
    using k by simp
  ultimately have "\<not> 2 powi (emax F + 1) \<le> \<bar>?y\<bar>"
    by linarith
  then have "fround F x = Fin ?y"
    using False unfolding fround_def Let_def by (simp only: if_False)
  with y show ?thesis
    by blast
qed

lemma fround_int:
  assumes n: "\<bar>n\<bar> < 2 ^ prec F" and F: "emin F \<le> 0" "int (prec F) \<le> emax F + 1"
  shows "fround F (of_int n) = Fin (of_int n)"
proof (cases "n = 0")
  case True
  then show ?thesis by (simp add: fround_def)
next
  case False
  let ?x = "of_int n :: rat"
  let ?e = "max (emin F) (exponent_of \<bar>?x\<bar> - (int (prec F) - 1))"
  have nb: "\<bar>?x\<bar> < 2 powi int (prec F)"
    by (metis n of_int_abs of_int_less_iff of_int_numeral of_int_power power_int_of_nat)
  then have "exponent_of \<bar>?x\<bar> < int (prec F)"
    using False by (intro exponent_of_le) auto
  then have e: "?e \<le> 0"
    using F by simp
  have "?x / 2 powi ?e = of_int (n * 2 ^ nat (- ?e))"
    using e by (simp add: power_int_nonneg_exp [symmetric] power_int_minus field_simps)
  then have r: "round_half_even (?x / 2 powi ?e) = n * 2 ^ nat (- ?e)"
    by (simp only: round_half_even_int)
  have y: "of_int (n * 2 ^ nat (- ?e)) * 2 powi ?e = ?x"
    using e by (simp add: power_int_nonneg_exp [symmetric] power_int_minus field_simps)
  have "(2::rat) powi int (prec F) \<le> 2 powi (emax F + 1)"
    using F by (simp only: powi_2_mono_iff)
  with nb have "\<not> 2 powi (emax F + 1) \<le> \<bar>?x\<bar>"
    by linarith
  then show ?thesis
    unfolding fround_def Let_def r y using False by (simp only: if_False of_int_eq_0_iff)
qed

lemma binary32_simps [simp]: "prec binary32 = 24" "emin binary32 = - 149" "emax binary32 = 127"
  by (simp_all add: binary32_def)

lemma binary64_simps [simp]: "prec binary64 = 53" "emin binary64 = - 1074" "emax binary64 = 1023"
  by (simp_all add: binary64_def)

lemma fl_of_int_32_exact: "\<bar>n\<bar> < 2 ^ 53 \<Longrightarrow> fl_of_int binary64 n = Fin (of_int n)"
  unfolding fl_of_int_def by (rule fround_int) simp_all

text \<open>Bounded inputs keep every operation finite: the bound is a power of two in range.\<close>

lemma fl_mul_bounded:
  assumes "v = Fin a" "w = Fin b" "\<bar>a\<bar> \<le> 2 powi i" "\<bar>b\<bar> \<le> 2 powi j"
    and "emin F \<le> i + j" "i + j \<le> emax F" "0 < prec F"
  shows "\<exists>y. fl_mul F v w = Fin y \<and> \<bar>y\<bar> \<le> 2 powi (i + j)"
proof -
  have "\<bar>a * b\<bar> \<le> 2 powi i * 2 powi j"
    using assms(3,4) by (simp add: abs_mult mult_mono)
  then have "\<bar>a * b\<bar> \<le> 2 powi (i + j)"
    by (simp add: powi_2_add)
  from fround_bounded [OF this] assms show ?thesis
    by simp
qed

lemma fl_cast_bounded:
  assumes "v = Fin a" "\<bar>a\<bar> \<le> 2 powi k" "emin F \<le> k" "k \<le> emax F" "0 < prec F"
  shows "\<exists>y. fl_cast F v = Fin y \<and> \<bar>y\<bar> \<le> 2 powi k"
  using fround_bounded [OF assms(2-5)] assms(1) by simp

section \<open>Finite results have bounded arguments\<close>

lemma round_half_even_abs_ge:
  assumes "of_int n \<le> \<bar>y\<bar>"
  shows "n \<le> \<bar>round_half_even y\<bar>"
proof (cases "0 \<le> y")
  case True
  then have "n \<le> \<lfloor>y\<rfloor>"
    using assms by (simp add: le_floor_iff)
  then show ?thesis
    using round_half_even_bounds [of y] by linarith
next
  case False
  then have "y \<le> of_int (- n)"
    using assms by simp
  then have "\<lceil>y\<rceil> \<le> - n"
    by (simp only: ceiling_le_iff)
  then show ?thesis
    using round_half_even_bounds [of y] by linarith
qed

lemma fround_finite_bound:
  assumes "fround F x = Fin y" "emin F \<le> emax F" "0 < prec F"
  shows "\<bar>x\<bar> < 2 powi (emax F + 1)"
proof (rule ccontr)
  assume "\<not> \<bar>x\<bar> < 2 powi (emax F + 1)"
  then have big: "2 powi (emax F + 1) \<le> \<bar>x\<bar>" and x: "x \<noteq> 0"
    using powi_2_pos [of "emax F + 1"] by (auto simp del: powi_2_pos)
  let ?k = "exponent_of \<bar>x\<bar>" and ?e = "max (emin F) (exponent_of \<bar>x\<bar> - (int (prec F) - 1))"
  let ?y = "of_int (round_half_even (x / 2 powi ?e)) * 2 powi ?e :: rat"
  have k: "2 powi ?k \<le> \<bar>x\<bar>" "\<bar>x\<bar> < 2 powi (?k + 1)"
    using exponent_of_bounds [of "\<bar>x\<bar>"] x by simp_all
  have "(2::rat) powi (emax F + 1) < 2 powi (?k + 1)"
    using big k(2) by (rule le_less_trans)
  then have e: "emax F + 1 \<le> ?k" "?e \<le> ?k"
    using assms(2,3) by simp_all
  have "of_int (2 ^ nat (?k - ?e)) = (2::rat) powi ?k / 2 powi ?e"
    using e by (simp add: power_int_diff [symmetric] power_int_nonneg_exp)
  also have "\<dots> \<le> \<bar>x / 2 powi ?e\<bar>"
    using k(1) by (simp add: divide_right_mono)
  finally have "2 ^ nat (?k - ?e) \<le> \<bar>round_half_even (x / 2 powi ?e)\<bar>"
    by (rule round_half_even_abs_ge)
  then have "(2::rat) ^ nat (?k - ?e) \<le> \<bar>of_int (round_half_even (x / 2 powi ?e))\<bar>"
    by (metis of_int_abs of_int_le_iff of_int_numeral of_int_power)
  then have "(2::rat) ^ nat (?k - ?e) * 2 powi ?e \<le> \<bar>?y\<bar>"
    by (simp add: abs_mult)
  moreover have "(2::rat) ^ nat (?k - ?e) * 2 powi ?e = 2 powi ?k"
    using e by (simp add: power_int_nonneg_exp [symmetric] powi_2_add [symmetric])
  moreover have "(2::rat) powi (emax F + 1) \<le> 2 powi ?k"
    using e by simp
  ultimately have "2 powi (emax F + 1) \<le> \<bar>?y\<bar>"
    by linarith
  then show False
    using assms(1) x unfolding fround_def Let_def by (simp only: if_False if_True) simp
qed

lemma fl_add_finite: "isfinite (fl_add F a b) \<Longrightarrow> isfinite a \<and> isfinite b"
  by (cases a; cases b) (auto split: if_splits)

lemma fl_square_finite:
  assumes "isfinite (fl_mul F a a)" "emin F \<le> emax F" "0 < prec F" "emax F + 1 = 2 * k"
  shows "\<exists>x. a = Fin x \<and> \<bar>x\<bar> \<le> 2 powi k"
proof -
  obtain x y where x: "a = Fin x" "fround F (x * x) = Fin y"
    using assms(1) by (cases a) (auto elim: isfiniteE split: if_splits)
  have "emax F + 1 = k + k"
    using assms(4) by simp
  then have "\<bar>x\<bar> * \<bar>x\<bar> < 2 powi k * 2 powi k"
    using fround_finite_bound [OF x(2) assms(2,3)] by (simp only: abs_mult powi_2_add)
  then have "\<bar>x\<bar> \<le> 2 powi k"
    by (metis abs_ge_zero linorder_not_le mult_mono' order_less_imp_le powi_2_pos)
  then show ?thesis
    using x by blast
qed

lemma fl_div_bounded:
  assumes "\<bar>x\<bar> \<le> 2 powi k" "2 powi (- j) \<le> n" "emin F \<le> k + j" "k + j \<le> emax F" "0 < prec F"
  shows "isfinite (fl_div F (Fin x) (Fin n))"
proof -
  have n: "0 < n"
    using powi_2_pos assms(2) by (rule less_le_trans)
  have "\<bar>x\<bar> / n \<le> 2 powi k / 2 powi (- j)"
    using assms(1,2) n by (intro frac_le) simp_all
  also have "\<dots> = 2 powi (k + j)"
    by (simp add: power_int_diff [symmetric])
  finally have "\<bar>x / n\<bar> \<le> 2 powi (k + j)"
    using n by simp
  from fround_bounded [OF this assms(3-5)] show ?thesis
    using n by auto
qed

end
