(* ===== verification/Robot_Controller.thy ===== *)
theory Robot_Controller
  imports Ieee_Float
begin

text \<open>
  The safety gate: \<^verbatim>\<open>RobotController\<close> of \<^verbatim>\<open>robot_controller.hpp\<close> and
  \<^verbatim>\<open>robot_controller.cpp\<close>. Every public method holds the controller's mutex for its
  whole effect, so a method is one atomic operation on the record \<open>ctl\<close>; the clock is
  passed in as the time \<open>now\<close> the method reads. The lemmas show the well-formedness
  invariant of the record, that motion needs every gate to be open, and, over arbitrary
  sequences of operations, where an accepted velocity comes from and what closes the gate.
\<close>

section \<open>Data\<close>

datatype BridgeError =
  Protocol | FeatureUnavailable | InvalidCommand | Timeout | SdkDisconnected
| NoControlAuthority | EmergencyStopLatched | RobotSystemError | SdkCallFailed

text \<open>\<^verbatim>\<open>VelocityPayload\<close>, and \<^verbatim>\<open>Velocity\<close> of \<^verbatim>\<open>astrall_sdk.hpp\<close>, which has the same fields.\<close>

record velocity =
  vx :: fl
  vy :: fl
  vyaw :: fl

definition zero_velocity :: velocity where
  "zero_velocity = \<lparr>vx = Fin 0, vy = Fin 0, vyaw = Fin 0\<rparr>"

record ControllerStatus =
  st_linked :: bool
  st_authority :: bool
  st_sport :: u16
  st_error :: u32

definition default_status :: ControllerStatus where
  "default_status = \<lparr>st_linked = False, st_authority = False, st_sport = 0, st_error = 0\<rparr>"

record VelocityDecision =
  vd_accepted :: bool
  vd_value :: velocity
  vd_error :: BridgeError
  vd_reason :: string

record ModeDecision =
  md_accepted :: bool
  md_mode :: u16
  md_error :: BridgeError
  md_reason :: string

record EstopDecision =
  ed_accepted :: bool
  ed_latched :: bool
  ed_reason :: string

record ctl =
  command_deadman :: int
  status :: ControllerStatus
  latest_velocity :: velocity
  last_velocity_time :: time
  has_velocity :: bool
  estop_latched :: bool
  driver_ready :: bool
  motion_transition_gate :: bool
  mode_transition_pending :: bool
  pending_mode :: u16

definition kSportStateMove :: u16 where
  "kSportStateMove = 0xB104"

section \<open>Operations\<close>

definition normalized_mode :: "string \<Rightarrow> string" where
  "normalized_mode input = map tolower (trim_by isspace input)"

definition RobotController :: "int \<Rightarrow> string + ctl" where
  "RobotController deadman =
     (if deadman \<le> 0 then Inl ''command deadman must be positive''
      else Inr \<lparr>command_deadman = deadman, status = default_status,
        latest_velocity = zero_velocity, last_velocity_time = 0, has_velocity = False,
        estop_latched = False, driver_ready = False, motion_transition_gate = False,
        mode_transition_pending = False, pending_mode = 0\<rparr>)"

definition movement_ready_locked :: "ctl \<Rightarrow> bool" where
  "movement_ready_locked c \<longleftrightarrow>
     driver_ready c \<and> \<not> motion_transition_gate c \<and> \<not> mode_transition_pending c \<and>
     st_linked (status c) \<and> st_authority (status c) \<and>
     st_sport (status c) = kSportStateMove \<and> st_error (status c) = 0 \<and>
     \<not> estop_latched c"

definition force_zero_locked :: "time \<Rightarrow> ctl \<Rightarrow> ctl" where
  "force_zero_locked now c =
     c\<lparr>latest_velocity := zero_velocity, has_velocity := False, last_velocity_time := now\<rparr>"

definition rejection_locked :: "ctl \<Rightarrow> VelocityDecision" where
  "rejection_locked c =
     (let reject = (\<lambda>e r. \<lparr>vd_accepted = False, vd_value = zero_velocity, vd_error = e,
                           vd_reason = r\<rparr>) in
      if \<not> driver_ready c then reject Protocol ''driver readiness gate is not armed''
      else if \<not> st_linked (status c) then reject SdkDisconnected ''ASTRALL SDK is disconnected''
      else if st_error (status c) \<noteq> 0 then reject RobotSystemError ''robot system error is active''
      else if \<not> st_authority (status c) then
        reject NoControlAuthority ''ASTRALL control authority is unavailable''
      else if estop_latched c then
        reject EmergencyStopLatched ''software emergency stop is latched''
      else if motion_transition_gate c \<or> mode_transition_pending c then
        reject InvalidCommand ''motion is gated by a mode transition''
      else reject InvalidCommand ''robot is not in all-terrain Move state'')"

definition clamp_velocity :: "velocity \<Rightarrow> velocity" where
  "clamp_velocity v =
     \<lparr>vx = std_clamp (vx v) (Fin (- 1)) (Fin 1),
      vy = std_clamp (vy v) (Fin (- 1)) (Fin 1),
      vyaw = std_clamp (vyaw v) (Fin (- 1)) (Fin 1)\<rparr>"

definition velocity_finite :: "velocity \<Rightarrow> bool" where
  "velocity_finite v \<longleftrightarrow> isfinite (vx v) \<and> isfinite (vy v) \<and> isfinite (vyaw v)"

definition accept_velocity :: "time \<Rightarrow> velocity \<Rightarrow> ctl \<Rightarrow> VelocityDecision \<times> ctl" where
  "accept_velocity now command c =
     (if \<not> isfinite (vx command) \<or> \<not> isfinite (vy command) \<or> \<not> isfinite (vyaw command) then
        (\<lparr>vd_accepted = False, vd_value = zero_velocity, vd_error = InvalidCommand,
          vd_reason = ''velocity contains a non-finite value''\<rparr>, force_zero_locked now c)
      else if \<not> movement_ready_locked c then
        (let c' = force_zero_locked now c in (rejection_locked c', c'))
      else
        (let command' = clamp_velocity command in
         (\<lparr>vd_accepted = True, vd_value = command', vd_error = Protocol, vd_reason = []\<rparr>,
          c\<lparr>latest_velocity := command', last_velocity_time := now, has_velocity := True\<rparr>)))"

definition velocity_for_tick :: "time \<Rightarrow> ctl \<Rightarrow> VelocityDecision" where
  "velocity_for_tick now c =
     (if \<not> movement_ready_locked c \<or> \<not> has_velocity c \<or>
         now - last_velocity_time c > ms (command_deadman c) then
        \<lparr>vd_accepted = False, vd_value = zero_velocity, vd_error = Timeout,
         vd_reason = ''velocity deadman or safety gate''\<rparr>
      else
        \<lparr>vd_accepted = True, vd_value = latest_velocity c, vd_error = Protocol, vd_reason = []\<rparr>)"

definition trigger_estop :: "time \<Rightarrow> ctl \<Rightarrow> EstopDecision \<times> ctl" where
  "trigger_estop now c =
     (\<lparr>ed_accepted = True, ed_latched = True, ed_reason = ''software emergency stop latched''\<rparr>,
      force_zero_locked now (c\<lparr>estop_latched := True\<rparr>))"

definition clear_estop :: "time \<Rightarrow> ctl \<Rightarrow> EstopDecision \<times> ctl" where
  "clear_estop now c =
     (\<lparr>ed_accepted = True, ed_latched = False,
       ed_reason = ''software emergency stop cleared; a new velocity is required''\<rparr>,
      force_zero_locked now (c\<lparr>estop_latched := False\<rparr>))"

definition kModes :: "(string \<times> u16) list" where
  "kModes =
     [(''damping'', 0xA101), (''stand'', 0xA102), (''down'', 0xA103), (''move'', 0xA104),
      (''auto_charge'', 0xA105), (''exit_charge'', 0xA106), (''recover'', 0xA1FF),
      (''recovery'', 0xA1FF)]"

definition request_mode :: "time \<Rightarrow> string \<Rightarrow> ctl \<Rightarrow> ModeDecision \<times> ctl" where
  "request_mode now name c =
     (let normalized = normalized_mode name in
      case map_of kModes normalized of
        None \<Rightarrow>
          (\<lparr>md_accepted = False, md_mode = 0, md_error = InvalidCommand,
            md_reason = ''unknown robot mode: '' @ normalized\<rparr>, c)
      | Some mode \<Rightarrow>
          (let reject = (\<lambda>e r. (\<lparr>md_accepted = False, md_mode = mode, md_error = e,
                                 md_reason = r\<rparr>, c)) in
           if \<not> driver_ready c then reject Protocol ''driver readiness gate is not armed''
           else if mode_transition_pending c then
             reject InvalidCommand ''another mode transition is pending''
           else if \<not> st_linked (status c) then
             reject SdkDisconnected ''ASTRALL SDK is disconnected''
           else if st_error (status c) \<noteq> 0 then
             reject RobotSystemError ''robot system error is active''
           else if \<not> st_authority (status c) then
             reject NoControlAuthority ''ASTRALL control authority is unavailable''
           else if estop_latched c \<and> mode \<noteq> 0xA101 then
             reject EmergencyStopLatched ''software emergency stop is latched''
           else
             (\<lparr>md_accepted = True, md_mode = mode, md_error = Protocol, md_reason = []\<rparr>,
              force_zero_locked now
                (c\<lparr>mode_transition_pending := True, pending_mode := mode,
                   motion_transition_gate := True\<rparr>))))"

definition complete_mode_transition :: "time \<Rightarrow> bool \<Rightarrow> ctl \<Rightarrow> ctl" where
  "complete_mode_transition now success c =
     (let entered_move = (success \<and> mode_transition_pending c \<and> pending_mode c = 0xA104) in
      force_zero_locked now
        (c\<lparr>mode_transition_pending := False, pending_mode := 0,
           motion_transition_gate := \<not> entered_move\<rparr>))"

definition set_driver_ready :: "time \<Rightarrow> bool \<Rightarrow> ctl \<Rightarrow> ctl" where
  "set_driver_ready now ready c =
     (let c' = c\<lparr>driver_ready := ready\<rparr> in
      if \<not> ready then
        force_zero_locked now
          (c'\<lparr>mode_transition_pending := False, pending_mode := 0,
              motion_transition_gate := True\<rparr>)
      else c')"

definition invalidate_connection :: "time \<Rightarrow> ctl \<Rightarrow> ctl" where
  "invalidate_connection now c =
     force_zero_locked now
       (c\<lparr>driver_ready := False, mode_transition_pending := False, pending_mode := 0,
          motion_transition_gate := True\<rparr>)"

definition update_robot_state :: "time \<Rightarrow> ControllerStatus \<Rightarrow> ctl \<Rightarrow> ctl" where
  "update_robot_state now state c =
     (let was_ready = movement_ready_locked c;
          c1 = c\<lparr>status := state\<rparr>;
          c2 = (if \<not> st_linked state \<or> \<not> st_authority state \<or> st_error state \<noteq> 0
                then c1\<lparr>mode_transition_pending := False, pending_mode := 0,
                        motion_transition_gate := True\<rparr>
                else c1)
      in if was_ready \<noteq> movement_ready_locked c2 \<or> \<not> movement_ready_locked c2
         then force_zero_locked now c2 else c2)"

definition emergency_stop_latched :: "ctl \<Rightarrow> bool" where
  "emergency_stop_latched c = estop_latched c"

section \<open>Sequences of operations\<close>

datatype ctl_op =
  AcceptVelocity velocity
| TriggerEstop
| ClearEstop
| RequestMode string
| CompleteModeTransition bool
| SetDriverReady bool
| InvalidateConnection
| UpdateRobotState ControllerStatus

fun ctl_apply :: "time \<Rightarrow> ctl_op \<Rightarrow> ctl \<Rightarrow> ctl" where
  "ctl_apply now (AcceptVelocity v) c = snd (accept_velocity now v c)"
| "ctl_apply now TriggerEstop c = snd (trigger_estop now c)"
| "ctl_apply now ClearEstop c = snd (clear_estop now c)"
| "ctl_apply now (RequestMode n) c = snd (request_mode now n c)"
| "ctl_apply now (CompleteModeTransition b) c = complete_mode_transition now b c"
| "ctl_apply now (SetDriverReady b) c = set_driver_ready now b c"
| "ctl_apply now InvalidateConnection c = invalidate_connection now c"
| "ctl_apply now (UpdateRobotState st) c = update_robot_state now st c"

fun ctl_run :: "(time \<times> ctl_op) list \<Rightarrow> ctl \<Rightarrow> ctl" where
  "ctl_run [] c = c"
| "ctl_run ((now, f) # fs) c = ctl_run fs (ctl_apply now f c)"

section \<open>The invariant\<close>

definition velocity_in_unit :: "velocity \<Rightarrow> bool" where
  "velocity_in_unit v \<longleftrightarrow> unit_range (vx v) \<and> unit_range (vy v) \<and> unit_range (vyaw v)"

definition ctl_inv :: "ctl \<Rightarrow> bool" where
  "ctl_inv c \<longleftrightarrow>
     0 < command_deadman c \<and>
     (has_velocity c \<longrightarrow> movement_ready_locked c) \<and>
     (\<not> has_velocity c \<longrightarrow> latest_velocity c = zero_velocity) \<and>
     velocity_in_unit (latest_velocity c) \<and>
     (mode_transition_pending c \<longrightarrow>
        driver_ready c \<and> motion_transition_gate c \<and> st_linked (status c) \<and>
        st_authority (status c) \<and> st_error (status c) = 0 \<and>
        pending_mode c \<in> snd ` set kModes) \<and>
     (\<not> mode_transition_pending c \<longrightarrow> pending_mode c = 0)"

lemmas ctl_ops [ctl_defs] =
  force_zero_locked_def accept_velocity_def trigger_estop_def clear_estop_def
  request_mode_def complete_mode_transition_def set_driver_ready_def
  invalidate_connection_def update_robot_state_def movement_ready_locked_def

lemma velocity_in_unit_zero [simp]: "velocity_in_unit zero_velocity"
  by (simp add: velocity_in_unit_def zero_velocity_def)

lemma clamp_velocity_in_unit: "velocity_finite v \<Longrightarrow> velocity_in_unit (clamp_velocity v)"
  by (simp add: velocity_finite_def velocity_in_unit_def clamp_velocity_def clamp_unit_range)

lemma ctl_inv_initial: "RobotController d = Inr c \<Longrightarrow> ctl_inv c"
  by (auto simp: RobotController_def ctl_inv_def split: if_splits)

lemma ctl_inv_accept: "ctl_inv c \<Longrightarrow> ctl_inv (snd (accept_velocity now v c))"
  using clamp_velocity_in_unit [of v]
  by (auto simp: ctl_inv_def accept_velocity_def force_zero_locked_def
      movement_ready_locked_def velocity_finite_def Let_def)

lemma ctl_inv_request: "ctl_inv c \<Longrightarrow> ctl_inv (snd (request_mode now n c))"
  by (auto simp: ctl_inv_def request_mode_def force_zero_locked_def Let_def
      movement_ready_locked_def split: option.splits dest!: map_of_SomeD intro: rev_image_eqI)

lemma ctl_inv_update: "ctl_inv c \<Longrightarrow> ctl_inv (update_robot_state now st c)"
  by (auto simp: ctl_inv_def update_robot_state_def force_zero_locked_def Let_def
      movement_ready_locked_def)

lemma ctl_inv_others:
  assumes "ctl_inv c"
  shows "ctl_inv (snd (trigger_estop now c))" "ctl_inv (snd (clear_estop now c))"
    "ctl_inv (complete_mode_transition now b c)" "ctl_inv (set_driver_ready now b c)"
    "ctl_inv (invalidate_connection now c)"
  using assms by (auto simp: ctl_inv_def ctl_ops Let_def)

lemmas ctl_inv_ops [step_inv] = ctl_inv_accept ctl_inv_request ctl_inv_update ctl_inv_others

lemma ctl_inv_apply: "ctl_inv c \<Longrightarrow> ctl_inv (ctl_apply now f c)"
  by (cases f) (simp_all add: ctl_inv_ops)

interpretation controller: invariant_system
    "\<lambda>c. \<exists>d. RobotController d = Inr c" "\<lambda>c (now, f) c'. c' = ctl_apply now f c" ctl_inv
  by unfold_locales (auto simp: ctl_inv_initial ctl_inv_apply)

lemma ctl_inv_run: "ctl_inv c \<Longrightarrow> ctl_inv (ctl_run fs c)"
  by (induction fs c rule: ctl_run.induct) (simp_all add: ctl_inv_apply)

lemma ctl_run_append [simp]: "ctl_run (fs @ gs) c = ctl_run gs (ctl_run fs c)"
  by (induction fs c rule: ctl_run.induct) simp_all

section \<open>Where an accepted velocity comes from\<close>

text \<open>A status under which motion is permitted, and the operations that keep a velocity.\<close>

definition motion_status :: "ControllerStatus \<Rightarrow> bool" where
  "motion_status st \<longleftrightarrow>
     st_linked st \<and> st_authority st \<and> st_sport st = kSportStateMove \<and> st_error st = 0"

fun keeps_velocity :: "ctl_op \<Rightarrow> bool" where
  "keeps_velocity (RequestMode _) = True"
| "keeps_velocity (SetDriverReady b) = b"
| "keeps_velocity (UpdateRobotState st) = motion_status st"
| "keeps_velocity _ = False"

lemma has_velocity_origin:
  assumes "ctl_inv c" "has_velocity (ctl_apply now f c)"
  shows "(\<exists>v. f = AcceptVelocity v \<and> vd_accepted (fst (accept_velocity now v c)) \<and>
              latest_velocity (ctl_apply now f c) = clamp_velocity v \<and>
              last_velocity_time (ctl_apply now f c) = now) \<or>
         (has_velocity c \<and> keeps_velocity f \<and>
              latest_velocity (ctl_apply now f c) = latest_velocity c \<and>
              last_velocity_time (ctl_apply now f c) = last_velocity_time c)"
  using assms
  by (cases f)
    (auto simp: ctl_ops Let_def ctl_inv_def motion_status_def
      split: if_splits option.splits)

lemma deadman_apply [simp]: "command_deadman (ctl_apply now f c) = command_deadman c"
  by (cases f) (auto simp: ctl_ops Let_def split: option.splits)

lemma deadman_run [simp]: "command_deadman (ctl_run fs c) = command_deadman c"
  by (induction fs c rule: ctl_run.induct) simp_all

lemma velocity_origin:
  assumes "ctl_inv c0" "\<not> has_velocity c0" "has_velocity (ctl_run fs c0)"
  shows "\<exists>pre t v post. fs = pre @ (t, AcceptVelocity v) # post \<and>
    vd_accepted (fst (accept_velocity t v (ctl_run pre c0))) \<and>
    latest_velocity (ctl_run fs c0) = clamp_velocity v \<and>
    last_velocity_time (ctl_run fs c0) = t \<and> (\<forall>(u, f) \<in> set post. keeps_velocity f)"
  using assms(3)
proof (induction fs rule: rev_induct)
  case Nil
  with assms(2) show ?case by simp
next
  case (snoc x fs)
  obtain u f where x: "x = (u, f)" by (cases x)
  let ?c = "ctl_run fs c0"
  have run: "ctl_run (fs @ [x]) c0 = ctl_apply u f ?c"
    by (simp add: x)
  from has_velocity_origin [of ?c u f] ctl_inv_run [OF assms(1), of fs] snoc.prems run
  consider (new) v where "f = AcceptVelocity v" "vd_accepted (fst (accept_velocity u v ?c))"
      "latest_velocity (ctl_apply u f ?c) = clamp_velocity v"
      "last_velocity_time (ctl_apply u f ?c) = u"
    | (old) "has_velocity ?c" "keeps_velocity f"
      "latest_velocity (ctl_apply u f ?c) = latest_velocity ?c"
      "last_velocity_time (ctl_apply u f ?c) = last_velocity_time ?c"
    by auto
  then show ?case
  proof cases
    case new
    then show ?thesis
      by (intro exI [of _ fs] exI [of _ u] exI [of _ v] exI [of _ "[]"]) (simp add: x)
  next
    case old
    then obtain pre t v post where p: "fs = pre @ (t, AcceptVelocity v) # post"
      "vd_accepted (fst (accept_velocity t v (ctl_run pre c0)))"
      "latest_velocity ?c = clamp_velocity v" "last_velocity_time ?c = t"
      "\<forall>(u, f) \<in> set post. keeps_velocity f"
      using snoc.IH by blast
    from old p show ?thesis
      by (intro exI [of _ pre] exI [of _ t] exI [of _ v] exI [of _ "post @ [x]"])
        (simp add: x)
  qed
qed

lemma initial_no_velocity: "RobotController d = Inr c \<Longrightarrow> \<not> has_velocity c"
  by (auto simp: RobotController_def split: if_splits)

lemma initial_deadman: "RobotController d = Inr c \<Longrightarrow> command_deadman c = d"
  by (auto simp: RobotController_def split: if_splits)

lemma tick_accepted_iff:
  "vd_accepted (velocity_for_tick now c) \<longleftrightarrow> movement_ready_locked c \<and> has_velocity c \<and>
     now - last_velocity_time c \<le> ms (command_deadman c)"
  by (auto simp: velocity_for_tick_def)

lemma tick_value:
  "vd_value (velocity_for_tick now c) =
     (if vd_accepted (velocity_for_tick now c) then latest_velocity c else zero_velocity)"
  by (auto simp: velocity_for_tick_def)

section \<open>Latches and gates over sequences of operations\<close>

lemma estop_stays:
  "f \<noteq> ClearEstop \<Longrightarrow> estop_latched c \<Longrightarrow> estop_latched (ctl_apply now f c)"
  by (cases f) (auto simp: ctl_ops Let_def split: option.splits)

lemma estop_stays_run:
  "estop_latched c \<Longrightarrow> ClearEstop \<notin> snd ` set fs \<Longrightarrow> estop_latched (ctl_run fs c)"
  by (induction fs c rule: ctl_run.induct) (auto simp: estop_stays)

lemma accept_needs_ready:
  "vd_accepted (fst (accept_velocity now v c)) \<longleftrightarrow> velocity_finite v \<and> movement_ready_locked c"
  by (auto simp: accept_velocity_def rejection_locked_def velocity_finite_def Let_def)

lemma request_mode_accepts_iff:
  "md_accepted (fst (request_mode now n c)) \<longleftrightarrow>
     (\<exists>m. map_of kModes (normalized_mode n) = Some m \<and> (estop_latched c \<longrightarrow> m = 0xA101)) \<and>
     driver_ready c \<and> \<not> mode_transition_pending c \<and> st_linked (status c) \<and>
     st_error (status c) = 0 \<and> st_authority (status c)"
  by (auto simp: request_mode_def Let_def split: option.splits)

lemma request_mode_rejected_unchanged:
  "\<not> md_accepted (fst (request_mode now n c)) \<Longrightarrow> snd (request_mode now n c) = c"
  by (auto simp: request_mode_def Let_def split: option.splits if_splits)

text \<open>
  The transition gate, once closed, is opened by one thing only: the completion of a
  pending transition to Move. \<open>opens_gate fs\<close> says that \<open>fs\<close> contains a request for the
  mode \<^verbatim>\<open>move\<close> followed later by a successful completion.
\<close>

definition is_move_request :: "ctl_op \<Rightarrow> bool" where
  "is_move_request f \<longleftrightarrow> (\<exists>n. f = RequestMode n \<and> normalized_mode n = ''move'')"

definition opens_gate :: "(time \<times> ctl_op) list \<Rightarrow> bool" where
  "opens_gate fs \<longleftrightarrow> (\<exists>pre t f mid u post.
     fs = pre @ (t, f) # mid @ (u, CompleteModeTransition True) # post \<and> is_move_request f)"

lemma kModes_move: "map_of kModes n = Some 0xA104 \<longleftrightarrow> n = ''move''"
  by (auto simp: kModes_def split: if_splits)

lemma gate_stays:
  assumes "motion_transition_gate c" "f \<noteq> CompleteModeTransition True \<or> pending_mode c \<noteq> 0xA104"
  shows "motion_transition_gate (ctl_apply now f c)"
  using assms by (cases f) (auto simp: ctl_ops Let_def split: option.splits)

lemma pending_not_move:
  assumes "\<not> is_move_request f" "pending_mode c \<noteq> 0xA104"
  shows "pending_mode (ctl_apply now f c) \<noteq> 0xA104"
  using assms
  by (cases f)
    (auto simp: ctl_ops Let_def is_move_request_def kModes_move split: option.splits)

lemma opens_gate_Cons: "opens_gate fs \<Longrightarrow> opens_gate (x # fs)"
  unfolding opens_gate_def by (metis append_Cons)

lemma gate_open_after_request:
  assumes "motion_transition_gate c" "\<not> motion_transition_gate (ctl_run fs c)"
  shows "\<exists>pre u post. fs = pre @ (u, CompleteModeTransition True) # post"
  using assms
proof (induction fs c rule: ctl_run.induct)
  case (2 now f fs c)
  show ?case
  proof (cases "f = CompleteModeTransition True")
    case True
    then show ?thesis by blast
  next
    case False
    then have "motion_transition_gate (ctl_apply now f c)"
      using "2.prems"(1) by (simp add: gate_stays)
    then show ?thesis
      using "2.IH" "2.prems"(2) by (metis append_Cons ctl_run.simps(2))
  qed
qed simp

lemma gate_open_needs_move:
  assumes "motion_transition_gate c" "pending_mode c \<noteq> 0xA104"
    "\<not> motion_transition_gate (ctl_run fs c)"
  shows "opens_gate fs"
  using assms
proof (induction fs c rule: ctl_run.induct)
  case (2 now f fs c)
  have g: "motion_transition_gate (ctl_apply now f c)"
    using "2.prems"(1,2) by (simp add: gate_stays)
  show ?case
  proof (cases "is_move_request f")
    case True
    obtain pre u post where "fs = pre @ (u, CompleteModeTransition True) # post"
      using gate_open_after_request [OF g, of fs] "2.prems"(3) by auto
    then have "(now, f) # fs = [] @ (now, f) # pre @ (u, CompleteModeTransition True) # post"
      by simp
    then show ?thesis
      unfolding opens_gate_def using True by blast
  next
    case False
    then show ?thesis
      using "2.IH" [OF g pending_not_move] "2.prems"(2,3) by (simp add: opens_gate_Cons)
  qed
qed simp

section \<open>Accepted ticks\<close>

lemma accepted_tick_origin:
  assumes "RobotController d = Inr c0"
    and "vd_accepted (velocity_for_tick now (ctl_run fs c0))"
  obtains pre t v post where "fs = pre @ (t, AcceptVelocity v) # post"
    "vd_accepted (fst (accept_velocity t v (ctl_run pre c0)))"
    "vd_value (velocity_for_tick now (ctl_run fs c0)) = clamp_velocity v"
    "now - t \<le> ms d" "\<forall>(u, f) \<in> set post. keeps_velocity f"
proof -
  have acc: "has_velocity (ctl_run fs c0)"
    "now - last_velocity_time (ctl_run fs c0) \<le> ms d"
    using assms initial_deadman [OF assms(1)] by (auto simp: tick_accepted_iff)
  obtain pre t v post where o: "fs = pre @ (t, AcceptVelocity v) # post"
    "vd_accepted (fst (accept_velocity t v (ctl_run pre c0)))"
    "latest_velocity (ctl_run fs c0) = clamp_velocity v"
    "last_velocity_time (ctl_run fs c0) = t" "\<forall>(u, f) \<in> set post. keeps_velocity f"
    using velocity_origin [OF ctl_inv_initial initial_no_velocity acc(1)] assms(1) by blast
  show ?thesis
    by (rule that [of pre t v post]) (use o acc(2) assms(2) in \<open>simp_all add: tick_value\<close>)
qed

lemma accepted_tick_gates:
  assumes "RobotController d = Inr c0" "vd_accepted (velocity_for_tick now (ctl_run fs c0))"
  shows "driver_ready (ctl_run fs c0)" "\<not> motion_transition_gate (ctl_run fs c0)"
    "\<not> mode_transition_pending (ctl_run fs c0)" "motion_status (status (ctl_run fs c0))"
    "\<not> estop_latched (ctl_run fs c0)" "velocity_in_unit (vd_value (velocity_for_tick now (ctl_run fs c0)))"
  using assms ctl_inv_run [OF ctl_inv_initial [OF assms(1)], of fs]
  by (auto simp: tick_accepted_iff tick_value movement_ready_locked_def motion_status_def ctl_inv_def)

section \<open>Properties\<close>

text \<open>
  A velocity the motion tick may send is fresh and was explicitly commanded: whatever
  sequence of operations ran since construction, an accepted tick carries the clamped value
  of a finite command that the gate itself accepted at most the deadman time ago, and since
  then no operation other than mode requests, re-arming and status reports that permit
  motion took place. So no velocity survives an emergency stop, its release, a completed
  mode transition, a lost connection, a lost link or authority, or a rejected command.
\<close>

theorem tick_velocity_is_fresh:
  assumes "RobotController d = Inr c0"
    and "vd_accepted (velocity_for_tick now (ctl_run fs c0))"
  shows "\<exists>pre t v post. fs = pre @ (t, AcceptVelocity v) # post \<and>
    vd_accepted (fst (accept_velocity t v (ctl_run pre c0))) \<and>
    vd_value (velocity_for_tick now (ctl_run fs c0)) = clamp_velocity v \<and>
    now - t \<le> ms d \<and> (\<forall>(u, f) \<in> set post. keeps_velocity f)"
  using accepted_tick_origin [OF assms] by (metis (no_types, lifting))

definition example_status :: ControllerStatus where
  "example_status =
     \<lparr>st_linked = True, st_authority = True, st_sport = 0xB104, st_error = 0\<rparr>"

definition example_command :: velocity where
  "example_command = \<lparr>vx = Fin 2, vy = Fin 0, vyaw = Fin (- 1 / 2)\<rparr>"

definition example_controller :: ctl where
  "example_controller = projr (RobotController 100)"

definition example_drive :: "(time \<times> ctl_op) list" where
  "example_drive =
     [(0, UpdateRobotState example_status), (1, SetDriverReady True),
      (2, AcceptVelocity example_command)]"

lemmas example_defs = example_status_def example_command_def example_controller_def
  example_drive_def RobotController_def

lemma example_controller_eq: "RobotController 100 = Inr example_controller"
  by (simp add: example_controller_def RobotController_def)

lemma example_drive_accepts: "vd_accepted (velocity_for_tick 50 (ctl_run example_drive example_controller))"
  by (simp add: example_defs ctl_ops velocity_for_tick_def Let_def kSportStateMove_def
      clamp_velocity_def ms_def)

theorem tick_velocity_is_fresh_witness:
  "vd_accepted (velocity_for_tick 50 (ctl_run example_drive example_controller)) \<and>
   (\<exists>pre t v post. example_drive = pre @ (t, AcceptVelocity v) # post \<and>
    vd_accepted (fst (accept_velocity t v (ctl_run pre example_controller))) \<and>
    vd_value (velocity_for_tick 50 (ctl_run example_drive example_controller)) = clamp_velocity v \<and>
    50 - t \<le> ms 100 \<and> (\<forall>(u, f) \<in> set post. keeps_velocity f))"
  using tick_velocity_is_fresh [OF example_controller_eq example_drive_accepts]
    example_drive_accepts by blast

text \<open>
  C7. Motion needs every gate at once, and stays within the unit range: in any state the
  controller can reach, an accepted tick means that the driver is ready, no mode transition
  is pending or gating, link, authority and the Move sport state are reported, there is no
  system error and no emergency stop, and every component of the velocity is a finite number
  in [-1, 1].
\<close>

theorem tick_needs_every_gate:
  assumes "RobotController d = Inr c0" "c = ctl_run fs c0"
    and "vd_accepted (velocity_for_tick now c)"
  shows "driver_ready c \<and> \<not> motion_transition_gate c \<and> \<not> mode_transition_pending c \<and>
    motion_status (status c) \<and> \<not> estop_latched c \<and>
    velocity_in_unit (vd_value (velocity_for_tick now c))"
  using accepted_tick_gates [OF assms(1)] assms(2,3) by blast

theorem tick_needs_every_gate_witness:
  "vd_accepted (velocity_for_tick 50 (ctl_run example_drive example_controller)) \<and>
   velocity_in_unit (vd_value (velocity_for_tick 50 (ctl_run example_drive example_controller)))"
  using tick_needs_every_gate [OF example_controller_eq refl example_drive_accepts]
    example_drive_accepts by blast

text \<open>
  C8. The software emergency stop holds until it is released: after it is triggered in any
  state, and after any operations that do not release it (connection loss, reconnection and
  mode changes included), no velocity is accepted, no tick is accepted, and the only mode
  request that can be accepted is damping.
\<close>

theorem estop_blocks_motion:
  assumes "ClearEstop \<notin> snd ` set fs"
  shows "let c = ctl_run fs (snd (trigger_estop t c0)) in
    \<not> vd_accepted (velocity_for_tick now c) \<and>
    \<not> vd_accepted (fst (accept_velocity now v c)) \<and>
    (md_accepted (fst (request_mode now n c)) \<longrightarrow> md_mode (fst (request_mode now n c)) = 0xA101)"
proof -
  have "estop_latched (ctl_run fs (snd (trigger_estop t c0)))"
    using assms by (intro estop_stays_run) (auto simp: trigger_estop_def force_zero_locked_def)
  then show ?thesis
    by (auto simp: Let_def tick_accepted_iff accept_needs_ready movement_ready_locked_def
        request_mode_def split: option.splits if_splits)
qed

theorem estop_blocks_motion_witness:
  "let c = ctl_run [(7, AcceptVelocity example_command), (8, InvalidateConnection),
        (9, SetDriverReady True)] (snd (trigger_estop 5 (ctl_run example_drive example_controller))) in
    \<not> vd_accepted (velocity_for_tick 9 c) \<and>
    \<not> vd_accepted (fst (accept_velocity 9 example_command c)) \<and>
    (md_accepted (fst (request_mode 9 ''move'' c)) \<longrightarrow>
       md_mode (fst (request_mode 9 ''move'' c)) = 0xA101)"
  by (rule estop_blocks_motion) simp

text \<open>
  C9. A reconnection never restores motion: after the connection was invalidated, a tick can
  be accepted again only if the operations since then contain a new request for the mode
  move that was later completed successfully. Re-arming readiness and a robot that reports
  the Move state with authority are not enough.
\<close>

theorem reconnect_needs_new_move_mode:
  assumes "vd_accepted (velocity_for_tick now (ctl_run fs (invalidate_connection t c)))"
  shows "opens_gate fs"
proof (rule gate_open_needs_move)
  show "motion_transition_gate (invalidate_connection t c)"
    "pending_mode (invalidate_connection t c) \<noteq> 0xA104"
    by (simp_all add: invalidate_connection_def force_zero_locked_def)
  show "\<not> motion_transition_gate (ctl_run fs (invalidate_connection t c))"
    using assms by (simp add: tick_accepted_iff movement_ready_locked_def)
qed

definition example_rearm :: "(time \<times> ctl_op) list" where
  "example_rearm =
     [(10, UpdateRobotState example_status), (11, SetDriverReady True), (12, RequestMode ''move''),
      (13, CompleteModeTransition True), (14, AcceptVelocity example_command)]"

lemma normalized_move: "normalized_mode ''move'' = ''move''"
  by code_simp

lemma example_rearm_accepts:
  "vd_accepted (velocity_for_tick 20
     (ctl_run example_rearm (invalidate_connection 9 example_controller)))"
  by (simp add: example_rearm_def example_defs ctl_ops velocity_for_tick_def Let_def
      kSportStateMove_def clamp_velocity_def ms_def normalized_move kModes_def)

theorem reconnect_needs_new_move_mode_witness:
  "vd_accepted (velocity_for_tick 20
     (ctl_run example_rearm (invalidate_connection 9 example_controller))) \<and>
   opens_gate example_rearm"
  using reconnect_needs_new_move_mode [OF example_rearm_accepts] example_rearm_accepts by blast

text \<open>
  Mode requests: a request is accepted exactly when its name, trimmed and lower-cased, is
  a documented mode, the driver is ready, no transition is pending, link and authority are
  present, no system error is active, and the emergency stop is not latched unless the mode
  is damping. An accepted request closes the motion gate and drops the stored velocity; a
  rejected one changes nothing.
\<close>

theorem request_mode_contract:
  "(md_accepted (fst (request_mode now n c)) \<longleftrightarrow>
     (\<exists>m. map_of kModes (normalized_mode n) = Some m \<and> \<not> (estop_latched c \<and> m \<noteq> 0xA101)) \<and>
     driver_ready c \<and> \<not> mode_transition_pending c \<and> st_linked (status c) \<and>
     st_error (status c) = 0 \<and> st_authority (status c)) \<and>
   (if md_accepted (fst (request_mode now n c))
    then (let c' = snd (request_mode now n c) in
      motion_transition_gate c' \<and> mode_transition_pending c' \<and> \<not> has_velocity c' \<and>
      latest_velocity c' = zero_velocity \<and>
      pending_mode c' = md_mode (fst (request_mode now n c)) \<and>
      map_of kModes (normalized_mode n) = Some (pending_mode c'))
    else snd (request_mode now n c) = c)"
  by (auto simp: request_mode_def force_zero_locked_def Let_def split: option.splits)

end
