(* ===== verification/Lidar_Parse.thy ===== *)
theory Lidar_Parse
  imports Ieee_Float
begin

text \<open>
  The datagram parsers of \<^verbatim>\<open>lidar_stream.cpp\<close>: the little-endian reads, the scale
  validation, and the point-cloud and odometry parsers with their packed and aligned
  layouts. A datagram is the list of its bytes (\<open>None\<close> for a null pointer). A read
  outside the datagram is undefined behaviour in the source; here it is the value \<open>None\<close>
  of the option monad, so that the absence of out-of-bounds reads is a theorem. The locale
  \<open>le_field\<close> states what a fixed-width little-endian field promises (its width, and that a
  read at the offset where a value was written returns it); it is interpreted on the
  three readers and carries the round-trip proofs.
\<close>

section \<open>Little-endian reads\<close>

type_synonym datagram = "byte list"

definition byte_at :: "datagram \<Rightarrow> nat \<Rightarrow> byte option" where
  "byte_at data i = (if i < length data then Some (data ! i) else None)"

definition ReadU16LE :: "datagram \<Rightarrow> nat \<Rightarrow> u16 option" where
  "ReadU16LE data p = do {
     b0 \<leftarrow> byte_at data p;
     b1 \<leftarrow> byte_at data (p + 1);
     Some (or (and (ucast b0) 0xFF) (push_bit 8 (ucast b1)))
   }"

definition ReadU32LE :: "datagram \<Rightarrow> nat \<Rightarrow> u32 option" where
  "ReadU32LE data p = do {
     b0 \<leftarrow> byte_at data p;
     b1 \<leftarrow> byte_at data (p + 1);
     b2 \<leftarrow> byte_at data (p + 2);
     b3 \<leftarrow> byte_at data (p + 3);
     Some (or (or (or (and (ucast b0) 0xFF) (push_bit 8 (and (ucast b1) 0xFF)))
                  (push_bit 16 (and (ucast b2) 0xFF)))
              (push_bit 24 (and (ucast b3) 0xFF)))
   }"

definition ReadU64LE :: "datagram \<Rightarrow> nat \<Rightarrow> u64 option" where
  "ReadU64LE data p = do {
     lo \<leftarrow> ReadU32LE data p;
     hi \<leftarrow> ReadU32LE data (p + 4);
     Some (or (ucast lo) (push_bit 32 (ucast hi)))
   }"

definition ReadI32LE :: "datagram \<Rightarrow> nat \<Rightarrow> int option" where
  "ReadI32LE data p = map_option sint (ReadU32LE data p)"

definition ReadI64LE :: "datagram \<Rightarrow> nat \<Rightarrow> int option" where
  "ReadI64LE data p = do {
     lo \<leftarrow> ReadU32LE data p;
     hi \<leftarrow> ReadU32LE data (p + 4);
     Some (sint (or (ucast lo) (push_bit 32 (ucast hi)) :: u64))
   }"

section \<open>Configuration and results\<close>

record LidarPoint =
  pt_x :: fl
  pt_y :: fl
  pt_z :: fl
  pt_rgba :: u32
  pt_rgba_channels :: "u32 list"

record LidarOdometry =
  od_timestamp_ns :: u64
  od_x :: fl
  od_y :: fl
  od_z :: fl
  od_qx :: fl
  od_qy :: fl
  od_qz :: fl
  od_qw :: fl

record LidarParseConfig =
  point_position_scale :: fl
  odom_position_scale :: fl
  odom_quaternion_scale :: fl
  odom_quaternion_order :: string

record PointCloudPacketResult =
  pk_ok :: bool
  pk_reason :: string
  pk_timestamp_ns :: u64
  pk_total :: u64
  pk_index :: u32
  pk_pos_num :: u16
  pk_points :: "LidarPoint list"

record OdometryPacketResult =
  op_ok :: bool
  op_reason :: string
  op_odometry :: LidarOdometry

definition empty_packet_result :: PointCloudPacketResult where
  "empty_packet_result = \<lparr>pk_ok = False, pk_reason = [], pk_timestamp_ns = 0, pk_total = 0,
     pk_index = 0, pk_pos_num = 0, pk_points = []\<rparr>"

definition empty_odometry :: LidarOdometry where
  "empty_odometry = \<lparr>od_timestamp_ns = 0, od_x = Fin 0, od_y = Fin 0, od_z = Fin 0,
     od_qx = Fin 0, od_qy = Fin 0, od_qz = Fin 0, od_qw = Fin 0\<rparr>"

definition empty_odometry_result :: OdometryPacketResult where
  "empty_odometry_result = \<lparr>op_ok = False, op_reason = [], op_odometry = empty_odometry\<rparr>"

definition kHeadMarker :: u16 where "kHeadMarker = 0xAA55"
definition kTailMarker :: u16 where "kTailMarker = 0xFF00"
definition kMaxPosNum :: nat where "kMaxPosNum = 50"
definition kPointBytes :: nat where "kPointBytes = 28"

definition IsFinitePositive :: "fl \<Rightarrow> bool" where
  "IsFinitePositive v \<longleftrightarrow> isfinite v \<and> fl_less (Fin 0) v"

fun fl_abs :: "fl \<Rightarrow> fl" where
  "fl_abs (Fin x) = Fin \<bar>x\<bar>"
| "fl_abs (Inf _) = Inf False"
| "fl_abs NaN = NaN"

text \<open>\<open>fl_le a b\<close> is the C++ expression \<^verbatim>\<open>a <= b\<close>.\<close>

definition fl_le :: "fl \<Rightarrow> fl \<Rightarrow> bool" where
  "fl_le a b \<longleftrightarrow> fl_less a b \<or> fl_eq a b"

definition ValidateScales :: "LidarParseConfig \<Rightarrow> bool" where
  "ValidateScales config \<longleftrightarrow>
     IsFinitePositive (point_position_scale config) \<and>
     IsFinitePositive (odom_position_scale config) \<and>
     IsFinitePositive (odom_quaternion_scale config) \<and>
     fl_le (fl_abs (point_position_scale config)) (Fin 1000000000) \<and>
     fl_le (fl_abs (odom_position_scale config)) (Fin 1000000000) \<and>
     fl_le (fl_abs (odom_quaternion_scale config)) (Fin 1000000000)"

definition ValidQuaternionOrder :: "string \<Rightarrow> bool" where
  "ValidQuaternionOrder order \<longleftrightarrow> order = ''xyzw'' \<or> order = ''wxyz''"

definition MakeReason :: "string \<Rightarrow> string" where
  "MakeReason what = ''lidar parse failure: '' @ what"

section \<open>Point-cloud packets\<close>

record CloudLayout =
  cl_timestamp_at :: nat
  cl_total_at :: nat
  cl_index_at :: nat
  cl_posnum_at :: nat
  cl_pos_at :: nat
  cl_fixed_len :: nat

definition kPackedCloud :: CloudLayout where
  "kPackedCloud = \<lparr>cl_timestamp_at = 2, cl_total_at = 10, cl_index_at = 14, cl_posnum_at = 18,
     cl_pos_at = 20, cl_fixed_len = 20 + 28 * kMaxPosNum + 2\<rparr>"

definition kAlignedCloud :: CloudLayout where
  "kAlignedCloud = \<lparr>cl_timestamp_at = 8, cl_total_at = 16, cl_index_at = 20, cl_posnum_at = 24,
     cl_pos_at = 28, cl_fixed_len = 28 + 28 * kMaxPosNum + 2\<rparr>"

text \<open>
  One point: \<open>Inl\<close> is the early return of the non-finite check. The outer option is the
  bounds of the reads.
\<close>

definition scaled_coordinate :: "LidarParseConfig \<Rightarrow> int \<Rightarrow> fl" where
  "scaled_coordinate config n =
     fl_mul binary64 (fl_of_int binary64 n) (point_position_scale config)"

definition ParsePoint :: "datagram \<Rightarrow> LidarParseConfig \<Rightarrow> nat \<Rightarrow> (string + LidarPoint) option" where
  "ParsePoint data config p = do {
     ix \<leftarrow> ReadI32LE data p;
     iy \<leftarrow> ReadI32LE data (p + 4);
     iz \<leftarrow> ReadI32LE data (p + 8);
     let x = scaled_coordinate config ix;
     let y = scaled_coordinate config iy;
     let z = scaled_coordinate config iz;
     if \<not> isfinite x \<or> \<not> isfinite y \<or> \<not> isfinite z
     then Some (Inl (MakeReason ''point coordinate scaled to non-finite''))
     else do {
       c0 \<leftarrow> ReadU32LE data (p + 12);
       c1 \<leftarrow> ReadU32LE data (p + 16);
       c2 \<leftarrow> ReadU32LE data (p + 20);
       c3 \<leftarrow> ReadU32LE data (p + 24);
       Some (Inr \<lparr>pt_x = fl_cast binary32 x, pt_y = fl_cast binary32 y, pt_z = fl_cast binary32 z,
                  pt_rgba = c0, pt_rgba_channels = [c0, c1, c2, c3]\<rparr>)
     }
   }"

text \<open>The loop over the points \<open>i\<close> to \<open>i + n - 1\<close>, accumulating \<open>pts\<close>.\<close>

fun ParsePoints :: "datagram \<Rightarrow> LidarParseConfig \<Rightarrow> nat \<Rightarrow> nat \<Rightarrow> nat \<Rightarrow> LidarPoint list \<Rightarrow>
    (string + LidarPoint list) option" where
  "ParsePoints data config pos_at i 0 pts = Some (Inr pts)"
| "ParsePoints data config pos_at i (Suc n) pts =
     (case ParsePoint data config (pos_at + i * kPointBytes) of
        None \<Rightarrow> None
      | Some (Inl r) \<Rightarrow> Some (Inl r)
      | Some (Inr pt) \<Rightarrow> ParsePoints data config pos_at (Suc i) n (pts @ [pt]))"

definition ParsePointCloudWithLayout :: "datagram \<Rightarrow> CloudLayout \<Rightarrow> LidarParseConfig \<Rightarrow>
    PointCloudPacketResult \<Rightarrow> (bool \<times> PointCloudPacketResult) option" where
  "ParsePointCloudWithLayout data layout config result =
     (if length data < cl_posnum_at layout + 2
      then Some (False, result\<lparr>pk_reason := MakeReason ''datagram too short for header''\<rparr>)
      else do {
        pos_num \<leftarrow> ReadU16LE data (cl_posnum_at layout);
        let n = unat pos_num;
        if pos_num = 0 then Some (False, result\<lparr>pk_reason := MakeReason ''pos_num is zero''\<rparr>)
        else if n > kMaxPosNum
        then Some (False, result\<lparr>pk_reason := MakeReason ''pos_num exceeds the 50-point bound''\<rparr>)
        else
          let dynamic_len = cl_pos_at layout + kPointBytes * n + 2 in
          if length data \<noteq> dynamic_len \<and> length data \<noteq> cl_fixed_len layout
          then Some (False, result\<lparr>pk_reason := MakeReason ''datagram length matches no valid tail''\<rparr>)
          else do {
            let tail_at = (if length data = dynamic_len then cl_pos_at layout + kPointBytes * n
                           else cl_fixed_len layout - 2);
            tail \<leftarrow> ReadU16LE data tail_at;
            if tail \<noteq> kTailMarker
            then Some (False, result\<lparr>pk_reason := MakeReason ''tail marker is not 0xFF00''\<rparr>)
            else do {
              ts \<leftarrow> ReadU64LE data (cl_timestamp_at layout);
              total \<leftarrow> ReadU32LE data (cl_total_at layout);
              index \<leftarrow> ReadU32LE data (cl_index_at layout);
              let result' = result\<lparr>pk_timestamp_ns := ts, pk_total := ucast total,
                                   pk_index := index, pk_pos_num := pos_num\<rparr>;
              if total = 0
              then Some (False, result'\<lparr>pk_reason := MakeReason ''total point count is zero''\<rparr>)
              else (case ParsePoints data config (cl_pos_at layout) 0 n [] of
                  None \<Rightarrow> None
                | Some (Inl r) \<Rightarrow> Some (False, result'\<lparr>pk_reason := r\<rparr>)
                | Some (Inr pts) \<Rightarrow> Some (True, result'\<lparr>pk_points := pts, pk_ok := True\<rparr>))
            }
          }
      })"

definition ParsePointCloudPacket :: "datagram option \<Rightarrow> LidarParseConfig \<Rightarrow>
    PointCloudPacketResult option" where
  "ParsePointCloudPacket dat config =
     (let result = empty_packet_result in
      if \<not> ValidateScales config
      then Some (result\<lparr>pk_reason := MakeReason ''invalid scale coefficients''\<rparr>)
      else (case dat of
        None \<Rightarrow> Some (result\<lparr>pk_reason := MakeReason ''datagram too short''\<rparr>)
      | Some data \<Rightarrow>
          if length data < 2
          then Some (result\<lparr>pk_reason := MakeReason ''datagram too short''\<rparr>)
          else do {
            head \<leftarrow> ReadU16LE data 0;
            if head \<noteq> kHeadMarker
            then Some (result\<lparr>pk_reason := MakeReason ''head marker is not 0xAA55''\<rparr>)
            else do {
              (ok, r1) \<leftarrow> ParsePointCloudWithLayout data kPackedCloud config result;
              if ok then Some r1
              else do {
                let packed_reason = pk_reason r1;
                (ok2, r2) \<leftarrow> ParsePointCloudWithLayout data kAlignedCloud config r1;
                if ok2 then Some r2
                else Some (r2\<lparr>pk_reason := (if packed_reason = [] then pk_reason r2
                                             else packed_reason), pk_ok := False\<rparr>)
              }
            }
          }))"

section \<open>Odometry packets\<close>

record OdomLayout =
  ol_len :: nat
  ol_timestamp_at :: nat
  ol_x_at :: nat
  ol_tail_at :: nat

definition kPackedOdom :: OdomLayout where
  "kPackedOdom = \<lparr>ol_len = 68, ol_timestamp_at = 2, ol_x_at = 10, ol_tail_at = 66\<rparr>"

definition kAlignedOdom :: OdomLayout where
  "kAlignedOdom = \<lparr>ol_len = 80, ol_timestamp_at = 8, ol_x_at = 16, ol_tail_at = 72\<rparr>"

definition quaternion_norm :: "fl \<Rightarrow> fl \<Rightarrow> fl \<Rightarrow> fl \<Rightarrow> fl" where
  "quaternion_norm qx qy qz qw =
     (let mul = fl_mul binary64; add = fl_add binary64 in
      fl_sqrt binary64
        (add (add (add (mul qx qx) (mul qy qy)) (mul qz qz)) (mul qw qw)))"

definition ParseOdomWithLayout :: "datagram \<Rightarrow> OdomLayout \<Rightarrow> LidarParseConfig \<Rightarrow>
    OdometryPacketResult \<Rightarrow> (bool \<times> OdometryPacketResult) option" where
  "ParseOdomWithLayout data layout config result =
     (if length data \<noteq> ol_len layout then Some (False, result)
      else do {
        head \<leftarrow> ReadU16LE data 0;
        if head \<noteq> kHeadMarker
        then Some (False, result\<lparr>op_reason := MakeReason ''head marker is not 0xAA55''\<rparr>)
        else do {
          tail \<leftarrow> ReadU16LE data (ol_tail_at layout);
          if tail \<noteq> kTailMarker
          then Some (False, result\<lparr>op_reason := MakeReason ''tail marker is not 0xFF00''\<rparr>)
          else do {
            ts \<leftarrow> ReadU64LE data (ol_timestamp_at layout);
            ix \<leftarrow> ReadI64LE data (ol_x_at layout);
            iy \<leftarrow> ReadI64LE data (ol_x_at layout + 8);
            iz \<leftarrow> ReadI64LE data (ol_x_at layout + 16);
            let scaled = (\<lambda>s n. fl_mul binary64 (fl_of_int binary64 n) s);
            let x = scaled (odom_position_scale config) ix;
            let y = scaled (odom_position_scale config) iy;
            let z = scaled (odom_position_scale config) iz;
            if \<not> isfinite x \<or> \<not> isfinite y \<or> \<not> isfinite z
            then Some (False, result\<lparr>op_reason :=
                   MakeReason ''odometry position scaled to non-finite''\<rparr>)
            else if \<not> ValidQuaternionOrder (odom_quaternion_order config)
            then Some (False, result\<lparr>op_reason :=
                   MakeReason (''odom_quaternion_order must be '' @ quoted ''xyzw'' @ '' or '' @
                     quoted ''wxyz'')\<rparr>)
            else do {
              i0 \<leftarrow> ReadI64LE data (ol_x_at layout + 24);
              i1 \<leftarrow> ReadI64LE data (ol_x_at layout + 32);
              i2 \<leftarrow> ReadI64LE data (ol_x_at layout + 40);
              i3 \<leftarrow> ReadI64LE data (ol_x_at layout + 48);
              let raw0 = scaled (odom_quaternion_scale config) i0;
              let raw1 = scaled (odom_quaternion_scale config) i1;
              let raw2 = scaled (odom_quaternion_scale config) i2;
              let raw3 = scaled (odom_quaternion_scale config) i3;
              let (qx, qy, qz, qw) =
                (if odom_quaternion_order config = ''wxyz'' then (raw1, raw2, raw3, raw0)
                 else (raw0, raw1, raw2, raw3));
              let norm = quaternion_norm qx qy qz qw;
              if \<not> isfinite norm \<or> fl_eq norm (Fin 0)
              then Some (False, result\<lparr>op_reason := MakeReason ''odometry quaternion norm is zero''\<rparr>)
              else
                Some (True, result\<lparr>op_odometry := \<lparr>od_timestamp_ns = ts, od_x = x, od_y = y,
                    od_z = z, od_qx = fl_div binary64 qx norm, od_qy = fl_div binary64 qy norm,
                    od_qz = fl_div binary64 qz norm, od_qw = fl_div binary64 qw norm\<rparr>,
                  op_ok := True\<rparr>)
            }
          }
        }
      })"

definition ParseOdometryPacket :: "datagram option \<Rightarrow> LidarParseConfig \<Rightarrow>
    OdometryPacketResult option" where
  "ParseOdometryPacket dat config =
     (let result = empty_odometry_result in
      if \<not> ValidateScales config
      then Some (result\<lparr>op_reason := MakeReason ''invalid scale coefficients''\<rparr>)
      else (case dat of
        None \<Rightarrow> Some (result\<lparr>op_reason := MakeReason ''datagram too short''\<rparr>)
      | Some data \<Rightarrow>
          if length data < 2
          then Some (result\<lparr>op_reason := MakeReason ''datagram too short''\<rparr>)
          else if length data < ol_len kPackedOdom \<and> length data < ol_len kAlignedOdom
          then Some (result\<lparr>op_reason := MakeReason ''datagram too short''\<rparr>)
          else do {
            head \<leftarrow> ReadU16LE data 0;
            if head \<noteq> kHeadMarker
            then Some (result\<lparr>op_reason := MakeReason ''head marker is not 0xAA55''\<rparr>)
            else do {
              (ok, r1) \<leftarrow> ParseOdomWithLayout data kPackedOdom config result;
              if ok then Some r1
              else do {
                (ok2, r2) \<leftarrow> ParseOdomWithLayout data kAlignedOdom config r1;
                if ok2 then Some r2
                else Some (if op_reason r2 = []
                  then r2\<lparr>op_reason := MakeReason ''datagram length matches neither layout''\<rparr>
                  else r2)
              }
            }
          }))"

section \<open>Fields of a datagram\<close>

text \<open>The bytes of a little-endian field, as a sender writes it.\<close>

definition le16 :: "u16 \<Rightarrow> byte list" where
  "le16 w = [ucast w, ucast (drop_bit 8 w)]"

definition le32 :: "u32 \<Rightarrow> byte list" where
  "le32 w = [ucast w, ucast (drop_bit 8 w), ucast (drop_bit 16 w), ucast (drop_bit 24 w)]"

definition le64 :: "u64 \<Rightarrow> byte list" where
  "le64 w = le32 (ucast w) @ le32 (ucast (drop_bit 32 w))"

text \<open>A computation that makes no read outside the datagram.\<close>

definition in_bounds :: "'a option \<Rightarrow> bool" where
  "in_bounds x \<longleftrightarrow> (\<exists>y. x = Some y)"

lemma in_bounds_Some [simp]: "in_bounds (Some x)"
  by (simp add: in_bounds_def)

lemma in_bounds_None [simp]: "\<not> in_bounds None"
  by (simp add: in_bounds_def)

lemma in_bounds_bind [simp]:
  "in_bounds (Option.bind x f) \<longleftrightarrow> in_bounds x \<and> (\<forall>y. x = Some y \<longrightarrow> in_bounds (f y))"
  by (cases x) auto

lemma in_bounds_map_option [simp]: "in_bounds (map_option f x) \<longleftrightarrow> in_bounds x"
  by (cases x) auto

lemma in_bounds_byte_at [simp]: "in_bounds (byte_at data i) \<longleftrightarrow> i < length data"
  by (simp add: byte_at_def)

locale le_field =
  fixes rd :: "datagram \<Rightarrow> nat \<Rightarrow> 'w option"
    and wr :: "'w \<Rightarrow> byte list"
    and width :: nat
  assumes wr_length: "length (wr w) = width"
    and rd_front: "rd (wr w @ post) 0 = Some w"
    and rd_shift: "rd data (p + k) = rd (drop p data) k"
    and rd_bounds: "in_bounds (rd data p) \<longleftrightarrow> p + width \<le> length data"
begin

lemma rd_field: "drop p data = wr w @ post \<Longrightarrow> rd data p = Some w"
  using rd_shift [of data p 0] rd_front [of w post] by simp

end

lemma mask255: "(255 :: 'a::len word) = mask 8"
  by (simp add: mask_eq_exp_minus_1)

lemma join16:
  "or (and (ucast (ucast w :: byte)) 0xFF)
      (push_bit 8 (ucast (ucast (drop_bit 8 w) :: byte))) = (w :: u16)"
  by (rule bit_word_eqI) (auto simp: mask255 bit_simps)

lemma join32:
  "or (or (or (and (ucast (ucast w :: byte)) 0xFF)
              (push_bit 8 (and (ucast (ucast (drop_bit 8 w) :: byte)) 0xFF)))
          (push_bit 16 (and (ucast (ucast (drop_bit 16 w) :: byte)) 0xFF)))
      (push_bit 24 (and (ucast (ucast (drop_bit 24 w) :: byte)) 0xFF)) = (w :: u32)"
proof (rule bit_word_eqI)
  fix n assume "n < LENGTH(32)"
  then consider "n < 8" | "8 \<le> n" "n < 16" | "16 \<le> n" "n < 24" | "24 \<le> n" "n < 32"
    by fastforce
  then show "bit (or (or (or (and (ucast (ucast w :: byte)) 0xFF)
              (push_bit 8 (and (ucast (ucast (drop_bit 8 w) :: byte)) 0xFF)))
          (push_bit 16 (and (ucast (ucast (drop_bit 16 w) :: byte)) 0xFF)))
      (push_bit 24 (and (ucast (ucast (drop_bit 24 w) :: byte)) 0xFF)) :: u32) n = bit w n"
    by cases (auto simp: mask255 bit_simps)
qed

lemma join64:
  "or (ucast (ucast w :: u32)) (push_bit 32 (ucast (ucast (drop_bit 32 w) :: u32))) = (w :: u64)"
  by (rule bit_word_eqI) (auto simp: bit_simps)

lemma byte_at_drop: "byte_at (drop p data) k = byte_at data (p + k)"
  by (auto simp: byte_at_def less_diff_conv add.commute)

lemma byte_at_None [simp]: "byte_at data i = None \<longleftrightarrow> length data \<le> i"
  by (auto simp: byte_at_def)

interpretation u16: le_field ReadU16LE le16 2
proof unfold_locales
  show "length (le16 w) = 2" for w
    by (simp add: le16_def)
  show "ReadU16LE (le16 w @ post) 0 = Some w" for w post
    by (simp add: ReadU16LE_def le16_def byte_at_def join16)
  show "ReadU16LE data (p + k) = ReadU16LE (drop p data) k" for data p k
    by (simp add: ReadU16LE_def byte_at_drop add.assoc)
  show "in_bounds (ReadU16LE data p) \<longleftrightarrow> p + 2 \<le> length data" for data p
    by (auto simp: ReadU16LE_def byte_at_def)
qed

interpretation u32: le_field ReadU32LE le32 4
proof unfold_locales
  show "length (le32 w) = 4" for w
    by (simp add: le32_def)
  show "ReadU32LE (le32 w @ post) 0 = Some w" for w post
    using join32 [of w] by (simp add: ReadU32LE_def le32_def byte_at_def)
  show "ReadU32LE data (p + k) = ReadU32LE (drop p data) k" for data p k
    by (simp add: ReadU32LE_def byte_at_drop add.assoc)
  show "in_bounds (ReadU32LE data p) \<longleftrightarrow> p + 4 \<le> length data" for data p
    by (auto simp: ReadU32LE_def byte_at_def)
qed

lemma ReadU64LE_le64: "ReadU64LE (le64 w @ post) 0 = Some w"
proof -
  have "ReadU32LE (le64 w @ post) 0 = Some (ucast w)"
    by (simp add: le64_def u32.rd_front)
  moreover have "ReadU32LE (le64 w @ post) 4 = Some (ucast (drop_bit 32 w))"
    by (rule u32.rd_field [where post = post]) (simp add: le64_def u32.wr_length)
  ultimately show ?thesis
    by (simp add: ReadU64LE_def join64)
qed

interpretation u64: le_field ReadU64LE le64 8
proof unfold_locales
  show "length (le64 w) = 8" for w
    by (simp add: le64_def u32.wr_length)
  show "ReadU64LE (le64 w @ post) 0 = Some w" for w post
    by (rule ReadU64LE_le64)
  show "ReadU64LE data (p + k) = ReadU64LE (drop p data) k" for data p k
    using u32.rd_shift [of data p k] u32.rd_shift [of data p "k + 4"]
    by (simp add: ReadU64LE_def add.assoc)
  show "in_bounds (ReadU64LE data p) \<longleftrightarrow> p + 8 \<le> length data" for data p
    using u32.rd_bounds [of data p, unfolded in_bounds_def]
    by (auto simp: ReadU64LE_def u32.rd_bounds)
qed

lemma ReadI64LE_eq: "ReadI64LE data p = map_option sint (ReadU64LE data p)"
  by (simp add: ReadI64LE_def ReadU64LE_def map_option_case Option.bind_eq_Some_conv
      split: bind_splits option.splits)

lemmas rd_bounds [simp] = u16.rd_bounds u32.rd_bounds u64.rd_bounds

section \<open>Every read is in bounds\<close>

lemma ParsePoint_in_bounds:
  "p + kPointBytes \<le> length data \<Longrightarrow> in_bounds (ParsePoint data config p)"
  by (simp add: ParsePoint_def ReadI32LE_def kPointBytes_def Let_def)

lemma ParsePoints_in_bounds:
  "pos_at + (i + n) * kPointBytes \<le> length data \<Longrightarrow>
    in_bounds (ParsePoints data config pos_at i n pts)"
proof (induction data config pos_at i n pts rule: ParsePoints.induct)
  case (2 data config pos_at i n pts)
  then have "in_bounds (ParsePoint data config (pos_at + i * kPointBytes))"
    by (intro ParsePoint_in_bounds) (simp add: algebra_simps)
  with 2 show ?case
    by (auto simp: in_bounds_def split: sum.splits)
qed simp

definition layout_wf :: "CloudLayout \<Rightarrow> bool" where
  "layout_wf L \<longleftrightarrow> 2 \<le> cl_timestamp_at L \<and> cl_timestamp_at L + 8 \<le> cl_total_at L \<and>
     cl_total_at L + 4 \<le> cl_index_at L \<and> cl_index_at L + 4 \<le> cl_posnum_at L \<and>
     cl_posnum_at L + 2 \<le> cl_pos_at L \<and>
     cl_fixed_len L = cl_pos_at L + kPointBytes * kMaxPosNum + 2"

lemma layouts_wf [simp]: "layout_wf kPackedCloud" "layout_wf kAlignedCloud"
  by (simp_all add: layout_wf_def kPackedCloud_def kAlignedCloud_def kPointBytes_def)

lemma cloud_length:
  assumes "layout_wf L" "n \<le> kMaxPosNum"
    and "length data = cl_pos_at L + kPointBytes * n + 2 \<or> length data = cl_fixed_len L"
  shows "cl_pos_at L + kPointBytes * n + 2 \<le> length data"
proof -
  have "kPointBytes * n \<le> kPointBytes * kMaxPosNum"
    using assms(2) by simp
  with assms show ?thesis
    unfolding layout_wf_def by linarith
qed

lemma ParsePointCloudWithLayout_in_bounds:
  assumes L: "layout_wf L"
  shows "in_bounds (ParsePointCloudWithLayout data L config result)"
proof -
  have "in_bounds (ParsePoints data config (cl_pos_at L) 0 n [])"
    if "cl_pos_at L + kPointBytes * n + 2 \<le> length data" for n
    using that by (intro ParsePoints_in_bounds) (simp add: mult.commute)
  then have pts: "in_bounds (case ParsePoints data config (cl_pos_at L) 0 n [] of
        None \<Rightarrow> None
      | Some (Inl r) \<Rightarrow> Some (False, f r)
      | Some (Inr ps) \<Rightarrow> Some (True, g ps))"
    if "cl_pos_at L + kPointBytes * n + 2 \<le> length data" for n f and g :: "_ \<Rightarrow> PointCloudPacketResult"
    using that by (fastforce simp: in_bounds_def split: option.splits sum.splits)
  show ?thesis
    using L cloud_length [OF L, of _ data] pts
    by (auto simp: ParsePointCloudWithLayout_def Let_def layout_wf_def not_less)
qed

lemma ParsePointCloudPacket_in_bounds: "in_bounds (ParsePointCloudPacket dat config)"
  by (auto simp: ParsePointCloudPacket_def Let_def ParsePointCloudWithLayout_in_bounds
      split: option.splits)

lemma ParseOdomWithLayout_in_bounds:
  "L = kPackedOdom \<or> L = kAlignedOdom \<Longrightarrow> in_bounds (ParseOdomWithLayout data L config result)"
  by (auto simp: ParseOdomWithLayout_def ReadI64LE_eq Let_def kPackedOdom_def kAlignedOdom_def
      split: prod.splits)

lemma ParseOdometryPacket_in_bounds: "in_bounds (ParseOdometryPacket dat config)"
  by (auto simp: ParseOdometryPacket_def Let_def ParseOdomWithLayout_in_bounds
      split: option.splits)

section \<open>Accepted coordinates are finite\<close>

definition bounded_point :: "LidarPoint \<Rightarrow> bool" where
  "bounded_point p \<longleftrightarrow> (\<forall>c \<in> {pt_x p, pt_y p, pt_z p}. \<exists>x. c = Fin x \<and> \<bar>x\<bar> \<le> 2 ^ 61) \<and>
     pt_rgba p = hd (pt_rgba_channels p) \<and> length (pt_rgba_channels p) = 4"

lemma valid_scale:
  "ValidateScales config \<Longrightarrow> \<exists>s. point_position_scale config = Fin s \<and> \<bar>s\<bar> \<le> 2 powi 30"
  by (cases "point_position_scale config")
    (auto simp: ValidateScales_def IsFinitePositive_def fl_le_def)

lemma sint32_bound: "\<bar>sint (w :: u32)\<bar> \<le> 2 ^ 31"
  using sint_greater_eq [of w] sint_less [of w] by simp

lemma scaled_coordinate_bounded:
  assumes "ValidateScales config"
  shows "\<exists>x. scaled_coordinate config (sint (w :: u32)) = Fin x \<and> \<bar>x\<bar> \<le> 2 powi 61"
proof -
  obtain s where s: "point_position_scale config = Fin s" "\<bar>s\<bar> \<le> 2 powi 30"
    using valid_scale [OF assms] by blast
  have n: "fl_of_int binary64 (sint w) = Fin (of_int (sint w))"
    by (rule fl_of_int_32_exact) (use sint32_bound [of w] in simp)
  have "\<bar>of_int (sint w) :: rat\<bar> \<le> 2 powi 31"
    by (metis of_int_abs of_int_le_iff of_int_numeral of_int_power power_int_numeral
        sint32_bound)
  from fl_mul_bounded [OF n s(1) this s(2)] show ?thesis
    by (simp add: scaled_coordinate_def)
qed

lemma cast_coordinate_bounded:
  assumes "ValidateScales config"
  shows "\<exists>x. fl_cast binary32 (scaled_coordinate config (sint (w :: u32))) = Fin x \<and> \<bar>x\<bar> \<le> 2 ^ 61"
proof -
  obtain x where "scaled_coordinate config (sint w) = Fin x" "\<bar>x\<bar> \<le> 2 powi 61"
    using scaled_coordinate_bounded [OF assms] by blast
  from fl_cast_bounded [OF this] show ?thesis
    by simp
qed

lemma coordinate_isfinite [simp]:
  "ValidateScales config \<Longrightarrow> isfinite (scaled_coordinate config (sint (w :: u32)))"
  using scaled_coordinate_bounded [of config w] by auto

lemma ParsePoint_bounded:
  assumes "ValidateScales config" "ParsePoint data config p = Some r"
  shows "\<exists>pt. r = Inr pt \<and> bounded_point pt"
  using assms cast_coordinate_bounded [OF assms(1)]
  by (auto simp: ParsePoint_def ReadI32LE_def Let_def bounded_point_def bind_eq_Some_conv)

lemma ParsePoints_bounded:
  assumes "ValidateScales config" "ParsePoints data config pos_at i n pts = Some r"
  shows "\<exists>qs. r = Inr (pts @ qs) \<and> length qs = n \<and> (\<forall>q \<in> set qs. bounded_point q)"
  using assms
proof (induction data config pos_at i n pts rule: ParsePoints.induct)
  case (2 data config pos_at i n pts)
  then obtain pt where pt: "ParsePoint data config (pos_at + i * kPointBytes) = Some (Inr pt)"
      "bounded_point pt"
    using ParsePoint_bounded [OF "2.prems"(1)] by (auto split: option.splits sum.splits) 
  with 2 obtain qs where "r = Inr ((pts @ [pt]) @ qs)" "length qs = n" "\<forall>q \<in> set qs. bounded_point q"
    by fastforce
  then show ?case
    using pt(2) by (intro exI [of _ "pt # qs"]) simp
qed simp

lemma unat_ucast_u64: "unat (ucast (w :: u32) :: u64) = unat w"
  using unsigned_less [of w, where ?'a = nat] by (simp add: unsigned_ucast_eq take_bit_nat_eq_self_iff)

lemma MakeReason_nonempty [simp]: "MakeReason w \<noteq> []"
  by (simp add: MakeReason_def)

lemma ParsePoints_reason: "ParsePoints data config pos_at i n pts = Some (Inl r) \<Longrightarrow> r \<noteq> []"
proof (induction data config pos_at i n pts rule: ParsePoints.induct)
  case (2 data config pos_at i n pts)
  then show ?case
    by (auto simp: ParsePoint_def Let_def bind_eq_Some_conv split: option.splits sum.splits if_splits)
qed simp

text \<open>Every value a computation returns satisfies \<open>P\<close>; goal-directed rules.\<close>

definition results :: "('a \<Rightarrow> bool) \<Rightarrow> 'a option \<Rightarrow> bool" where
  "results P x \<longleftrightarrow> (\<forall>y. x = Some y \<longrightarrow> P y)"

lemma results_Some [simp]: "results P (Some x) = P x"
  by (simp add: results_def)

lemma results_None [simp]: "results P None"
  by (simp add: results_def)

lemma results_bind [simp]:
  "results P (Option.bind x f) \<longleftrightarrow> (\<forall>y. x = Some y \<longrightarrow> results P (f y))"
  by (cases x) auto

lemma results_if:
  "results P (if b then x else y) \<longleftrightarrow> (b \<longrightarrow> results P x) \<and> (\<not> b \<longrightarrow> results P y)"
  by simp

lemma resultsD: "results P x \<Longrightarrow> x = Some y \<Longrightarrow> P y"
  by (simp add: results_def)

text \<open>What a run of the parser under one layout can return.\<close>

lemma with_layout_failed:
  "results (\<lambda>(ok, r). \<not> ok \<longrightarrow> pk_ok r = pk_ok result \<and> pk_reason r \<noteq> [])
     (ParsePointCloudWithLayout data L config result)"
  unfolding ParsePointCloudWithLayout_def Let_def
  by (auto simp: results_if dest: ParsePoints_reason split: option.splits sum.splits)

lemma with_layout_parsed:
  "results (\<lambda>(ok, r). ok \<longrightarrow> (\<exists>pn ts total index pts.
      pn \<noteq> 0 \<and> unat pn \<le> kMaxPosNum \<and> total \<noteq> 0 \<and>
      (length data = cl_pos_at L + kPointBytes * unat pn + 2 \<or> length data = cl_fixed_len L) \<and>
      ReadU64LE data (cl_timestamp_at L) = Some ts \<and> ReadU32LE data (cl_total_at L) = Some total \<and>
      ReadU32LE data (cl_index_at L) = Some index \<and> ReadU16LE data (cl_posnum_at L) = Some pn \<and>
      ParsePoints data config (cl_pos_at L) 0 (unat pn) [] = Some (Inr pts) \<and>
      r = result\<lparr>pk_timestamp_ns := ts, pk_total := ucast total, pk_index := index,
             pk_pos_num := pn, pk_points := pts, pk_ok := True\<rparr>))
     (ParsePointCloudWithLayout data L config result)"
  unfolding ParsePointCloudWithLayout_def Let_def
  by (auto simp: results_if split: option.splits sum.splits)

lemma with_layout_ok:
  assumes "ValidateScales config" "ParsePointCloudWithLayout data L config result = Some (True, r)"
  shows "pk_ok r \<and> 1 \<le> unat (pk_pos_num r) \<and> unat (pk_pos_num r) \<le> kMaxPosNum \<and>
    length (pk_points r) = unat (pk_pos_num r) \<and> (\<forall>p \<in> set (pk_points r). bounded_point p) \<and>
    0 < unat (pk_total r) \<and> unat (pk_total r) < 2 ^ 32"
proof -
  obtain pn ts total index pts where *: "pn \<noteq> 0" "unat pn \<le> kMaxPosNum" "total \<noteq> (0 :: u32)"
      "ParsePoints data config (cl_pos_at L) 0 (unat pn) [] = Some (Inr pts)"
      "r = result\<lparr>pk_timestamp_ns := ts, pk_total := ucast total, pk_index := index,
             pk_pos_num := pn, pk_points := pts, pk_ok := True\<rparr>"
    using resultsD [OF with_layout_parsed assms(2)] by auto
  have "unat (ucast total :: u64) = unat total"
    by (rule unat_ucast_u64)
  moreover have "0 < unat total" "unat total < 2 ^ 32" "0 < unat pn"
    using *(1,3) unsigned_less [of total, where ?'a = nat] by (auto simp: unat_gt_0)
  ultimately show ?thesis
    using ParsePoints_bounded [OF assms(1) *(4)] * by auto
qed

section \<open>A sender's datagram parses back\<close>

record raw_point =
  rp_x :: u32
  rp_y :: u32
  rp_z :: u32
  rp_c0 :: u32
  rp_c1 :: u32
  rp_c2 :: u32
  rp_c3 :: u32

definition encode_point :: "raw_point \<Rightarrow> byte list" where
  "encode_point p = le32 (rp_x p) @ le32 (rp_y p) @ le32 (rp_z p) @ le32 (rp_c0 p) @
     le32 (rp_c1 p) @ le32 (rp_c2 p) @ le32 (rp_c3 p)"

definition decoded_point :: "LidarParseConfig \<Rightarrow> raw_point \<Rightarrow> LidarPoint" where
  "decoded_point config p =
     \<lparr>pt_x = fl_cast binary32 (scaled_coordinate config (sint (rp_x p))),
      pt_y = fl_cast binary32 (scaled_coordinate config (sint (rp_y p))),
      pt_z = fl_cast binary32 (scaled_coordinate config (sint (rp_z p))),
      pt_rgba = rp_c0 p, pt_rgba_channels = [rp_c0 p, rp_c1 p, rp_c2 p, rp_c3 p]\<rparr>"

text \<open>
  The vendor structure, with \<open>pad1\<close> bytes of alignment after the head marker, \<open>pad2\<close>
  after the point count and \<open>pad3\<close> after the last valid point.
\<close>

definition encode_cloud :: "byte list \<Rightarrow> byte list \<Rightarrow> byte list \<Rightarrow> u64 \<Rightarrow> u32 \<Rightarrow> u32 \<Rightarrow>
    raw_point list \<Rightarrow> datagram" where
  "encode_cloud pad1 pad2 pad3 ts tot index pts =
     le16 kHeadMarker @ pad1 @ le64 ts @ le32 tot @ le32 index @
     le16 (of_nat (length pts)) @ pad2 @ concat (map encode_point pts) @ pad3 @ le16 kTailMarker"

lemmas field_lengths [simp] = u16.wr_length u32.wr_length u64.wr_length

lemma encode_point_length [simp]: "length (encode_point p) = kPointBytes"
  by (simp add: encode_point_def kPointBytes_def)

lemma encode_points_length [simp]:
  "length (concat (map encode_point pts)) = kPointBytes * length pts"
  by (induction pts) auto

lemma ParsePoint_encoded:
  assumes "ValidateScales config" "drop p data = encode_point pt @ post"
  shows "ParsePoint data config p = Some (Inr (decoded_point config pt))"
proof -
  have rd: "ReadU32LE data (p + k) = ReadU32LE (encode_point pt @ post) k" for k
    using u32.rd_shift [of data p k] assms(2) by simp
  have f: "ReadU32LE (encode_point pt @ post) 0 = Some (rp_x pt)"
    "ReadU32LE (encode_point pt @ post) 4 = Some (rp_y pt)"
    "ReadU32LE (encode_point pt @ post) 8 = Some (rp_z pt)"
    "ReadU32LE (encode_point pt @ post) 12 = Some (rp_c0 pt)"
    "ReadU32LE (encode_point pt @ post) 16 = Some (rp_c1 pt)"
    "ReadU32LE (encode_point pt @ post) 20 = Some (rp_c2 pt)"
    "ReadU32LE (encode_point pt @ post) 24 = Some (rp_c3 pt)"
    by (rule u32.rd_field; simp add: encode_point_def; fail)+
  show ?thesis
    using rd [of 0] assms(1)
    by (simp add: ParsePoint_def ReadI32LE_def Let_def rd f decoded_point_def)
qed

lemma ParsePoints_encoded:
  assumes "ValidateScales config"
    and "drop (pos_at + i * kPointBytes) data = concat (map encode_point pts) @ post"
  shows "ParsePoints data config pos_at i (length pts) acc =
    Some (Inr (acc @ map (decoded_point config) pts))"
  using assms(2)
proof (induction pts arbitrary: i acc)
  case (Cons pt pts)
  have "ParsePoint data config (pos_at + i * kPointBytes) = Some (Inr (decoded_point config pt))"
    using Cons.prems by (intro ParsePoint_encoded [OF assms(1)]) simp
  moreover have "drop (pos_at + Suc i * kPointBytes) data = concat (map encode_point pts) @ post"
    using arg_cong [OF Cons.prems, of "drop kPointBytes"] by (simp add: algebra_simps)
  ultimately show ?case
    using Cons.IH [of "Suc i"] by simp
qed simp

text \<open>Header fields of an encoded datagram, at the offsets of a layout without gaps.\<close>

definition layout_packs :: "CloudLayout \<Rightarrow> nat \<Rightarrow> nat \<Rightarrow> bool" where
  "layout_packs L g1 g2 \<longleftrightarrow> cl_timestamp_at L = 2 + g1 \<and> cl_total_at L = cl_timestamp_at L + 8 \<and>
     cl_index_at L = cl_total_at L + 4 \<and> cl_posnum_at L = cl_index_at L + 4 \<and>
     cl_pos_at L = cl_posnum_at L + 2 + g2"

lemma layouts_pack: "layout_packs kPackedCloud 0 0" "layout_packs kAlignedCloud 6 2"
  by (simp_all add: layout_packs_def kPackedCloud_def kAlignedCloud_def)

lemma unat_point_count: "n \<le> kMaxPosNum \<Longrightarrow> unat (of_nat n :: u16) = n"
  by (simp add: unat_of_nat kMaxPosNum_def)

lemma encode_cloud_length:
  "length (encode_cloud pad1 pad2 pad3 ts tot index pts) =
     22 + length pad1 + length pad2 + kPointBytes * length pts + length pad3"
  by (simp add: encode_cloud_def)

lemma encoded_fields:
  assumes "layout_packs L (length pad1) (length pad2)"
    and "data = encode_cloud pad1 pad2 pad3 ts tot index pts"
  shows "ReadU64LE data (cl_timestamp_at L) = Some ts"
    and "ReadU32LE data (cl_total_at L) = Some tot"
    and "ReadU32LE data (cl_index_at L) = Some index"
    and "ReadU16LE data (cl_posnum_at L) = Some (of_nat (length pts))"
    and "drop (cl_pos_at L) data = concat (map encode_point pts) @ pad3 @ le16 kTailMarker"
    and "ReadU16LE data (cl_pos_at L + kPointBytes * length pts + length pad3) = Some kTailMarker"
proof -
  note L = assms(1)[unfolded layout_packs_def] and d = assms(2) encode_cloud_def
  show "ReadU64LE data (cl_timestamp_at L) = Some ts"
    using L by (intro u64.rd_field) (simp add: d)
  show "ReadU32LE data (cl_total_at L) = Some tot"
    using L by (intro u32.rd_field) (simp add: d)
  show "ReadU32LE data (cl_index_at L) = Some index"
    using L by (intro u32.rd_field) (simp add: d)
  show "ReadU16LE data (cl_posnum_at L) = Some (of_nat (length pts))"
    using L by (intro u16.rd_field) (simp add: d)
  show pos: "drop (cl_pos_at L) data = concat (map encode_point pts) @ pad3 @ le16 kTailMarker"
    using L by (simp add: d)
  have "drop (cl_pos_at L + kPointBytes * length pts + length pad3) data =
      drop (kPointBytes * length pts + length pad3) (drop (cl_pos_at L) data)"
    by (simp add: add_ac)
  also have "\<dots> = le16 kTailMarker @ []"
    unfolding pos by simp
  finally show "ReadU16LE data (cl_pos_at L + kPointBytes * length pts + length pad3) =
      Some kTailMarker"
    by (rule u16.rd_field)
qed

definition valid_tail_pad :: "byte list \<Rightarrow> raw_point list \<Rightarrow> bool" where
  "valid_tail_pad pad3 pts \<longleftrightarrow>
     pad3 = [] \<or> length pad3 = kPointBytes * (kMaxPosNum - length pts)"

lemma with_layout_encoded:
  assumes v: "ValidateScales config" and t: "tot \<noteq> 0"
    and n: "pts \<noteq> []" "length pts \<le> kMaxPosNum" "valid_tail_pad pad3 pts"
    and L: "layout_wf L" "layout_packs L (length pad1) (length pad2)"
    and d: "data = encode_cloud pad1 pad2 pad3 ts tot index pts"
  shows "ParsePointCloudWithLayout data L config result = Some (True, result\<lparr>pk_timestamp_ns := ts,
     pk_total := ucast tot, pk_index := index, pk_pos_num := of_nat (length pts),
     pk_points := map (decoded_point config) pts, pk_ok := True\<rparr>)"
proof -
  define pn where "pn = (of_nat (length pts) :: u16)"
  have cnt: "unat pn = length pts"
    unfolding pn_def using n(2) by (rule unat_point_count)
  then have pn0: "pn \<noteq> 0"
    using n(1) by (metis length_0_conv unsigned_0)
  note f = encoded_fields [OF L(2) d, folded pn_def]
  have len: "length data = cl_pos_at L + kPointBytes * length pts + length pad3 + 2"
    using L(2) by (simp add: d encode_cloud_length layout_packs_def)
  then have lens: "length pad3 = 0 \<or> length data = cl_fixed_len L"
    using n L(1) by (auto simp: valid_tail_pad_def layout_wf_def kPointBytes_def)
  have tail: "(if length data = cl_pos_at L + kPointBytes * unat pn + 2
      then cl_pos_at L + kPointBytes * unat pn else cl_fixed_len L - 2) =
      cl_pos_at L + kPointBytes * length pts + length pad3"
    using len lens cnt by auto
  have guard: "\<not> (length data \<noteq> cl_pos_at L + kPointBytes * unat pn + 2 \<and>
      length data \<noteq> cl_fixed_len L)"
    using len lens cnt by auto
  have short: "\<not> length data < cl_posnum_at L + 2"
    using L(1) len by (simp add: layout_wf_def)
  have "ParsePoints data config (cl_pos_at L) 0 (unat pn) [] =
      Some (Inr (map (decoded_point config) pts))"
    using ParsePoints_encoded [OF v, of "cl_pos_at L" 0 data pts] f(5) cnt by simp
  then show ?thesis
    unfolding ParsePointCloudWithLayout_def Let_def pn_def [symmetric]
    using short f(1-4,6) pn0 n(2) t guard tail cnt by simp
qed

text \<open>
  The two layouts never accept the same length, so a datagram in the aligned layout always
  fails under the packed one, which leaves the result untouched but for the reason.
\<close>

lemma packed_rejects_aligned_length:
  assumes "length data = 30 + kPointBytes * n \<or> length data = 1430"
  shows "results (\<lambda>(ok, r). \<not> ok \<and> (\<exists>s. r = result\<lparr>pk_reason := s\<rparr>))
    (ParsePointCloudWithLayout data kPackedCloud config result)"
proof -
  have "length data mod kPointBytes = 2"
    using assms mod_mult_self2 [of 30 28 n] by (auto simp: kPointBytes_def)
  moreover have "(cl_pos_at kPackedCloud + kPointBytes * k + 2) mod kPointBytes = 22" for k
    using mod_mult_self2 [of 22 28 k] by (simp add: kPointBytes_def kPackedCloud_def add.commute)
  moreover have "cl_fixed_len kPackedCloud mod kPointBytes = 22"
    by (simp add: kPointBytes_def kPackedCloud_def kMaxPosNum_def)
  ultimately have "length data \<noteq> cl_pos_at kPackedCloud + kPointBytes * k + 2"
    "length data \<noteq> cl_fixed_len kPackedCloud" for k
    by force+
  then show ?thesis
    unfolding ParsePointCloudWithLayout_def Let_def
    by (simp add: results_if) blast
qed

lemma head_encoded: "ReadU16LE (encode_cloud pad1 pad2 pad3 ts tot index pts) 0 = Some kHeadMarker"
  by (rule u16.rd_field) (simp add: encode_cloud_def)


section \<open>Properties\<close>

text \<open>
  C21. Both datagram parsers are memory-safe on every input: whatever the bytes, their number
  and the configuration are, no read lies outside the datagram (the parsers return a result,
  never the out-of-bounds value).
\<close>

theorem parsers_stay_in_bounds:
  "in_bounds (ParsePointCloudPacket dat config) \<and> in_bounds (ParseOdometryPacket dat config)"
  by (simp add: ParsePointCloudPacket_in_bounds ParseOdometryPacket_in_bounds)

text \<open>
  An accepted point-cloud packet is sane: it carries between 1 and 50 points, exactly as
  many as its point count says, a positive 32-bit frame total, and every coordinate is a
  finite number of magnitude at most 2 to the 61 (so scaling and the narrowing to float never
  overflow under validated scales).
\<close>

theorem accepted_packet_sane:
  assumes "ParsePointCloudPacket dat config = Some r" "pk_ok r"
  shows "ValidateScales config \<and> 1 \<le> length (pk_points r) \<and> length (pk_points r) \<le> 50 \<and>
    length (pk_points r) = unat (pk_pos_num r) \<and> 0 < unat (pk_total r) \<and>
    unat (pk_total r) < 2 ^ 32 \<and> (\<forall>p \<in> set (pk_points r). bounded_point p)"
proof -
  have R: "results (\<lambda>r. pk_ok r \<longrightarrow> ValidateScales config \<and>
      (\<exists>data L result. ParsePointCloudWithLayout data L config result = Some (True, r)))
    (ParsePointCloudPacket dat config)"
    by (auto simp: ParsePointCloudPacket_def Let_def results_if empty_packet_result_def
        split: option.splits; (rule exI)+, assumption)
  obtain data L result where "ValidateScales config"
      "ParsePointCloudWithLayout data L config result = Some (True, r)"
    using resultsD [OF R assms(1)] assms(2) by auto
  from with_layout_ok [OF this] this(1) show ?thesis
    by (auto simp: kMaxPosNum_def)
qed

definition example_config :: LidarParseConfig where
  "example_config = \<lparr>point_position_scale = Fin (1 / 1024), odom_position_scale = Fin (1 / 1024),
     odom_quaternion_scale = Fin 1, odom_quaternion_order = ''xyzw''\<rparr>"

definition example_point :: raw_point where
  "example_point = \<lparr>rp_x = 1024, rp_y = 0, rp_z = - 512, rp_c0 = 1, rp_c1 = 2, rp_c2 = 3, rp_c3 = 4\<rparr>"

lemma example_config_valid: "ValidateScales example_config"
  by (simp add: example_config_def ValidateScales_def IsFinitePositive_def fl_le_def)

theorem accepted_packet_sane_witness:
  "\<exists>r. ParsePointCloudPacket (Some (encode_cloud [] [] [] 99 1 0 [example_point])) example_config =
      Some r \<and> pk_ok r \<and> length (pk_points r) \<le> 50 \<and> (\<forall>p \<in> set (pk_points r). bounded_point p)"
proof -
  have "ParsePointCloudWithLayout (encode_cloud [] [] [] 99 1 0 [example_point]) kPackedCloud
      example_config empty_packet_result = Some (True, empty_packet_result\<lparr>pk_timestamp_ns := 99,
     pk_total := ucast (1 :: u32), pk_index := 0, pk_pos_num := of_nat (length [example_point]),
     pk_points := map (decoded_point example_config) [example_point], pk_ok := True\<rparr>)"
    by (rule with_layout_encoded [OF example_config_valid _ _ _ _ layouts_wf(1)])
      (use layouts_pack(1) in \<open>simp_all add: valid_tail_pad_def kMaxPosNum_def\<close>)
  then obtain r where r: "ParsePointCloudPacket (Some (encode_cloud [] [] [] 99 1 0 [example_point]))
      example_config = Some r" "pk_ok r"
    using example_config_valid
    by (simp add: ParsePointCloudPacket_def head_encoded encode_cloud_length)
  then show ?thesis
    using accepted_packet_sane [OF r] by blast
qed

text \<open>
  C33. A point-cloud datagram parses back to what the sender wrote: for either vendor layout
  (packed, or type-aligned with 6 and 2 bytes of arbitrary alignment padding), either tail
  (dynamic, or the fixed 50-point array with arbitrary padding points), every timestamp,
  positive total, packet index and 1 to 50 points, the parse succeeds and returns these
  fields and the scaled points in order.
\<close>

theorem cloud_packet_roundtrip:
  assumes "ValidateScales config" "tot \<noteq> 0" "1 \<le> length pts" "length pts \<le> 50"
    and "(pad1 = [] \<and> pad2 = []) \<or> (length pad1 = 6 \<and> length pad2 = 2)"
    and "pad3 = [] \<or> length pad3 = 28 * (50 - length pts)"
  shows "\<exists>reason. ParsePointCloudPacket (Some (encode_cloud pad1 pad2 pad3 ts tot index pts)) config =
    Some \<lparr>pk_ok = True, pk_reason = reason, pk_timestamp_ns = ts, pk_total = ucast tot,
      pk_index = index, pk_pos_num = of_nat (length pts),
      pk_points = map (decoded_point config) pts\<rparr>"
proof -
  let ?d = "encode_cloud pad1 pad2 pad3 ts tot index pts"
  have n: "pts \<noteq> []" "length pts \<le> kMaxPosNum" "valid_tail_pad pad3 pts"
    using assms by (auto simp: kMaxPosNum_def valid_tail_pad_def kPointBytes_def)
  have len2: "\<not> length ?d < 2"
    by (simp add: encode_cloud_length)
  note enc = with_layout_encoded [OF assms(1,2) n]
  from assms(5) show ?thesis
  proof
    assume "pad1 = [] \<and> pad2 = []"
    then have "layout_packs kPackedCloud (length pad1) (length pad2)"
      using layouts_pack(1) by simp
    from enc [OF layouts_wf(1) this refl] show ?thesis
      using assms(1) len2
      by (simp add: ParsePointCloudPacket_def head_encoded empty_packet_result_def)
  next
    assume p: "length pad1 = 6 \<and> length pad2 = 2"
    then have L: "layout_packs kAlignedCloud (length pad1) (length pad2)"
      using layouts_pack(2) by simp
    have "length ?d = 30 + kPointBytes * length pts \<or> length ?d = 1430"
      using assms(4,6) p by (auto simp: encode_cloud_length kPointBytes_def)
    then obtain s where "ParsePointCloudWithLayout ?d kPackedCloud config empty_packet_result =
        Some (False, empty_packet_result\<lparr>pk_reason := s\<rparr>)"
      using packed_rejects_aligned_length
        ParsePointCloudWithLayout_in_bounds [OF layouts_wf(1), of ?d config empty_packet_result]
      by (fastforce simp: results_def in_bounds_def)
    with enc [OF layouts_wf(2) L refl] show ?thesis
      using assms(1) len2
      by (simp add: ParsePointCloudPacket_def head_encoded empty_packet_result_def)
  qed
qed

theorem cloud_packet_roundtrip_witness:
  "\<exists>reason. ParsePointCloudPacket
      (Some (encode_cloud [1, 2, 3, 4, 5, 6] [7, 8] [] 99 1 0 [example_point])) example_config =
    Some \<lparr>pk_ok = True, pk_reason = reason, pk_timestamp_ns = 99, pk_total = ucast (1 :: u32),
      pk_index = 0, pk_pos_num = of_nat (length [example_point]),
      pk_points = map (decoded_point example_config) [example_point]\<rparr>"
  using cloud_packet_roundtrip [OF example_config_valid, of 1 "[example_point]" "[1, 2, 3, 4, 5, 6]" "[7, 8]" "[]" 99 0]
  by simp

text \<open>
  Every rejected point-cloud packet carries a readable reason, and when both layouts were
  tried the reason reported is always that of the packed layout, never that of the aligned
  one: the packed attempt never fails without a reason.
\<close>

theorem rejection_reason_is_packed:
  assumes "ParsePointCloudPacket dat config = Some r" "\<not> pk_ok r"
  shows "pk_reason r \<noteq> [] \<and>
    (\<forall>data r1 r2. dat = Some data \<and> ValidateScales config \<and>
       ReadU16LE data 0 = Some kHeadMarker \<and>
       ParsePointCloudWithLayout data kPackedCloud config empty_packet_result = Some (False, r1) \<and>
       ParsePointCloudWithLayout data kAlignedCloud config r1 = Some (False, r2) \<longrightarrow>
       pk_reason r = pk_reason r1)"
proof -
  have fail: "pk_reason r' \<noteq> []"
    if "ParsePointCloudWithLayout data L config result = Some (False, r')" for data L result r'
    using resultsD [OF with_layout_failed that] by simp
  have ok: "pk_ok r'"
    if "ParsePointCloudWithLayout data L config result = Some (True, r')" for data L result r'
    using resultsD [OF with_layout_parsed that] by auto
  have R: "results (\<lambda>r. \<not> pk_ok r \<longrightarrow> pk_reason r \<noteq> []) (ParsePointCloudPacket dat config)"
    by (auto simp: ParsePointCloudPacket_def Let_def results_if split: option.splits
        dest: fail ok)
  have "pk_reason r \<noteq> []"
    using resultsD [OF R assms(1)] assms(2) by simp
  moreover have "pk_reason r = pk_reason r1"
    if "dat = Some data" "ValidateScales config" "ReadU16LE data 0 = Some kHeadMarker"
      and r1: "ParsePointCloudWithLayout data kPackedCloud config empty_packet_result = Some (False, r1)"
      and "ParsePointCloudWithLayout data kAlignedCloud config r1 = Some (False, r2)"
    for data r1 r2
  proof -
    have "\<not> length data < 2"
      using that(3) u16.rd_bounds [of data 0] by (simp add: in_bounds_def)
    then show ?thesis
      using that assms(1) fail [OF r1] by (auto simp: ParsePointCloudPacket_def)
  qed
  ultimately show ?thesis
    by blast
qed

theorem rejection_reason_is_packed_witness:
  "\<exists>r. ParsePointCloudPacket (Some [0x55, 0xAA]) example_config = Some r \<and> \<not> pk_ok r \<and>
     pk_reason r \<noteq> []"
proof -
  have "ReadU16LE [0x55, 0xAA] 0 = Some kHeadMarker"
    by (simp add: ReadU16LE_def byte_at_def kHeadMarker_def)
  then obtain r where r: "ParsePointCloudPacket (Some [0x55, 0xAA]) example_config = Some r" "\<not> pk_ok r"
    using example_config_valid
    by (simp add: ParsePointCloudPacket_def ParsePointCloudWithLayout_def kPackedCloud_def
        kAlignedCloud_def)
  then show ?thesis
    using rejection_reason_is_packed [OF r] by blast
qed
end
