(* ===== verification/Frame_Assembler.thy ===== *)
theory Frame_Assembler
  imports Lidar_Parse
begin

text \<open>
  The point-cloud frame assembler of \<^verbatim>\<open>lidar_stream.cpp\<close>
  (\<^verbatim>\<open>PointCloudFrameAssembler\<close>): a fixed vector of frame slots, each collecting the packets
  of one sender timestamp in a \<^verbatim>\<open>std::map\<close> from the starting point offset to the points. A
  \<^verbatim>\<open>FrameSlot*\<close> is the index of the slot in the vector, a null pointer is \<open>None\<close>, and the
  \<^verbatim>\<open>std::map\<close> is the list of its entries in key order. \<^verbatim>\<open>steady_clock::now()\<close> is an
  argument. Sizes and counters are natural numbers: the sums the code forms are an offset
  below 2 to the 32 plus a vector length, which a 64-bit integer holds.
\<close>

section \<open>Data\<close>

record PointCloudFrame =
  fr_timestamp_ns :: u64
  fr_total_points :: u64
  fr_points :: "LidarPoint list"

record AssemblerConfig =
  max_parallel_frames :: nat
  frame_timeout :: int
  max_points_per_frame :: nat
  max_packets_per_frame :: nat

type_synonym packet_map = "(u32 \<times> LidarPoint list) list"

record FrameSlot =
  active :: bool
  sl_timestamp_ns :: u64
  sl_total :: u64
  packets :: packet_map
  unique_indices :: nat
  sum_points :: nat
  activated_at :: time

record Stats =
  packets_accepted :: nat
  packets_duplicated :: nat
  packets_rejected :: nat
  frames_published :: nat
  frames_dropped_timeout :: nat
  frames_dropped_conflict :: nat
  frames_dropped_capacity :: nat

record asm =
  slots :: "FrameSlot list"
  cfg :: AssemblerConfig
  stats :: Stats

datatype FinalizeReason = Published | Timeout | Conflict

definition empty_slot :: FrameSlot where
  "empty_slot = \<lparr>active = False, sl_timestamp_ns = 0, sl_total = 0, packets = [],
     unique_indices = 0, sum_points = 0, activated_at = 0\<rparr>"

definition zero_stats :: Stats where
  "zero_stats = \<lparr>packets_accepted = 0, packets_duplicated = 0, packets_rejected = 0,
     frames_published = 0, frames_dropped_timeout = 0, frames_dropped_conflict = 0,
     frames_dropped_capacity = 0\<rparr>"

text \<open>\<^verbatim>\<open>LidarPoint::operator==\<close> and the equality of \<^verbatim>\<open>std::vector\<close>s of points.\<close>

definition point_eq :: "LidarPoint \<Rightarrow> LidarPoint \<Rightarrow> bool" where
  "point_eq a b \<longleftrightarrow> fl_eq (pt_x a) (pt_x b) \<and> fl_eq (pt_y a) (pt_y b) \<and> fl_eq (pt_z a) (pt_z b) \<and>
     pt_rgba a = pt_rgba b \<and> pt_rgba_channels a = pt_rgba_channels b"

definition points_eq :: "LidarPoint list \<Rightarrow> LidarPoint list \<Rightarrow> bool" where
  "points_eq xs ys \<longleftrightarrow> list_all2 point_eq xs ys"

text \<open>\<^verbatim>\<open>std::map::emplace\<close>: an entry goes before the first entry whose key is not smaller.\<close>

fun emplace :: "u32 \<Rightarrow> LidarPoint list \<Rightarrow> packet_map \<Rightarrow> packet_map" where
  "emplace k v [] = [(k, v)]"
| "emplace k v (e # m) = (if fst e < k then e # emplace k v m
     else if fst e = k then e # m else (k, v) # e # m)"

section \<open>Operations\<close>

definition PointCloudFrameAssembler :: "AssemblerConfig \<Rightarrow> asm" where
  "PointCloudFrameAssembler config =
     (let config = (if max_parallel_frames config = 0 then config\<lparr>max_parallel_frames := 1\<rparr> else config)
      in \<lparr>slots = replicate (max_parallel_frames config) empty_slot, cfg = config,
          stats = zero_stats\<rparr>)"

definition bump_reason :: "FinalizeReason \<Rightarrow> Stats \<Rightarrow> Stats" where
  "bump_reason reason st = (case reason of
     Timeout \<Rightarrow> st\<lparr>frames_dropped_timeout := frames_dropped_timeout st + 1\<rparr>
   | Conflict \<Rightarrow> st\<lparr>frames_dropped_conflict := frames_dropped_conflict st + 1\<rparr>
   | Published \<Rightarrow> st)"

definition cleared :: "FrameSlot \<Rightarrow> FrameSlot" where
  "cleared slot = slot\<lparr>active := False, packets := [], unique_indices := 0, sum_points := 0\<rparr>"

definition finalize_slot :: "asm \<Rightarrow> nat \<Rightarrow> FinalizeReason \<Rightarrow> asm" where
  "finalize_slot a i reason =
     (if \<not> active (slots a ! i) then a
      else a\<lparr>slots := (slots a)[i := cleared (slots a ! i)],
             stats := bump_reason reason (stats a)\<rparr>)"

text \<open>The largest \<^verbatim>\<open>steady_clock::time_point\<close>.\<close>

definition time_point_max :: time where
  "time_point_max = 2 ^ 63 - 1"

fun find_timestamp :: "FrameSlot list \<Rightarrow> nat \<Rightarrow> u64 \<Rightarrow> nat option" where
  "find_timestamp [] i ts = None"
| "find_timestamp (s # ss) i ts =
     (if active s \<and> sl_timestamp_ns s = ts then Some i else find_timestamp ss (i + 1) ts)"

text \<open>
  The search for a free slot: the first inactive slot, and on the way there the first slot
  with the smallest activation time. The result is \<open>(free_slot, oldest_slot)\<close>, both the
  number of slots where there is none.
\<close>

fun find_free :: "FrameSlot list \<Rightarrow> nat \<Rightarrow> nat \<Rightarrow> nat \<Rightarrow> time \<Rightarrow> nat \<times> nat" where
  "find_free [] i n oldest_slot oldest_time = (n, oldest_slot)"
| "find_free (s # ss) i n oldest_slot oldest_time =
     (if \<not> active s then (i, oldest_slot)
      else if activated_at s < oldest_time then find_free ss (i + 1) n i (activated_at s)
      else find_free ss (i + 1) n oldest_slot oldest_time)"

definition activate :: "u64 \<Rightarrow> time \<Rightarrow> FrameSlot \<Rightarrow> FrameSlot" where
  "activate ts now slot = slot\<lparr>active := True, sl_timestamp_ns := ts, sl_total := 0, packets := [],
     unique_indices := 0, sum_points := 0, activated_at := now\<rparr>"

definition slot_for_timestamp :: "time \<Rightarrow> asm \<Rightarrow> u64 \<Rightarrow> bool \<Rightarrow> asm \<times> nat option" where
  "slot_for_timestamp now a ts create =
     (case find_timestamp (slots a) 0 ts of
        Some i \<Rightarrow> (a, Some i)
      | None \<Rightarrow>
          if \<not> create then (a, None)
          else
            let n = length (slots a);
                (free_slot, oldest_slot) = find_free (slots a) 0 n n time_point_max;
                chosen = (if free_slot = n then oldest_slot else free_slot);
                a = (if free_slot = n
                     then (let a = finalize_slot a chosen Published in
                           a\<lparr>stats := stats a\<lparr>frames_dropped_capacity :=
                               frames_dropped_capacity (stats a) + 1\<rparr>\<rparr>)
                     else a)
            in (a\<lparr>slots := (slots a)[chosen := activate ts now (slots a ! chosen)]\<rparr>, Some chosen))"

definition count_rejected :: "asm \<Rightarrow> asm" where
  "count_rejected a = a\<lparr>stats := stats a\<lparr>packets_rejected := packets_rejected (stats a) + 1\<rparr>\<rparr>"

text \<open>The completeness scan over the map in key order: \<open>(contiguous, expected)\<close>.\<close>

fun scan :: "nat \<Rightarrow> packet_map \<Rightarrow> bool \<times> nat" where
  "scan expected [] = (True, expected)"
| "scan expected (kv # m) = (if unat (fst kv) \<noteq> expected then (False, expected)
     else scan (expected + length (snd kv)) m)"

definition is_complete :: "FrameSlot \<Rightarrow> bool" where
  "is_complete slot =
     (if sum_points slot = unat (sl_total slot) \<and> 0 < unique_indices slot
      then (let (contiguous, expected) = scan 0 (packets slot)
            in contiguous \<and> expected = unat (sl_total slot))
      else False)"

definition emitted_frame :: "FrameSlot \<Rightarrow> PointCloudFrame" where
  "emitted_frame slot = \<lparr>fr_timestamp_ns = sl_timestamp_ns slot, fr_total_points = sl_total slot,
     fr_points = concat (map snd (packets slot))\<rparr>"

definition publish_if_complete :: "asm \<Rightarrow> nat \<Rightarrow> asm \<times> PointCloudFrame option" where
  "publish_if_complete a i =
     (let slot = slots a ! i; frame = emitted_frame slot in
      if \<not> is_complete slot then (a, None)
      else if length (fr_points frame) \<noteq> unat (sl_total slot) then (finalize_slot a i Conflict, None)
      else (finalize_slot
              (a\<lparr>stats := stats a\<lparr>frames_published := frames_published (stats a) + 1\<rparr>\<rparr>)
              i Published, Some frame))"

text \<open>
  The rest of \<^verbatim>\<open>add_packet\<close> once a slot is found: the overlap checks against the neighbours
  of the new offset, and the storing of the packet.
\<close>

definition overlaps_neighbour :: "packet_map \<Rightarrow> PointCloudPacketResult \<Rightarrow> bool" where
  "overlaps_neighbour m packet =
     (let before = takeWhile (\<lambda>e. fst e < pk_index packet) m;
          nxt = dropWhile (\<lambda>e. fst e < pk_index packet) m
      in (nxt \<noteq> [] \<and> unat (pk_index packet) + length (pk_points packet) > unat (fst (hd nxt))) \<or>
         (before \<noteq> [] \<and> unat (fst (last before)) + length (snd (last before)) > unat (pk_index packet)))"

definition store_packet :: "FrameSlot \<Rightarrow> PointCloudPacketResult \<Rightarrow> FrameSlot" where
  "store_packet slot packet = slot\<lparr>packets := emplace (pk_index packet) (pk_points packet) (packets slot),
     unique_indices := unique_indices slot + 1,
     sum_points := sum_points slot + length (pk_points packet)\<rparr>"

definition add_to_slot :: "asm \<Rightarrow> nat \<Rightarrow> PointCloudPacketResult \<Rightarrow> asm \<times> PointCloudFrame option" where
  "add_to_slot a i packet =
     (let slot = slots a ! i; points_here = length (pk_points packet) in
      if unique_indices slot > 0 \<and> sl_total slot \<noteq> pk_total packet
      then (finalize_slot a i Conflict, None)
      else
        let slot = (if unique_indices slot = 0 then slot\<lparr>sl_total := pk_total packet\<rparr> else slot);
            a = a\<lparr>slots := (slots a)[i := slot]\<rparr>
        in case map_of (packets slot) (pk_index packet) of
             Some points \<Rightarrow>
               if points_eq points (pk_points packet)
               then (a\<lparr>stats := stats a\<lparr>packets_duplicated := packets_duplicated (stats a) + 1\<rparr>\<rparr>, None)
               else (finalize_slot a i Conflict, None)
           | None \<Rightarrow>
               if length (packets slot) \<ge> max_packets_per_frame (cfg a)
               then (count_rejected a, None)
               else if overlaps_neighbour (packets slot) packet
               then (finalize_slot a i Conflict, None)
               else if sum_points slot + points_here > unat (sl_total slot) \<or>
                       sum_points slot + points_here > max_points_per_frame (cfg a)
               then (finalize_slot a i Conflict, None)
               else publish_if_complete
                      (a\<lparr>slots := (slots a)[i := store_packet slot packet],
                         stats := stats a\<lparr>packets_accepted := packets_accepted (stats a) + 1\<rparr>\<rparr>) i)"

definition range_out_of_frame :: "PointCloudPacketResult \<Rightarrow> bool" where
  "range_out_of_frame packet \<longleftrightarrow> unat (pk_index packet) \<ge> unat (pk_total packet) \<or>
     unat (pk_index packet) + length (pk_points packet) > unat (pk_total packet)"

definition add_packet :: "time \<Rightarrow> asm \<Rightarrow> PointCloudPacketResult \<Rightarrow> asm \<times> PointCloudFrame option" where
  "add_packet now a packet =
     (if \<not> pk_ok packet then (count_rejected a, None)
      else if pk_total packet = 0 \<or> unat (pk_total packet) > max_points_per_frame (cfg a)
      then (count_rejected a, None)
      else if range_out_of_frame packet
      then (case slot_for_timestamp now a (pk_timestamp_ns packet) False of
              (a, Some i) \<Rightarrow> (finalize_slot a i Conflict, None)
            | (a, None) \<Rightarrow> (count_rejected a, None))
      else (case slot_for_timestamp now a (pk_timestamp_ns packet) True of
              (a, None) \<Rightarrow> (count_rejected a, None)
            | (a, Some i) \<Rightarrow> add_to_slot a i packet))"

fun expire_from :: "time \<Rightarrow> nat \<Rightarrow> asm \<Rightarrow> asm" where
  "expire_from now 0 a = a"
| "expire_from now (Suc k) a =
     (let i = length (slots a) - Suc k in
      if \<not> active (slots a ! i) then expire_from now k a
      else if now - activated_at (slots a ! i) \<ge> ms (frame_timeout (cfg a))
      then expire_from now k (finalize_slot a i Timeout)
      else expire_from now k a)"

definition expire :: "time \<Rightarrow> asm \<Rightarrow> asm" where
  "expire now a = expire_from now (length (slots a)) a"

definition in_flight_count :: "asm \<Rightarrow> nat" where
  "in_flight_count a = length (filter active (slots a))"

section \<open>The packet map\<close>

definition ends_before :: "u32 \<times> LidarPoint list \<Rightarrow> u32 \<times> LidarPoint list \<Rightarrow> bool" where
  "ends_before e f \<longleftrightarrow> fst e < fst f \<and> unat (fst e) + length (snd e) \<le> unat (fst f)"

definition in_frame :: "nat \<Rightarrow> u32 \<times> LidarPoint list \<Rightarrow> bool" where
  "in_frame tot e \<longleftrightarrow> unat (fst e) < tot \<and> unat (fst e) + length (snd e) \<le> tot"

definition packets_ok :: "nat \<Rightarrow> packet_map \<Rightarrow> bool" where
  "packets_ok tot m \<longleftrightarrow> sorted_wrt ends_before m \<and> (\<forall>e \<in> set m. in_frame tot e)"

definition points_in :: "packet_map \<Rightarrow> nat" where
  "points_in m = sum_list (map (length \<circ> snd) m)"

lemma points_in_simps [simp]:
  "points_in [] = 0" "points_in (e # m) = length (snd e) + points_in m"
  "points_in (m @ n) = points_in m + points_in n"
  by (simp_all add: points_in_def)

lemma length_concat_packets: "length (concat (map snd m)) = points_in m"
  by (induction m) auto

lemma ends_before_trans: "ends_before a b \<Longrightarrow> ends_before b c \<Longrightarrow> ends_before a c"
  by (auto simp: ends_before_def)

lemma emplace_split:
  "map_of m k = None \<Longrightarrow> emplace k v m =
     takeWhile (\<lambda>e. fst e < k) m @ (k, v) # dropWhile (\<lambda>e. fst e < k) m"
  by (induction m) (auto split: if_splits)

lemma emplace_new:
  assumes "map_of m k = None"
  shows "length (emplace k v m) = Suc (length m)"
    and "set (emplace k v m) = insert (k, v) (set m)"
    and "points_in (emplace k v m) = points_in m + length v"
proof -
  let ?P = "\<lambda>e. fst e < k"
  have m: "m = takeWhile ?P m @ dropWhile ?P m"
    by simp
  show "length (emplace k v m) = Suc (length m)"
    unfolding emplace_split [OF assms] by (subst (3) m) (simp del: takeWhile_dropWhile_id)
  show "set (emplace k v m) = insert (k, v) (set m)"
    unfolding emplace_split [OF assms]
    by (subst (3) m) (simp del: takeWhile_dropWhile_id add: insert_commute)
  show "points_in (emplace k v m) = points_in m + length v"
    unfolding emplace_split [OF assms] by (subst (3) m) (simp del: takeWhile_dropWhile_id)
qed

lemma sorted_wrt_last:
  assumes "sorted_wrt ends_before m" "e \<in> set m" 
  shows "e = last m \<or> ends_before e (last m)"
  using assms by (induction m) (auto split: if_splits)

lemma sorted_wrt_pair: "sorted_wrt R xs \<Longrightarrow> x \<in> set xs \<Longrightarrow> y \<in> set xs \<Longrightarrow> x \<noteq> y \<Longrightarrow> R x y \<or> R y x"
  by (induction xs) auto

lemma emplace_ok:
  assumes m: "packets_ok tot m" "map_of m (pk_index p) = None"
    and p: "\<not> overlaps_neighbour m p" "in_frame tot (pk_index p, pk_points p)"
  shows "packets_ok tot (emplace (pk_index p) (pk_points p) m)"
proof -
  let ?k = "pk_index p" and ?new = "(pk_index p, pk_points p)"
  define B where "B = takeWhile (\<lambda>e. fst e < ?k) m"
  define N where "N = dropWhile (\<lambda>e. fst e < ?k) m"
  have mBN: "m = B @ N"
    by (simp add: B_def N_def)
  have srt: "sorted_wrt ends_before B" "sorted_wrt ends_before N"
      "\<forall>x \<in> set B. \<forall>y \<in> set N. ends_before x y"
    using m(1) unfolding packets_ok_def mBN sorted_wrt_append by auto
  have B: "ends_before x ?new" if "x \<in> set B" for x
  proof -
    have "last B \<in> set B"
      using that by (intro last_in_set) auto
    then have "fst (last B) < ?k"
      unfolding B_def by (blast dest: set_takeWhileD)
    moreover have "unat (fst (last B)) + length (snd (last B)) \<le> unat ?k"
      using p(1) that by (auto simp: overlaps_neighbour_def Let_def B_def)
    ultimately have "ends_before (last B) ?new"
      by (simp add: ends_before_def)
    then show ?thesis
      using sorted_wrt_last [OF srt(1) that] ends_before_trans by blast
  qed
  have N: "ends_before ?new x" if "x \<in> set N" for x
  proof -
    have ne: "N \<noteq> []"
      using that by auto
    have "hd N \<in> set m"
      using hd_in_set [OF ne] by (simp add: mBN)
    with m(2) have "fst (hd N) \<noteq> ?k"
      by (metis imageI map_of_eq_None_iff)
    moreover have "\<not> fst (hd N) < ?k"
      using hd_dropWhile [of "\<lambda>e. fst e < ?k" m] ne by (simp add: N_def)
    moreover have "unat ?k + length (pk_points p) \<le> unat (fst (hd N))"
      using p(1) ne by (auto simp: overlaps_neighbour_def Let_def N_def)
    ultimately have "ends_before ?new (hd N)"
      by (simp add: ends_before_def)
    moreover have "x = hd N \<or> ends_before (hd N) x"
      using that srt(2) by (cases N) auto
    ultimately show ?thesis
      using ends_before_trans by blast
  qed
  have "sorted_wrt ends_before (B @ ?new # N)"
    using srt B N by (simp add: sorted_wrt_append)
  then show ?thesis
    using m(1) p(2) emplace_split [OF m(2), of "pk_points p", folded B_def N_def]
    by (auto simp: packets_ok_def mBN)
qed

text \<open>
  Disjoint ranges inside the frame whose sizes add up to the frame's total leave no gap: the
  contiguity scan of the code always succeeds once the point count matches.
\<close>

lemma packed_from:
  assumes "sorted_wrt ends_before m" "\<forall>e \<in> set m. in_frame tot e"
    and "\<forall>e \<in> set m. lo \<le> unat (fst e)" "lo \<le> tot"
  shows "lo + points_in m \<le> tot \<and> (lo + points_in m = tot \<longrightarrow> scan lo m = (True, tot))"
  using assms
proof (induction m arbitrary: lo)
  case (Cons e m)
  let ?hi = "unat (fst e) + length (snd e)"
  have lo: "lo \<le> unat (fst e)" "?hi \<le> tot"
    using Cons.prems by (auto simp: in_frame_def)
  have "?hi + points_in m \<le> tot \<and> (?hi + points_in m = tot \<longrightarrow> scan ?hi m = (True, tot))"
    using Cons.prems lo by (intro Cons.IH) (auto simp: ends_before_def)
  with lo show ?case
    by auto
qed simp

lemma packets_ok_bound: "packets_ok tot m \<Longrightarrow> points_in m \<le> tot"
  using packed_from [of m tot 0] by (simp add: packets_ok_def)

lemma packets_ok_scan: "packets_ok tot m \<Longrightarrow> points_in m = tot \<Longrightarrow> scan 0 m = (True, tot)"
  using packed_from [of m tot 0] by (simp add: packets_ok_def)

text \<open>After a successful scan every packet lies at its offset in the concatenation.\<close>

lemma scan_places:
  assumes "scan lo m = (True, hi)" "e \<in> set m"
  shows "lo \<le> unat (fst e) \<and> unat (fst e) + length (snd e) \<le> hi \<and>
    take (length (snd e)) (drop (unat (fst e) - lo) (concat (map snd m))) = snd e"
  using assms
proof (induction m arbitrary: lo)
  case (Cons f m)
  then have f: "unat (fst f) = lo" and s: "scan (lo + length (snd f)) m = (True, hi)"
    by (auto split: if_splits)
  have hi: "lo \<le> hi" if "scan lo m = (True, hi)" for lo hi and m :: packet_map
    using that by (induction m arbitrary: lo) (auto split: if_splits, fastforce)
  show ?case
  proof (cases "e = f")
    case True
    then show ?thesis
      using f hi [OF s] by simp
  next
    case False
    with Cons.prems have "e \<in> set m"
      by simp
    from Cons.IH [OF s this] f show ?thesis
      by (auto simp: le_diff_conv2)
  qed
qed simp

lemma scan_covers:
  assumes "scan lo m = (True, hi)" "lo \<le> i" "i < hi"
  shows "\<exists>e \<in> set m. unat (fst e) \<le> i \<and> i < unat (fst e) + length (snd e)"
  using assms
proof (induction m arbitrary: lo)
  case (Cons e m)
  show ?case
  proof (cases "i < lo + length (snd e)")
    case True
    then show ?thesis
      using Cons.prems by (auto split: if_splits)
  next
    case False
    then show ?thesis
      using Cons.prems Cons.IH [of "lo + length (snd e)"] by (auto split: if_splits)
  qed
qed simp

section \<open>The invariant\<close>

definition slot_inv :: "AssemblerConfig \<Rightarrow> FrameSlot \<Rightarrow> bool" where
  "slot_inv c s \<longleftrightarrow> unique_indices s = length (packets s) \<and> sum_points s = points_in (packets s) \<and>
     length (packets s) \<le> max_packets_per_frame c \<and>
     (if active s
      then packets_ok (unat (sl_total s)) (packets s) \<and> activated_at s < time_point_max \<and>
        unat (sl_total s) \<le> max_points_per_frame c
      else packets s = [])"

definition asm_inv :: "asm \<Rightarrow> bool" where
  "asm_inv a \<longleftrightarrow> 0 < length (slots a) \<and> length (slots a) = max_parallel_frames (cfg a) \<and>
     (\<forall>s \<in> set (slots a). slot_inv (cfg a) s) \<and>
     (\<forall>i < length (slots a). \<forall>j < length (slots a).
        active (slots a ! i) \<and> active (slots a ! j) \<and>
        sl_timestamp_ns (slots a ! i) = sl_timestamp_ns (slots a ! j) \<longrightarrow> i = j)"

lemma asm_inv_start: "asm_inv (PointCloudFrameAssembler c)"
  by (auto simp: PointCloudFrameAssembler_def Let_def asm_inv_def slot_inv_def empty_slot_def
      in_set_replicate)

lemma asm_inv_slot: "asm_inv a \<Longrightarrow> i < length (slots a) \<Longrightarrow> slot_inv (cfg a) (slots a ! i)"
  by (simp add: asm_inv_def)

lemma asm_inv_stats [simp]: "asm_inv (a\<lparr>stats := st\<rparr>) = asm_inv a"
  by (simp add: asm_inv_def)

lemma asm_inv_update:
  assumes "asm_inv a" "i < length (slots a)" "slot_inv (cfg a) s"
    and "\<And>j. j < length (slots a) \<Longrightarrow> j \<noteq> i \<Longrightarrow> active s \<Longrightarrow> active (slots a ! j) \<Longrightarrow>
      sl_timestamp_ns (slots a ! j) \<noteq> sl_timestamp_ns s"
  shows "asm_inv (a\<lparr>slots := (slots a)[i := s]\<rparr>)"
  using assms unfolding asm_inv_def
  by (auto simp: nth_list_update dest: nth_mem_cases split: if_splits) blast+

lemma asm_inv_same_ts:
  assumes "asm_inv a" "i < length (slots a)" "slot_inv (cfg a) s"
    and "active s \<Longrightarrow> active (slots a ! i) \<and> sl_timestamp_ns s = sl_timestamp_ns (slots a ! i)"
  shows "asm_inv (a\<lparr>slots := (slots a)[i := s]\<rparr>)"
  by (rule asm_inv_update [OF assms(1-3)]) (use assms in \<open>auto simp: asm_inv_def\<close>)

lemma cleared_inv: "slot_inv c s \<Longrightarrow> slot_inv c (cleared s)"
  by (simp add: slot_inv_def cleared_def)

lemma finalize_inv: "asm_inv a \<Longrightarrow> i < length (slots a) \<Longrightarrow> asm_inv (finalize_slot a i r)"
  using asm_inv_same_ts [of a i "cleared (slots a ! i)"]
  by (simp add: finalize_slot_def cleared_inv asm_inv_slot) (simp add: cleared_def)

lemma find_timestamp_Some:
  "find_timestamp ss i ts = Some j \<Longrightarrow>
     i \<le> j \<and> j < i + length ss \<and> active (ss ! (j - i)) \<and> sl_timestamp_ns (ss ! (j - i)) = ts"
proof (induction ss arbitrary: i)
  case (Cons s ss)
  then show ?case
    by (cases "active s \<and> sl_timestamp_ns s = ts") (auto simp: nth_Cons' dest!: Cons.IH)
qed simp

lemma find_timestamp_None:
  "find_timestamp ss i ts = None \<longleftrightarrow> (\<forall>s \<in> set ss. active s \<longrightarrow> sl_timestamp_ns s \<noteq> ts)"
  by (induction ss arbitrary: i) auto

lemma find_free_spec:
  assumes "find_free ss i n ol t = (f, ol')" "n = i + length ss"
  shows "i \<le> f \<and> f \<le> n \<and> (f < n \<longrightarrow> \<not> active (ss ! (f - i)))"
    and "f = n \<Longrightarrow> ss \<noteq> [] \<Longrightarrow> \<forall>s \<in> set ss. activated_at s < t \<Longrightarrow> i \<le> ol' \<and> ol' < n"
    and "f = n \<longleftrightarrow> (\<forall>s \<in> set ss. active s)"
proof -
  show "i \<le> f \<and> f \<le> n \<and> (f < n \<longrightarrow> \<not> active (ss ! (f - i)))"
    using assms
    by (induction ss i n ol t rule: find_free.induct)
      (auto split: if_splits simp: nth_Cons' Suc_le_eq)
  have tail: "ol' = ol \<or> i \<le> ol' \<and> ol' < n"
    if "find_free ss i n ol t = (f, ol')" "n = i + length ss" for ss i n ol t
    using that by (induction ss i n ol t rule: find_free.induct) (auto split: if_splits)
  { assume *: "f = n" "ss \<noteq> []" "\<forall>s \<in> set ss. activated_at s < t"
    then obtain s rest where ss: "ss = s # rest"
      by (cases ss) auto
    then have "find_free rest (i + 1) n i (activated_at s) = (f, ol')"
      using * assms by (auto split: if_splits)
    from tail [OF this] show "i \<le> ol' \<and> ol' < n"
      using assms ss by auto }
  show "f = n \<longleftrightarrow> (\<forall>s \<in> set ss. active s)"
    using assms by (induction ss i n ol t rule: find_free.induct) (auto split: if_splits)
qed

lemma finalize_simps [simp]:
  "cfg (finalize_slot a i r) = cfg a"
  "length (slots (finalize_slot a i r)) = length (slots a)"
  by (simp_all add: finalize_slot_def)

text \<open>
  The number of packets the counters account for: every packet fed to the assembler bumps
  exactly one of these four.
\<close>

definition packets_counted :: "Stats \<Rightarrow> nat" where
  "packets_counted st = packets_accepted st + packets_duplicated st + packets_rejected st +
     frames_dropped_conflict st"

lemma bump_reason_counted [simp]:
  "packets_counted (bump_reason r st) = (if r = Conflict then 1 else 0) + packets_counted st"
  by (simp add: bump_reason_def packets_counted_def split: FinalizeReason.splits)

lemma finalize_stats: "stats (finalize_slot a i r) =
    (if active (slots a ! i) then bump_reason r (stats a) else stats a)"
  by (simp add: finalize_slot_def)

text \<open>
  A slot for a timestamp: the frame in flight with that timestamp, or an empty frame in a
  slot that was free or held the frame that was evicted.
\<close>

lemma slot_found:
  assumes "asm_inv a" "find_timestamp (slots a) 0 ts = Some i"
  shows "slot_for_timestamp now a ts create = (a, Some i) \<and> i < length (slots a) \<and>
    active (slots a ! i) \<and> sl_timestamp_ns (slots a ! i) = ts"
  using find_timestamp_Some [OF assms(2)] assms by (simp add: slot_for_timestamp_def)

lemma activate_inv:
  assumes "asm_inv a" "i < length (slots a)" "now < time_point_max"
    and "\<And>j. j < length (slots a) \<Longrightarrow> j \<noteq> i \<Longrightarrow> active (slots a ! j) \<Longrightarrow>
      sl_timestamp_ns (slots a ! j) \<noteq> ts"
  shows "asm_inv (a\<lparr>slots := (slots a)[i := activate ts now (slots a ! i)]\<rparr>)"
  by (rule asm_inv_update) (use assms in \<open>auto simp: activate_def slot_inv_def packets_ok_def\<close>)

lemma slot_created:
  assumes inv: "asm_inv a" and new: "find_timestamp (slots a) 0 ts = None"
    and now: "now < time_point_max"
  obtains b i where "slot_for_timestamp now a ts True = (b, Some i)"
    and "asm_inv b" "i < length (slots b)" "length (slots b) = length (slots a)" "cfg b = cfg a"
    and "active (slots b ! i) \<and> sl_timestamp_ns (slots b ! i) = ts \<and> packets (slots b ! i) = []"
    and "\<forall>j. j \<noteq> i \<longrightarrow> slots b ! j = slots a ! j"
    and "packets_counted (stats b) = packets_counted (stats a)"
    and "(\<exists>s \<in> set (slots a). \<not> active s) \<longrightarrow> stats b = stats a"
proof -
  obtain f ol where ff: "find_free (slots a) 0 (length (slots a)) (length (slots a)) time_point_max = (f, ol)"
    by fastforce
  note spec = find_free_spec [OF ff, simplified]
  define i where "i = (if f = length (slots a) then ol else f)"
  define a' where "a' = (if f = length (slots a)
    then (let a = finalize_slot a i Published in
      a\<lparr>stats := stats a\<lparr>frames_dropped_capacity := frames_dropped_capacity (stats a) + 1\<rparr>\<rparr>)
    else a)"
  define b where "b = a'\<lparr>slots := (slots a')[i := activate ts now (slots a' ! i)]\<rparr>"
  have "slots a \<noteq> []"
    using inv by (auto simp: asm_inv_def)
  moreover have "\<forall>s \<in> set (slots a). activated_at s < time_point_max" if "f = length (slots a)"
    using spec(3) that inv by (auto simp: asm_inv_def slot_inv_def)
  ultimately have i: "i < length (slots a)"
    using spec(1,2) by (auto simp: i_def)
  have len: "length (slots a') = length (slots a)" "cfg a' = cfg a"
    by (simp_all add: a'_def Let_def)
  have others: "slots a' ! j = slots a ! j" if "j \<noteq> i" for j
    using that by (simp add: a'_def Let_def finalize_slot_def)
  have inv': "asm_inv a'"
    using inv i by (auto simp: a'_def Let_def finalize_inv)
  show thesis
  proof
    show "slot_for_timestamp now a ts True = (b, Some i)"
      using new ff by (simp add: slot_for_timestamp_def Let_def b_def i_def a'_def)
    show "asm_inv b"
      unfolding b_def using inv' i len others new now
      by (intro activate_inv) (auto simp: find_timestamp_None)
    show "i < length (slots b)" "length (slots b) = length (slots a)" "cfg b = cfg a"
      using i len by (simp_all add: b_def)
    show "active (slots b ! i) \<and> sl_timestamp_ns (slots b ! i) = ts \<and> packets (slots b ! i) = []"
      using i len by (simp add: b_def activate_def)
    show "\<forall>j. j \<noteq> i \<longrightarrow> slots b ! j = slots a ! j"
      using others by (simp add: b_def)
    show "packets_counted (stats b) = packets_counted (stats a)"
      by (simp add: b_def a'_def Let_def finalize_stats) (simp add: packets_counted_def bump_reason_def)
    show "(\<exists>s \<in> set (slots a). \<not> active s) \<longrightarrow> stats b = stats a"
      using spec(3) by (auto simp: b_def a'_def)
  qed
qed

text \<open>
  What \<^verbatim>\<open>add_packet\<close> may do to the slot it found: it changes this slot only, bumps exactly
  one packet counter, keeps the slot's invariant, and a frame that is still in flight
  holds only packets it held before or the new one. A frame it returns is made of such
  packets too, and they tile the declared total.
\<close>

definition as_entry :: "PointCloudPacketResult \<Rightarrow> u32 \<times> LidarPoint list" where
  "as_entry p = (pk_index p, pk_points p)"

definition tiles :: "packet_map \<Rightarrow> PointCloudFrame \<Rightarrow> bool" where
  "tiles m f \<longleftrightarrow> packets_ok (unat (fr_total_points f)) m \<and>
     points_in m = unat (fr_total_points f) \<and> fr_points f = concat (map snd m)"

definition slot_effect :: "asm \<Rightarrow> nat \<Rightarrow> PointCloudPacketResult \<Rightarrow> asm \<times> PointCloudFrame option \<Rightarrow> bool" where
  "slot_effect a i p r \<longleftrightarrow> (\<exists>s st.
     fst r = a\<lparr>slots := (slots a)[i := s], stats := st\<rparr> \<and>
     packets_counted st = Suc (packets_counted (stats a)) \<and> slot_inv (cfg a) s \<and>
     (active s \<longrightarrow> active (slots a ! i) \<and> sl_timestamp_ns s = sl_timestamp_ns (slots a ! i) \<and>
        sl_total s = pk_total p \<and>
        (packets (slots a ! i) = [] \<or> sl_total (slots a ! i) = pk_total p)) \<and>
     set (packets s) \<subseteq> insert (as_entry p) (set (packets (slots a ! i))) \<and>
     (\<forall>f. snd r = Some f \<longrightarrow> fr_timestamp_ns f = sl_timestamp_ns (slots a ! i) \<and>
        fr_total_points f = pk_total p \<and>
        (packets (slots a ! i) = [] \<or> sl_total (slots a ! i) = pk_total p) \<and>
        (\<exists>m. tiles m f \<and> set m \<subseteq> insert (as_entry p) (set (packets (slots a ! i))))))"

lemma slot_effectI:
  assumes "b = a\<lparr>slots := (slots a)[i := s], stats := st\<rparr>"
    and "packets_counted st = Suc (packets_counted (stats a))" "slot_inv (cfg a) s"
    and "active s \<Longrightarrow> active (slots a ! i) \<and> sl_timestamp_ns s = sl_timestamp_ns (slots a ! i) \<and>
        sl_total s = pk_total p \<and>
        (packets (slots a ! i) = [] \<or> sl_total (slots a ! i) = pk_total p)"
    and "set (packets s) \<subseteq> insert (as_entry p) (set (packets (slots a ! i)))"
    and "\<And>f. out = Some f \<Longrightarrow> fr_timestamp_ns f = sl_timestamp_ns (slots a ! i) \<and>
        fr_total_points f = pk_total p \<and>
        (packets (slots a ! i) = [] \<or> sl_total (slots a ! i) = pk_total p) \<and>
        (\<exists>m. tiles m f \<and> set m \<subseteq> insert (as_entry p) (set (packets (slots a ! i))))"
  shows "slot_effect a i p (b, out)"
  unfolding slot_effect_def fst_conv snd_conv
  by (rule exI [of _ s], rule exI [of _ st]) (use assms in blast)

text \<open>The slot after the packet's total is recorded.\<close>

definition with_total :: "PointCloudPacketResult \<Rightarrow> FrameSlot \<Rightarrow> FrameSlot" where
  "with_total p s = (if unique_indices s = 0 then s\<lparr>sl_total := pk_total p\<rparr> else s)"

lemma with_total_simps [simp]:
  "active (with_total p s) = active s" "packets (with_total p s) = packets s"
  "sl_timestamp_ns (with_total p s) = sl_timestamp_ns s"
  "unique_indices (with_total p s) = unique_indices s"
  "sum_points (with_total p s) = sum_points s" "activated_at (with_total p s) = activated_at s"
  by (simp_all add: with_total_def)

lemma with_total_total:
  "unique_indices s > 0 \<longrightarrow> sl_total s = pk_total p \<Longrightarrow> sl_total (with_total p s) = pk_total p"
  by (simp add: with_total_def)

lemma with_total_inv:
  assumes "slot_inv c s" "unat (pk_total p) \<le> max_points_per_frame c"
  shows "slot_inv c (with_total p s)"
  using assms by (auto simp: slot_inv_def with_total_def packets_ok_def)

lemma effect_conflict:
  assumes "asm_inv a" "i < length (slots a)" "active (slots a ! i)" "slot_inv (cfg a) s" "active s"
  shows "slot_effect a i p (finalize_slot (a\<lparr>slots := (slots a)[i := s]\<rparr>) i Conflict, None)"
  by (rule slot_effectI [where s = "cleared s" and st = "bump_reason Conflict (stats a)"])
    (use assms cleared_inv [OF assms(4)] in \<open>simp_all add: finalize_slot_def\<close>, simp_all add: cleared_def)

lemma store_inv:
  assumes "slot_inv c s" "active s" "map_of (packets s) (pk_index p) = None"
    and "length (packets s) < max_packets_per_frame c"
    and "\<not> overlaps_neighbour (packets s) p" "in_frame (unat (sl_total s)) (as_entry p)"
  shows "slot_inv c (store_packet s p)"
  using assms emplace_ok [of "unat (sl_total s)" "packets s" p]
  by (simp add: slot_inv_def store_packet_def emplace_new as_entry_def)

text \<open>
  Completeness is decided by the point count alone: under the invariant the contiguity scan
  and the defensive size check behind it cannot fail.
\<close>

lemma is_complete_iff:
  assumes "slot_inv c s" "active s" "packets s \<noteq> []"
  shows "is_complete s \<longleftrightarrow> sum_points s = unat (sl_total s)"
  using assms packets_ok_scan [of "unat (sl_total s)" "packets s"]
  by (auto simp: is_complete_def slot_inv_def)

lemma emitted_length:
  "slot_inv c s \<Longrightarrow> length (fr_points (emitted_frame s)) = sum_points s"
  by (simp add: emitted_frame_def length_concat_packets slot_inv_def)

lemma effect_store:
  assumes inv: "asm_inv a" "i < length (slots a)" "active (slots a ! i)"
    and s: "slot_inv (cfg a) s" "active s" "sl_total s = pk_total p"
      "sl_timestamp_ns s = sl_timestamp_ns (slots a ! i)"
      "set (packets s) = insert (as_entry p) (set (packets (slots a ! i)))"
    and t: "packets (slots a ! i) = [] \<or> sl_total (slots a ! i) = pk_total p"
    and st: "packets_counted st = Suc (packets_counted (stats a))"
  shows "slot_effect a i p (publish_if_complete (a\<lparr>slots := (slots a)[i := s], stats := st\<rparr>) i)"
proof (cases "is_complete s")
  case False
  then have eq: "publish_if_complete (a\<lparr>slots := (slots a)[i := s], stats := st\<rparr>) i =
      (a\<lparr>slots := (slots a)[i := s], stats := st\<rparr>, None)"
    using inv by (simp add: publish_if_complete_def)
  show ?thesis
    unfolding eq by (rule slot_effectI [where s = s and st = st]) (use assms in auto)
next
  case True
  have ne: "packets s \<noteq> []"
    using s(5) by auto
  with True have sum: "sum_points s = unat (sl_total s)"
    using is_complete_iff [OF s(1,2)] by simp
  define st' where "st' = bump_reason Published (st\<lparr>frames_published := frames_published st + 1\<rparr>)"
  have eq: "publish_if_complete (a\<lparr>slots := (slots a)[i := s], stats := st\<rparr>) i =
      (a\<lparr>slots := (slots a)[i := cleared s], stats := st'\<rparr>, Some (emitted_frame s))"
    using inv True s(2) sum emitted_length [OF s(1)]
    by (simp add: publish_if_complete_def Let_def finalize_slot_def st'_def)
  have st': "packets_counted st' = packets_counted st"
    unfolding st'_def bump_reason_counted by (simp add: packets_counted_def)
  have tiles: "tiles (packets s) (emitted_frame s)"
    using s(1,2) sum by (auto simp: tiles_def emitted_frame_def slot_inv_def)
  show ?thesis
    unfolding eq
  proof (rule slot_effectI [OF refl _ cleared_inv [OF s(1)]])
    show "packets_counted st' = Suc (packets_counted (stats a))"
      using st st' by simp
    fix f assume "Some (emitted_frame s) = Some f"
    then have f: "f = emitted_frame s"
      by simp
    show "fr_timestamp_ns f = sl_timestamp_ns (slots a ! i) \<and> fr_total_points f = pk_total p \<and>
        (packets (slots a ! i) = [] \<or> sl_total (slots a ! i) = pk_total p) \<and>
        (\<exists>m. tiles m f \<and> set m \<subseteq> insert (as_entry p) (set (packets (slots a ! i))))"
      unfolding f using s(3-5) t tiles by (auto simp: emitted_frame_def intro!: exI [of _ "packets s"])
  qed (simp_all add: cleared_def)
qed

lemma add_to_slot_matching:
  assumes "unique_indices (slots a ! i) = 0 \<or> sl_total (slots a ! i) = pk_total p"
  shows "add_to_slot a i p =
    (let w = with_total p (slots a ! i); b = a\<lparr>slots := (slots a)[i := w]\<rparr> in
     case map_of (packets w) (pk_index p) of
       Some pts \<Rightarrow> if points_eq pts (pk_points p)
         then (b\<lparr>stats := (stats a)\<lparr>packets_duplicated := packets_duplicated (stats a) + 1\<rparr>\<rparr>, None)
         else (finalize_slot b i Conflict, None)
     | None \<Rightarrow> if length (packets w) \<ge> max_packets_per_frame (cfg a) then (count_rejected b, None)
         else if overlaps_neighbour (packets w) p \<or>
            sum_points w + length (pk_points p) > unat (sl_total w) \<or>
            sum_points w + length (pk_points p) > max_points_per_frame (cfg a)
         then (finalize_slot b i Conflict, None)
         else publish_if_complete (a\<lparr>slots := (slots a)[i := store_packet w p],
            stats := (stats a)\<lparr>packets_accepted := packets_accepted (stats a) + 1\<rparr>\<rparr>) i)"
proof -
  have neg: "\<not> (0 < unique_indices (slots a ! i) \<and> sl_total (slots a ! i) \<noteq> pk_total p)"
    using assms by auto
  show ?thesis
    unfolding add_to_slot_def Let_def if_not_P [OF neg] with_total_def [symmetric]
    by (simp split: option.split)
qed

lemma add_to_slot_effect:
  assumes inv: "asm_inv a" "i < length (slots a)" "active (slots a ! i)"
    and p: "unat (pk_total p) \<le> max_points_per_frame (cfg a)" "\<not> range_out_of_frame p"
  shows "slot_effect a i p (add_to_slot a i p)"
proof -
  let ?s = "slots a ! i" and ?w = "with_total p (slots a ! i)"
  have s: "slot_inv (cfg a) ?s"
    using inv by (simp add: asm_inv_slot)
  note w = with_total_inv [OF s p(1)]
  show ?thesis
  proof (cases "unique_indices ?s > 0 \<and> sl_total ?s \<noteq> pk_total p")
    case True
    then show ?thesis
      using effect_conflict [OF inv s inv(3)] inv by (simp add: add_to_slot_def)
  next
    case False
    then have tot: "sl_total ?w = pk_total p"
      by (auto simp: with_total_def)
    let ?b = "a\<lparr>slots := (slots a)[i := ?w]\<rparr>"
    have m: "unique_indices ?s = 0 \<or> sl_total ?s = pk_total p"
      using False by simp
    have t: "packets ?s = [] \<or> sl_total ?s = pk_total p"
      using m s by (auto simp: slot_inv_def)
    have keep: "slot_effect a i p (?b\<lparr>stats := st\<rparr>, None)"
      if "packets_counted st = Suc (packets_counted (stats a))" for st
      by (rule slot_effectI [where s = ?w and st = st]) (use that w tot inv t in auto)
    have stored: "slot_effect a i p (publish_if_complete (a\<lparr>slots := (slots a)[i := store_packet ?w p],
          stats := (stats a)\<lparr>packets_accepted := packets_accepted (stats a) + 1\<rparr>\<rparr>) i)"
      if "map_of (packets ?w) (pk_index p) = None" "length (packets ?w) < max_packets_per_frame (cfg a)"
        "\<not> overlaps_neighbour (packets ?w) p"
    proof (rule effect_store [OF inv])
      show "slot_inv (cfg a) (store_packet ?w p)"
        using p(2) by (intro store_inv [OF w _ that])
          (auto simp: inv tot in_frame_def as_entry_def range_out_of_frame_def)
      show "packets ?s = [] \<or> sl_total ?s = pk_total p"
        by (rule t)
    qed (use inv that tot in \<open>simp_all add: store_packet_def emplace_new as_entry_def packets_counted_def\<close>)
    show ?thesis
      unfolding add_to_slot_matching [OF m] Let_def count_rejected_def
      using effect_conflict [OF inv w] inv(3) stored
      by (auto intro!: keep simp: packets_counted_def split: option.split)
  qed
qed

lemma slot_effect_inv:
  assumes "asm_inv a" "i < length (slots a)" "slot_effect a i p r"
  shows "asm_inv (fst r)"
proof -
  obtain s st where r: "fst r = a\<lparr>slots := (slots a)[i := s], stats := st\<rparr>"
      and s: "slot_inv (cfg a) s" "active s \<Longrightarrow> active (slots a ! i) \<and>
        sl_timestamp_ns s = sl_timestamp_ns (slots a ! i)"
    using assms(3) by (auto simp: slot_effect_def)
  show ?thesis
    using asm_inv_same_ts [OF assms(1,2) s] by (simp add: r)
qed

section \<open>Histories\<close>

datatype asm_event = Feed time PointCloudPacketResult | Tick time

fun event_time :: "asm_event \<Rightarrow> time" where
  "event_time (Feed now p) = now"
| "event_time (Tick now) = now"

fun asm_apply :: "asm \<Rightarrow> asm_event \<Rightarrow> asm \<times> PointCloudFrame option" where
  "asm_apply a (Feed now p) = add_packet now a p"
| "asm_apply a (Tick now) = (expire now a, None)"

definition fed :: "asm_event list \<Rightarrow> PointCloudPacketResult set" where
  "fed H = {p. \<exists>now. Feed now p \<in> set H}"

fun feeds :: "asm_event list \<Rightarrow> nat" where
  "feeds [] = 0"
| "feeds (Feed now p # H) = Suc (feeds H)"
| "feeds (Tick now # H) = feeds H"

lemma feeds_append [simp]: "feeds (H @ K) = feeds H + feeds K"
  by (induction H rule: feeds.induct) auto

lemma fed_append [simp]: "fed (H @ K) = fed H \<union> fed K"
  by (auto simp: fed_def)

lemma fed_single [simp]: "fed [Feed now p] = {p}" "fed [Tick now] = {}" "fed [] = {}"
  by (auto simp: fed_def)

text \<open>A state of the assembler paired with the calls made so far.\<close>

definition asm_start :: "asm \<times> asm_event list \<Rightarrow> bool" where
  "asm_start s \<longleftrightarrow> (\<exists>c. s = (PointCloudFrameAssembler c, []))"

definition asm_step :: "asm \<times> asm_event list \<Rightarrow> asm_event \<Rightarrow> asm \<times> asm_event list \<Rightarrow> bool" where
  "asm_step s e t \<longleftrightarrow> event_time e < time_point_max \<and>
     t = (fst (asm_apply (fst s) e), snd s @ [e])"

text \<open>The entry was sent in a packet of this frame.\<close>

definition sent_in :: "PointCloudPacketResult set \<Rightarrow> u64 \<Rightarrow> u64 \<Rightarrow> u32 \<times> LidarPoint list \<Rightarrow> bool" where
  "sent_in F ts tot e \<longleftrightarrow> (\<exists>p \<in> F. pk_ok p \<and> pk_timestamp_ns p = ts \<and> pk_total p = tot \<and> as_entry p = e)"

definition slot_sent :: "PointCloudPacketResult set \<Rightarrow> FrameSlot \<Rightarrow> bool" where
  "slot_sent F s \<longleftrightarrow> (active s \<longrightarrow> (\<forall>e \<in> set (packets s). sent_in F (sl_timestamp_ns s) (sl_total s) e))"

definition history_inv :: "asm \<times> asm_event list \<Rightarrow> bool" where
  "history_inv s \<longleftrightarrow> asm_inv (fst s) \<and> packets_counted (stats (fst s)) = feeds (snd s) \<and>
     (\<forall>x \<in> set (slots (fst s)). slot_sent (fed (snd s)) x)"

lemma sent_in_mono: "sent_in F ts tot e \<Longrightarrow> F \<subseteq> G \<Longrightarrow> sent_in G ts tot e"
  by (auto simp: sent_in_def)

lemma slot_sent_mono: "slot_sent F s \<Longrightarrow> F \<subseteq> G \<Longrightarrow> slot_sent G s"
  by (auto simp: slot_sent_def intro: sent_in_mono)

lemma slot_sent_inactive [simp]: "slot_sent F (cleared s)"
  by (simp add: slot_sent_def cleared_def)

lemma finalize_sent:
  assumes "\<forall>x \<in> set (slots a). slot_sent F x" "x \<in> set (slots (finalize_slot a i r))"
  shows "slot_sent F x"
  using assms nth_mem_cases [of x "slots a" i "cleared (slots a ! i)"]
  by (auto simp: finalize_slot_def split: if_splits)

text \<open>One call of \<^verbatim>\<open>add_packet\<close>: rejected outright, a dropped frame, or an effect on one slot.\<close>

lemma add_packet_cases:
  assumes inv: "asm_inv a" and now: "now < time_point_max"
  obtains (rejected) "add_packet now a p = (count_rejected a, None)"
  | (dropped) i where "add_packet now a p = (finalize_slot a i Conflict, None)"
      "i < length (slots a)" "active (slots a ! i)"
  | (slot) b i where "add_packet now a p = add_to_slot b i p" "slot_effect b i p (add_to_slot b i p)"
      "asm_inv b" "i < length (slots b)" "active (slots b ! i)"
      "sl_timestamp_ns (slots b ! i) = pk_timestamp_ns p" "pk_ok p" "0 < unat (pk_total p)"
      "unat (pk_total p) \<le> max_points_per_frame (cfg a)" "cfg b = cfg a"
      "packets_counted (stats b) = packets_counted (stats a)"
      "\<And>F. \<forall>x \<in> set (slots a). slot_sent F x \<Longrightarrow> \<forall>x \<in> set (slots b). slot_sent F x"
proof (cases "\<not> pk_ok p \<or> pk_total p = 0 \<or> unat (pk_total p) > max_points_per_frame (cfg a)")
  case True
  then show thesis
    using rejected by (auto simp: add_packet_def)
next
  case False
  then have p: "pk_ok p" "pk_total p \<noteq> 0" "unat (pk_total p) \<le> max_points_per_frame (cfg a)"
    by auto
  then have pos: "0 < unat (pk_total p)"
    by (simp add: unat_gt_0)
  show thesis
  proof (cases "find_timestamp (slots a) 0 (pk_timestamp_ns p)")
    case (Some i)
    note f = slot_found [OF inv Some]
    show thesis
    proof (cases "range_out_of_frame p")
      case True
      with False f [of _ False] dropped [of i] show thesis
        by (simp add: add_packet_def)
    next
      case out: False
      with False f [of _ True] have "add_packet now a p = add_to_slot a i p"
        by (simp add: add_packet_def)
      with slot [of a i] add_to_slot_effect [OF inv _ _ p(3) out, of i] f p pos inv show thesis
        by auto
    qed
  next
    case None
    show thesis
    proof (cases "range_out_of_frame p")
      case True
      with False None rejected show thesis
        by (auto simp: add_packet_def slot_for_timestamp_def)
    next
      case out: False
      obtain b i where
        b: "slot_for_timestamp now a (pk_timestamp_ns p) True = (b, Some i)"
          "asm_inv b" "i < length (slots b)" "length (slots b) = length (slots a)" "cfg b = cfg a"
          "active (slots b ! i) \<and> sl_timestamp_ns (slots b ! i) = pk_timestamp_ns p \<and>
            packets (slots b ! i) = []"
          "\<forall>j. j \<noteq> i \<longrightarrow> slots b ! j = slots a ! j"
          "packets_counted (stats b) = packets_counted (stats a)"
          "(\<exists>s \<in> set (slots a). \<not> active s) \<longrightarrow> stats b = stats a"
        by (rule slot_created [OF inv None now])
      have act: "active (slots b ! i)" "sl_timestamp_ns (slots b ! i) = pk_timestamp_ns p"
          "packets (slots b ! i) = []"
        using b(6) by simp_all
      have sent: "\<forall>x \<in> set (slots b). slot_sent F x" if "\<forall>x \<in> set (slots a). slot_sent F x" for F
      proof
        fix x assume "x \<in> set (slots b)"
        then obtain j where "j < length (slots b)" "x = slots b ! j"
          by (auto simp: in_set_conv_nth)
        then show "slot_sent F x"
          using that b(4,7) act(3) by (cases "j = i") (auto simp: slot_sent_def)
      qed
      have "add_packet now a p = add_to_slot b i p"
        using False out b(1) by (simp add: add_packet_def)
      moreover have "slot_effect b i p (add_to_slot b i p)"
        using add_to_slot_effect [OF b(2,3) act(1) _ out] p(3) b(5) by simp
      ultimately show thesis
        using slot [of b i] b act p pos sent by blast
    qed
  qed
qed

lemma count_rejected_simps [simp]:
  "slots (count_rejected a) = slots a" "cfg (count_rejected a) = cfg a"
  "asm_inv (count_rejected a) = asm_inv a"
  "packets_counted (stats (count_rejected a)) = Suc (packets_counted (stats a))"
  by (simp_all add: count_rejected_def) (simp add: packets_counted_def)

lemma entries_sent:
  assumes "slot_sent F s" "active s" "sl_timestamp_ns s = pk_timestamp_ns p" "pk_ok p"
    and "packets s = [] \<or> sl_total s = pk_total p" "set m \<subseteq> insert (as_entry p) (set (packets s))"
    and "e \<in> set m"
  shows "sent_in (insert p F) (pk_timestamp_ns p) (pk_total p) e"
  using assms by (auto simp: slot_sent_def sent_in_def)

lemma add_packet_inv:
  assumes inv: "history_inv (a, H)" and now: "now < time_point_max"
  shows "history_inv (fst (add_packet now a p), H @ [Feed now p])"
proof -
  have a: "asm_inv a" "packets_counted (stats a) = feeds H" "\<forall>x \<in> set (slots a). slot_sent (fed H) x"
    using inv by (simp_all add: history_inv_def)
  from a(1) now show ?thesis
  proof (cases rule: add_packet_cases [of a now p])
    case rejected
    then show ?thesis
      using a by (auto simp: history_inv_def intro: slot_sent_mono)
  next
    case (dropped i)
    then show ?thesis
      using a by (auto simp: history_inv_def finalize_inv finalize_stats
          intro: slot_sent_mono dest: finalize_sent)
  next
    case (slot b i)
    from slot(2) obtain s st where
      r: "fst (add_to_slot b i p) = b\<lparr>slots := (slots b)[i := s], stats := st\<rparr>"
      and st: "packets_counted st = Suc (packets_counted (stats b))"
      and s: "active s \<Longrightarrow> sl_timestamp_ns s = sl_timestamp_ns (slots b ! i) \<and> sl_total s = pk_total p \<and>
          (packets (slots b ! i) = [] \<or> sl_total (slots b ! i) = pk_total p)"
        "set (packets s) \<subseteq> insert (as_entry p) (set (packets (slots b ! i)))"
      unfolding slot_effect_def by blast
    note b = slot(12) [OF a(3)]
    have "slot_sent (insert p (fed H)) s"
      unfolding slot_sent_def
      using entries_sent [of "fed H" "slots b ! i" p "packets s"] b s slot(4-7) by simp
    then have "slot_sent (insert p (fed H)) x" if "x \<in> set ((slots b)[i := s])" for x
      using that b nth_mem_cases [of x "slots b" i s] by (auto intro: slot_sent_mono)
    then show ?thesis
      using slot_effect_inv [OF slot(3,4,2)] r st slot(1,11) a(2)
      by (simp add: history_inv_def)
  qed
qed

section \<open>Expiry\<close>

definition expired :: "time \<Rightarrow> int \<Rightarrow> FrameSlot \<Rightarrow> bool" where
  "expired now timeout s \<longleftrightarrow> active s \<and> now - activated_at s \<ge> ms timeout"

lemma expire_from_eq:
  assumes "k \<le> length (slots a)"
  shows "expire_from now k a =
    (let D = filter (expired now (frame_timeout (cfg a))) (drop (length (slots a) - k) (slots a)) in
     a\<lparr>slots := take (length (slots a) - k) (slots a) @
          map (\<lambda>s. if expired now (frame_timeout (cfg a)) s then cleared s else s)
            (drop (length (slots a) - k) (slots a)),
       stats := (stats a)\<lparr>frames_dropped_timeout := frames_dropped_timeout (stats a) + length D\<rparr>\<rparr>)"
  using assms
proof (induction k arbitrary: a)
  case (Suc k)
  let ?i = "length (slots a) - Suc k"
  let ?E = "expired now (frame_timeout (cfg a))"
  have i: "?i < length (slots a)" "length (slots a) - k = Suc ?i"
    using Suc.prems by auto
  have d: "drop ?i (slots a) = slots a ! ?i # drop (Suc ?i) (slots a)"
    using i(1) by (simp add: Cons_nth_drop_Suc)
  have t: "take (Suc ?i) (slots a) = take ?i (slots a) @ [slots a ! ?i]"
    using i(1) by (simp add: take_Suc_conv_app_nth)
  have upd: "take (Suc ?i) ((slots a)[?i := x]) = take ?i (slots a) @ [x]"
      "drop (Suc ?i) ((slots a)[?i := x]) = drop (Suc ?i) (slots a)" for x
    using i(1) by (simp_all add: take_Suc_conv_app_nth)
  have k: "k \<le> length (slots a)"
    using Suc.prems by simp
  show ?case
  proof (cases "?E (slots a ! ?i)")
    case True
    let ?a = "finalize_slot a ?i Timeout"
    have a: "slots ?a = (slots a)[?i := cleared (slots a ! ?i)]" "cfg ?a = cfg a"
        "stats ?a = (stats a)\<lparr>frames_dropped_timeout := frames_dropped_timeout (stats a) + 1\<rparr>"
      using True by (simp_all add: finalize_slot_def bump_reason_def expired_def)
    have b: "?a = a\<lparr>slots := slots ?a, stats := stats ?a\<rparr>"
      using True by (simp add: finalize_slot_def expired_def)
    have "expire_from now (Suc k) a = expire_from now k ?a"
      using True by (simp add: expired_def Let_def)
    also have "\<dots> = (let D = filter ?E (drop (Suc ?i) (slots a)) in
        ?a\<lparr>slots := (take ?i (slots a) @ [cleared (slots a ! ?i)]) @
          map (\<lambda>s. if ?E s then cleared s else s) (drop (Suc ?i) (slots a)),
       stats := (stats ?a)\<lparr>frames_dropped_timeout := frames_dropped_timeout (stats ?a) + length D\<rparr>\<rparr>)"
      using Suc.IH [of ?a] k unfolding a by (simp add: i(2) upd)
    finally show ?thesis
      unfolding d by (subst (asm) b) (simp add: a True Let_def)
  next
    case False
    then have "expire_from now (Suc k) a = expire_from now k a"
      by (auto simp: expired_def Let_def)
    then show ?thesis
      using Suc.IH [OF k] False unfolding d i(2) t by (simp add: Let_def)
  qed
qed (simp add: Let_def)

lemma expire_eq:
  "expire now a =
     a\<lparr>slots := map (\<lambda>s. if expired now (frame_timeout (cfg a)) s then cleared s else s) (slots a),
       stats := (stats a)\<lparr>frames_dropped_timeout := frames_dropped_timeout (stats a) +
          length (filter (expired now (frame_timeout (cfg a))) (slots a))\<rparr>\<rparr>"
  using expire_from_eq [of "length (slots a)" a now] by (simp add: expire_def Let_def)

lemma expire_inv:
  assumes a: "asm_inv a"
  shows "asm_inv (expire now a)"
proof -
  define g where "g s = (if expired now (frame_timeout (cfg a)) s then cleared s else s)" for s
  have inv: "slot_inv (cfg a) (g s)" if "s \<in> set (slots a)" for s
    using a that by (simp add: asm_inv_def cleared_inv g_def)
  have act: "active (g s) \<Longrightarrow> active s" and ts: "sl_timestamp_ns (g s) = sl_timestamp_ns s" for s
    by (auto simp: cleared_def g_def split: if_splits)
  have "asm_inv (a\<lparr>slots := map g (slots a)\<rparr>)"
    using a inv act unfolding asm_inv_def length_greater_0_conv by (simp add: ts)
  then show ?thesis
    by (simp add: expire_eq g_def [abs_def])
qed

lemma expire_history:
  assumes "history_inv (a, H)"
  shows "history_inv (expire now a, H @ [Tick now])"
  using assms expire_inv [of a now]
  by (auto simp: history_inv_def expire_eq packets_counted_def)

lemma asm_inv_step: "history_inv s \<Longrightarrow> asm_step s e t \<Longrightarrow> history_inv t"
  by (cases s; cases e) (auto simp: asm_step_def add_packet_inv expire_history)

interpretation assembler: invariant_system asm_start asm_step history_inv
proof
  show "history_inv s" if "asm_start s" for s
    using that asm_inv_start
    by (auto simp: asm_start_def history_inv_def) (auto simp: PointCloudFrameAssembler_def Let_def
        zero_stats_def packets_counted_def empty_slot_def slot_sent_def in_set_replicate)
qed (rule asm_inv_step)

lemma slot_effect_frame:
  assumes "slot_effect a i p (b, Some f)"
  shows "fr_timestamp_ns f = sl_timestamp_ns (slots a ! i) \<and> fr_total_points f = pk_total p \<and>
    (packets (slots a ! i) = [] \<or> sl_total (slots a ! i) = pk_total p) \<and>
    (\<exists>m. tiles m f \<and> set m \<subseteq> insert (as_entry p) (set (packets (slots a ! i))))"
  using assms unfolding slot_effect_def by (simp only: snd_conv option.inject) blast

text \<open>A returned frame: the packets it is made of, and where each of its points comes from.\<close>

lemma frame_tiled:
  assumes "history_inv (a, H)" "now < time_point_max" "add_packet now a p = (b, Some f)"
  obtains m where "tiles m f" "fr_timestamp_ns f = pk_timestamp_ns p" "fr_total_points f = pk_total p"
    "\<forall>e \<in> set m. sent_in (insert p (fed H)) (pk_timestamp_ns p) (pk_total p) e"
    "0 < unat (fr_total_points f)" "unat (fr_total_points f) \<le> max_points_per_frame (cfg a)"
proof -
  have inv: "asm_inv a" "\<forall>x \<in> set (slots a). slot_sent (fed H) x"
    using assms(1) by (simp_all add: history_inv_def)
  from inv(1) assms(2) show ?thesis
  proof (cases rule: add_packet_cases [of a now p])
    case (slot c i)
    have eff: "slot_effect c i p (b, Some f)"
      using slot(1,2) assms(3) by simp
    obtain m where f: "fr_timestamp_ns f = pk_timestamp_ns p" "fr_total_points f = pk_total p"
        and t: "packets (slots c ! i) = [] \<or> sl_total (slots c ! i) = pk_total p"
        and m: "tiles m f" "set m \<subseteq> insert (as_entry p) (set (packets (slots c ! i)))"
      using slot_effect_frame [OF eff] slot(6) by auto
    have sent: "sent_in (insert p (fed H)) (pk_timestamp_ns p) (pk_total p) e" if "e \<in> set m" for e
      using entries_sent [OF _ slot(5-7) t m(2) that] slot(12) [OF inv(2)] slot(4) by simp
    show ?thesis
      by (rule that [OF m(1) f]) (use sent slot(8,9) f in auto)
  qed (use assms(3) in auto)
qed

lemma tiles_simps:
  assumes "tiles m f"
  shows "scan 0 m = (True, unat (fr_total_points f))" "fr_points f = concat (map snd m)"
    "length (fr_points f) = unat (fr_total_points f)"
  using assms packets_ok_scan [of "unat (fr_total_points f)" m]
  by (simp_all add: tiles_def length_concat_packets)

lemma frame_point_origin:
  assumes "history_inv (a, H)" "now < time_point_max" "add_packet now a p = (b, Some f)" "k < length (fr_points f)"
  shows "\<exists>q \<in> insert p (fed H). pk_ok q \<and>
    pk_timestamp_ns q = fr_timestamp_ns f \<and> pk_total q = fr_total_points f \<and>
    unat (pk_index q) \<le> k \<and> k < unat (pk_index q) + length (pk_points q) \<and>
    fr_points f ! k = pk_points q ! (k - unat (pk_index q))"
proof -
  obtain m where m: "tiles m f" "fr_timestamp_ns f = pk_timestamp_ns p" "fr_total_points f = pk_total p"
    "\<forall>e \<in> set m. sent_in (insert p (fed H)) (pk_timestamp_ns p) (pk_total p) e"
    by (rule frame_tiled [OF assms(1-3)])
  note t = tiles_simps [OF m(1)]
  obtain e where e: "e \<in> set m" "unat (fst e) \<le> k" "k < unat (fst e) + length (snd e)"
    using scan_covers [OF t(1), of k] assms(4) t(3) by (metis le0)
  then have "take (length (snd e)) (drop (unat (fst e)) (fr_points f)) ! (k - unat (fst e)) =
      snd e ! (k - unat (fst e))"
    using scan_places [OF t(1) e(1)] by (simp add: t(2))
  then have "fr_points f ! k = snd e ! (k - unat (fst e))"
    using e assms(4) by (simp add: less_diff_conv2)
  moreover have "sent_in (insert p (fed H)) (pk_timestamp_ns p) (pk_total p) e"
    using m(4) e(1) by blast
  ultimately show ?thesis
    using e(2,3) m(2,3) by (auto simp: sent_in_def as_entry_def)
qed

section \<open>Properties\<close>

text \<open>
  C17. A published frame is genuine: over every sequence of calls, a frame that
  \<^verbatim>\<open>add_packet\<close> returns has exactly the declared number of points (at least one, at most the
  configured cap), and each of its points is the point that a packet of the same timestamp and total,
  received in this run, carried at that offset. No gap is filled, nothing is reordered and
  no packet of another frame leaks in.
\<close>

theorem published_frame_genuine:
  assumes "reach asm_start asm_step (a, H)" "now < time_point_max"
    and "add_packet now a p = (b, Some f)"
  shows "length (fr_points f) = unat (fr_total_points f) \<and> 0 < unat (fr_total_points f) \<and>
    unat (fr_total_points f) \<le> max_points_per_frame (cfg a) \<and>
    (\<forall>k < length (fr_points f). \<exists>q \<in> insert p (fed H). pk_ok q \<and>
       pk_timestamp_ns q = fr_timestamp_ns f \<and> pk_total q = fr_total_points f \<and>
       unat (pk_index q) \<le> k \<and> k < unat (pk_index q) + length (pk_points q) \<and>
       fr_points f ! k = pk_points q ! (k - unat (pk_index q)))"
proof -
  have inv: "history_inv (a, H)"
    by (rule assembler.inv_reach [OF assms(1)])
  then obtain m where "tiles m f" "0 < unat (fr_total_points f)" "unat (fr_total_points f) \<le> max_points_per_frame (cfg a)"
    by (rule frame_tiled [OF _ assms(2,3)])
  then show ?thesis
    using frame_point_origin [OF inv assms(2,3)] tiles_simps(3) by blast
qed

text \<open>
  Every packet is accounted for: after any sequence of calls the accepted, duplicated and rejected
  packets and the frames dropped as a conflict add up to the number of packets fed.
\<close>

theorem every_packet_counted:
  assumes "reach asm_start asm_step (a, H)"
  shows "packets_accepted (stats a) + packets_duplicated (stats a) + packets_rejected (stats a) +
    frames_dropped_conflict (stats a) = feeds H"
  using assembler.inv_reach [OF assms] by (simp add: history_inv_def packets_counted_def)

lemma memory_bounded:
  assumes inv: "asm_inv a"
  shows "in_flight_count a \<le> max_parallel_frames (cfg a)"
    and "s \<in> set (slots a) \<Longrightarrow> length (packets s) \<le> max_packets_per_frame (cfg a)"
    and "sum_list (map (\<lambda>s. length (concat (map snd (packets s)))) (slots a)) \<le>
      max_parallel_frames (cfg a) * max_points_per_frame (cfg a)"
proof -
  have s: "length (concat (map snd (packets s))) \<le> max_points_per_frame (cfg a) \<and>
      length (packets s) \<le> max_packets_per_frame (cfg a)" if "s \<in> set (slots a)" for s
  proof -
    have "slot_inv (cfg a) s"
      using inv that by (simp add: asm_inv_def)
    then show ?thesis
      using packets_ok_bound [of "unat (sl_total s)" "packets s"]
      by (auto simp: slot_inv_def length_concat_packets split: if_splits)
  qed
  then show "s \<in> set (slots a) \<Longrightarrow> length (packets s) \<le> max_packets_per_frame (cfg a)"
    by blast
  have "sum_list (map (\<lambda>s. length (concat (map snd (packets s)))) (slots a)) \<le>
      sum_list (map (\<lambda>s. max_points_per_frame (cfg a)) (slots a))"
    by (rule sum_list_mono) (use s in blast)
  moreover have "length (slots a) = max_parallel_frames (cfg a)"
    using inv by (simp add: asm_inv_def)
  ultimately show "in_flight_count a \<le> max_parallel_frames (cfg a)"
      "sum_list (map (\<lambda>s. length (concat (map snd (packets s)))) (slots a)) \<le>
        max_parallel_frames (cfg a) * max_points_per_frame (cfg a)"
    using length_filter_le [of active "slots a"] by (simp_all add: in_flight_count_def sum_list_triv)
qed

lemma add_packet_cfg:
  assumes "asm_inv a" "now < time_point_max"
  shows "cfg (fst (add_packet now a p)) = cfg a"
  using assms
proof (cases rule: add_packet_cases [of a now p])
  case (slot b i)
  then show ?thesis
    by (auto simp: slot_effect_def)
qed (simp_all add: count_rejected_def finalize_slot_def)

text \<open>
  The assembler's memory is bounded by its configuration whatever packets arrive: it keeps at most
  \<^verbatim>\<open>max_parallel_frames\<close> frames of at most \<^verbatim>\<open>max_packets_per_frame\<close> packets each, and
  the stored points never exceed \<^verbatim>\<open>max_parallel_frames\<close> times \<^verbatim>\<open>max_points_per_frame\<close>.
\<close>

theorem assembler_memory_bounded:
  assumes "reach asm_start asm_step (a, H)"
  shows "in_flight_count a \<le> max_parallel_frames (cfg a) \<and>
    (\<forall>s \<in> set (slots a). length (packets s) \<le> max_packets_per_frame (cfg a)) \<and>
    sum_list (map (\<lambda>s. length (concat (map snd (packets s)))) (slots a)) \<le>
      max_parallel_frames (cfg a) * max_points_per_frame (cfg a)"
proof -
  have "asm_inv a"
    using assembler.inv_reach [OF assms] by (simp add: history_inv_def)
  then show ?thesis
    using memory_bounded by blast
qed

text \<open>
  \<^verbatim>\<open>expire\<close> drops exactly the frames whose age has reached the timeout, counts each once
  as a timeout drop, and leaves every younger frame and every other counter as they are.
\<close>

theorem expire_drops_exactly_the_old:
  "expire now a =
     a\<lparr>slots := map (\<lambda>s. if active s \<and> now - activated_at s \<ge> ms (frame_timeout (cfg a))
          then s\<lparr>active := False, packets := [], unique_indices := 0, sum_points := 0\<rparr> else s) (slots a),
       stats := (stats a)\<lparr>frames_dropped_timeout := frames_dropped_timeout (stats a) +
          length (filter (\<lambda>s. active s \<and> now - activated_at s \<ge> ms (frame_timeout (cfg a))) (slots a))\<rparr>\<rparr>"
  unfolding expire_eq expired_def cleared_def ..

section \<open>Any order of arrival completes the frame\<close>

fun feed_all :: "asm \<Rightarrow> (time \<times> PointCloudPacketResult) list \<Rightarrow> asm \<times> PointCloudFrame option list" where
  "feed_all a [] = (a, [])"
| "feed_all a ((now, p) # ps) = (let (b, out) = add_packet now a p; (c, outs) = feed_all b ps in (c, out # outs))"

definition apart :: "PointCloudPacketResult \<Rightarrow> PointCloudPacketResult \<Rightarrow> bool" where
  "apart p q \<longleftrightarrow> unat (pk_index p) + length (pk_points p) \<le> unat (pk_index q) \<or>
     unat (pk_index q) + length (pk_points q) \<le> unat (pk_index p)"

text \<open>The packet carries the slice of the point list \<open>P\<close> that starts at its offset.\<close>

definition slice_of :: "LidarPoint list \<Rightarrow> u64 \<Rightarrow> PointCloudPacketResult \<Rightarrow> bool" where
  "slice_of P ts p \<longleftrightarrow> pk_ok p \<and> pk_timestamp_ns p = ts \<and> unat (pk_total p) = length P \<and>
     pk_points p \<noteq> [] \<and> unat (pk_index p) + length (pk_points p) \<le> length P \<and>
     pk_points p = take (length (pk_points p)) (drop (unat (pk_index p)) P)"

definition sizes :: "PointCloudPacketResult list \<Rightarrow> nat" where
  "sizes ps = sum_list (map (length \<circ> pk_points) ps)"

lemma sizes_simps [simp]: "sizes [] = 0" "sizes (p # ps) = length (pk_points p) + sizes ps"
  by (simp_all add: sizes_def)

lemma apart_not_overlapping:
  assumes "\<forall>e \<in> set m. \<exists>q. e = as_entry q \<and> apart q p \<and> pk_points q \<noteq> []" "pk_points p \<noteq> []"
  shows "map_of m (pk_index p) = None" "\<not> overlaps_neighbour m p"
proof -
  have e: "(unat (fst e) + length (snd e) \<le> unat (pk_index p) \<or>
      unat (pk_index p) + length (pk_points p) \<le> unat (fst e)) \<and> snd e \<noteq> []" if "e \<in> set m" for e
    using assms(1) that by (auto simp: as_entry_def apart_def)
  have neq: "fst e \<noteq> pk_index p" if "e \<in> set m" for e
    using e [OF that] assms(2) by (auto simp: neq_Nil_conv)
  then show "map_of m (pk_index p) = None"
    by (metis imageE map_of_eq_None_iff)
  define B where "B = takeWhile (\<lambda>e. fst e < pk_index p) m"
  define N where "N = dropWhile (\<lambda>e. fst e < pk_index p) m"
  have "unat (pk_index p) + length (pk_points p) \<le> unat (fst (hd N))" if "N \<noteq> []"
  proof -
    have "hd N \<in> set m"
      using hd_in_set [OF that] unfolding N_def by (rule set_dropWhileD)
    moreover have "\<not> fst (hd N) < pk_index p"
      using that hd_dropWhile [of "\<lambda>e. fst e < pk_index p" m] by (simp add: N_def)
    ultimately show ?thesis
      using e [of "hd N"] by (auto simp: word_less_nat_alt neq_Nil_conv)
  qed
  moreover have "unat (fst (last B)) + length (snd (last B)) \<le> unat (pk_index p)" if "B \<noteq> []"
  proof -
    have "fst (last B) < pk_index p \<and> last B \<in> set m"
      using last_in_set [OF that] unfolding B_def by (blast dest: set_takeWhileD)
    then show ?thesis
      using e [of "last B"] assms(2) by (auto simp: word_less_nat_alt)
  qed
  ultimately show "\<not> overlaps_neighbour m p"
    by (auto simp: overlaps_neighbour_def Let_def B_def N_def not_less)
qed

text \<open>A slot that holds exactly the packets \<open>held\<close> of the frame.\<close>

definition holding :: "asm \<Rightarrow> nat \<Rightarrow> u64 \<Rightarrow> PointCloudPacketResult list \<Rightarrow> bool" where
  "holding a i ts held \<longleftrightarrow> asm_inv a \<and> i < length (slots a) \<and> active (slots a ! i) \<and>
     sl_timestamp_ns (slots a ! i) = ts \<and> set (packets (slots a ! i)) = as_entry ` set held \<and>
     length (packets (slots a ! i)) = length held \<and> points_in (packets (slots a ! i)) = sizes held \<and>
     (held \<noteq> [] \<longrightarrow> sl_total (slots a ! i) = pk_total (hd held))"

lemma slot_unique:
  assumes "asm_inv a" "i < length (slots a)" "active (slots a ! i)"
  shows "find_timestamp (slots a) k (sl_timestamp_ns (slots a ! i)) = Some (k + i)"
proof (cases "find_timestamp (slots a) k (sl_timestamp_ns (slots a ! i))")
  case None
  then show ?thesis
    using assms by (auto simp: find_timestamp_None)
next
  case (Some j)
  then have "j - k = i" "k \<le> j"
    using find_timestamp_Some [OF Some] assms by (auto simp: asm_inv_def)
  with Some show ?thesis
    by simp
qed

lemma holding_slot: "holding a i ts held \<Longrightarrow> find_timestamp (slots a) 0 ts = Some i"
  using slot_unique [of a i 0] by (auto simp: holding_def)

lemma packets_ok_distinct: "packets_ok tot m \<Longrightarrow> distinct (map fst m)"
  unfolding packets_ok_def by (induction m) (auto simp: ends_before_def)

lemma slices_concat:
  assumes "tiles m f" "\<forall>e \<in> set m. \<exists>p. e = as_entry p \<and> slice_of P ts p"
    and "unat (fr_total_points f) = length P"
  shows "fr_points f = P"
proof (rule nth_equalityI)
  have sc: "scan 0 m = (True, length P)"
    using assms packets_ok_scan [of "length P" m] by (simp add: tiles_def)
  show len: "length (fr_points f) = length P"
    using assms by (simp add: tiles_def length_concat_packets)
  fix k assume k: "k < length (fr_points f)"
  obtain e where e: "e \<in> set m" "unat (fst e) \<le> k" "k < unat (fst e) + length (snd e)"
    using scan_covers [OF sc, of k] k len by (metis le0)
  then have "take (length (snd e)) (drop (unat (fst e)) (fr_points f)) = snd e"
    using scan_places [OF sc e(1)] assms(1) by (simp add: tiles_def)
  moreover have "take (length (snd e)) (drop (unat (fst e)) P) = snd e"
    using assms(2) e(1) by (auto simp: slice_of_def as_entry_def)
  moreover have "X ! k = take (length (snd e)) (drop (unat (fst e)) X) ! (k - unat (fst e))"
    if "length X = length P" for X :: "LidarPoint list"
    using e k len that by (simp add: less_diff_conv2)
  ultimately show "fr_points f ! k = P ! k"
    using len by metis
qed

lemma holding_add:
  assumes h: "holding a i ts held" and d: "\<forall>q \<in> set held. slice_of P ts q \<and> apart q p"
    and p: "slice_of P ts p" "sizes held + length (pk_points p) \<le> length P"
    and c: "length held < max_packets_per_frame (cfg a)" "length P \<le> max_points_per_frame (cfg a)"
  shows "\<exists>b. cfg b = cfg a \<and> add_packet now a p = (b, if sizes held + length (pk_points p) = length P
      then Some \<lparr>fr_timestamp_ns = ts, fr_total_points = pk_total p, fr_points = P\<rparr> else None) \<and>
    (sizes held + length (pk_points p) \<noteq> length P \<longrightarrow> holding b i ts (held @ [p]))"
proof -
  let ?s = "slots a ! i" and ?w = "with_total p (slots a ! i)"
  have inv: "asm_inv a" "i < length (slots a)" "active ?s" "sl_timestamp_ns ?s = ts"
      and m: "set (packets ?s) = as_entry ` set held" "length (packets ?s) = length held"
        "points_in (packets ?s) = sizes held"
    using h by (auto simp: holding_def)
  have s: "slot_inv (cfg a) ?s"
    using inv by (simp add: asm_inv_slot)
  have tot: "unique_indices ?s = 0 \<or> sl_total ?s = pk_total p"
  proof (cases held)
    case (Cons q qs)
    then have "unat (sl_total ?s) = unat (pk_total p)"
      using h d p(1) by (simp add: holding_def slice_of_def)
    then show ?thesis
      by (simp add: word_unat_eq_iff)
  qed (use s m in \<open>simp add: slot_inv_def\<close>)
  have total: "unat (pk_total p) = length P"
    using p(1) by (simp add: slice_of_def)
  have w: "slot_inv (cfg a) ?w" "sl_total ?w = pk_total p"
    using with_total_inv [OF s] c(2) total tot by (auto simp: with_total_def)
  have free: "map_of (packets ?w) (pk_index p) = None" "\<not> overlaps_neighbour (packets ?w) p"
    using apart_not_overlapping [of "packets ?w" p] m(1) d p(1) by (auto simp: slice_of_def)
  define s' where "s' = store_packet ?w p"
  define st where "st = (stats a)\<lparr>packets_accepted := packets_accepted (stats a) + 1\<rparr>"
  have frame: "in_frame (unat (sl_total ?w)) (as_entry p)"
    using p(1) total w(2) by (auto simp: slice_of_def in_frame_def as_entry_def neq_Nil_conv)
  have s': "slot_inv (cfg a) s'" "active s'" "sl_total s' = pk_total p" "sl_timestamp_ns s' = ts"
    using store_inv [OF w(1) _ free(1) _ free(2) frame] inv w(2) m(2) c(1)
    by (simp_all add: s'_def) (simp_all add: store_packet_def)
  have "set (packets s') = insert (as_entry p) (set (packets ?s))"
      "length (packets s') = Suc (length (packets ?s))" "sum_points s' = sum_points ?s + length (pk_points p)"
    using free(1) by (simp_all add: s'_def store_packet_def emplace_new as_entry_def)
  then have s'': "set (packets s') = as_entry ` set (held @ [p])" "length (packets s') = Suc (length held)"
      "sum_points s' = sizes held + length (pk_points p)" "packets s' \<noteq> []"
    using m s by (auto simp: slot_inv_def)
  note s' = s' s''
  define b where "b = a\<lparr>slots := (slots a)[i := s'], stats := st\<rparr>"
  have "find_timestamp (slots a) 0 ts = Some i"
    by (rule holding_slot [OF h])
  then have "add_packet now a p = add_to_slot a i p"
    using p(1) total c(2) slot_found [OF inv(1)]
    by (auto simp: add_packet_def slice_of_def range_out_of_frame_def neq_Nil_conv)
  also have "\<dots> = publish_if_complete b i"
    using free p(2) c m s w total unfolding add_to_slot_matching [OF tot] Let_def
    by (simp add: b_def s'_def st_def slot_inv_def)
  finally have add: "add_packet now a p = publish_if_complete b i" .
  have bi: "slots b ! i = s'" "cfg b = cfg a"
    using inv(2) by (simp_all add: b_def)
  show ?thesis
  proof (cases "sizes held + length (pk_points p) = length P")
    case True
    then have c: "is_complete s'" "length (fr_points (emitted_frame s')) = unat (sl_total s')"
      using is_complete_iff [OF s'(1,2,8)] emitted_length [OF s'(1)] s'(3,7) total by simp_all
    have "tiles (packets s') (emitted_frame s')"
      using s'(1,2,3,7) True total by (auto simp: tiles_def emitted_frame_def slot_inv_def)
    then have "fr_points (emitted_frame s') = P"
      by (rule slices_concat [where ts = ts]) (use s'(3,5) d p(1) total in \<open>auto simp: emitted_frame_def\<close>)
    then have "emitted_frame s' = \<lparr>fr_timestamp_ns = ts, fr_total_points = pk_total p, fr_points = P\<rparr>"
      using s'(3,4) by (simp add: emitted_frame_def)
    then show ?thesis
      using True c by (simp add: add publish_if_complete_def Let_def bi)
  next
    case False
    then have "\<not> is_complete s'"
      using is_complete_iff [OF s'(1,2,8)] s'(3,7) total by simp
    moreover have "asm_inv b"
      using asm_inv_same_ts [OF inv(1,2) s'(1)] s'(4) inv by (simp add: b_def)
    moreover have "pk_total (hd (held @ [p])) = pk_total p"
      using d total by (cases held) (auto simp: slice_of_def word_unat_eq_iff)
    ultimately show ?thesis
      using False s' inv(2) by (auto simp: add publish_if_complete_def bi holding_def b_def sizes_def slot_inv_def)
  qed
qed

lemma feed_holding:
  assumes "holding a i ts held" "\<forall>q \<in> set held. \<forall>(now, p) \<in> set ps. apart q p"
    and "sorted_wrt apart (map snd ps)" "\<forall>q \<in> set held. slice_of P ts q"
    and "\<forall>(now, p) \<in> set ps. slice_of P ts p"
    and "sizes held + sizes (map snd ps) = length P" "ps \<noteq> []"
    and "length held + length ps \<le> max_packets_per_frame (cfg a)" "length P \<le> max_points_per_frame (cfg a)"
  shows "snd (feed_all a ps) = replicate (length ps - 1) None @
    [Some \<lparr>fr_timestamp_ns = ts, fr_total_points = pk_total (snd (last ps)), fr_points = P\<rparr>]"
  using assms
proof (induction ps arbitrary: a held)
  case (Cons x ps)
  obtain now p where x: "x = (now, p)"
    by fastforce
  have "\<exists>b. cfg b = cfg a \<and> add_packet now a p = (b, if sizes held + length (pk_points p) = length P
      then Some \<lparr>fr_timestamp_ns = ts, fr_total_points = pk_total p, fr_points = P\<rparr> else None) \<and>
    (sizes held + length (pk_points p) \<noteq> length P \<longrightarrow> holding b i ts (held @ [p]))"
    using Cons.prems x by (intro holding_add) auto
  then obtain b where b: "cfg b = cfg a" "add_packet now a p = (b, if sizes held + length (pk_points p) = length P
      then Some \<lparr>fr_timestamp_ns = ts, fr_total_points = pk_total p, fr_points = P\<rparr> else None)"
    "sizes held + length (pk_points p) \<noteq> length P \<Longrightarrow> holding b i ts (held @ [p])"
    by blast
  show ?case
  proof (cases ps)
    case Nil
    then show ?thesis
      using b Cons.prems(6) x by simp
  next
    case (Cons y ps')
    then have "0 < sizes (map snd ps)"
      using Cons.prems(5) by (cases y) (auto simp: slice_of_def)
    then have ne: "sizes held + length (pk_points p) \<noteq> length P"
      using Cons.prems(6) x by simp
    have "snd (feed_all b ps) = replicate (length ps - 1) None @
      [Some \<lparr>fr_timestamp_ns = ts, fr_total_points = pk_total (snd (last ps)), fr_points = P\<rparr>]"
      using Cons.prems x b Cons ne by (intro Cons.IH [OF b(3)]) (auto simp: sizes_def)
    then show ?thesis
      using b(2) ne x Cons by (auto simp: Let_def split: prod.splits)
  qed
qed simp

text \<open>
  C18. The order of arrival does not matter: whatever the assembler has received before, when the
  packets of a new frame, cut into disjoint slices within the configured limits, arrive in
  any order at any times, every call but the last returns nothing and the last returns the frame
  with exactly the points the slices were cut from.
\<close>

theorem any_order_completes:
  assumes "reach asm_start asm_step (a, H)"
    and new: "\<forall>s \<in> set (slots a). active s \<longrightarrow> sl_timestamp_ns s \<noteq> ts"
    and ps: "ps \<noteq> []" "\<forall>(now, p) \<in> set ps. now < time_point_max \<and> slice_of P ts p"
    and cut: "sorted_wrt apart (map snd ps)" "sizes (map snd ps) = length P"
    and limits: "length ps \<le> max_packets_per_frame (cfg a)" "length P \<le> max_points_per_frame (cfg a)"
  shows "snd (feed_all a ps) = replicate (length ps - 1) None @
    [Some \<lparr>fr_timestamp_ns = ts, fr_total_points = pk_total (snd (last ps)), fr_points = P\<rparr>]"
proof -
  obtain now p qs where x: "ps = (now, p) # qs"
    using ps(1) by (metis neq_Nil_conv surj_pair)
  have p: "now < time_point_max" "slice_of P ts p"
    using ps(2) x by auto
  have inv: "asm_inv a" and none: "find_timestamp (slots a) 0 ts = None"
    using assembler.inv_reach [OF assms(1)] new by (simp_all add: history_inv_def find_timestamp_None)
  obtain b i where b: "slot_for_timestamp now a ts True = (b, Some i)"
      "asm_inv b" "i < length (slots b)" "length (slots b) = length (slots a)" "cfg b = cfg a"
      "active (slots b ! i) \<and> sl_timestamp_ns (slots b ! i) = ts \<and> packets (slots b ! i) = []"
      "\<forall>j. j \<noteq> i \<longrightarrow> slots b ! j = slots a ! j"
      "packets_counted (stats b) = packets_counted (stats a)"
      "(\<exists>s \<in> set (slots a). \<not> active s) \<longrightarrow> stats b = stats a"
    by (rule slot_created [OF inv none p(1)])
  have act: "active (slots b ! i)" "sl_timestamp_ns (slots b ! i) = ts" "packets (slots b ! i) = []"
    using b(6) by simp_all
  have hold: "holding b i ts []"
    using b(2,3) act by (simp add: holding_def)
  have found: "slot_for_timestamp now b ts True = (b, Some i)"
    using holding_slot [OF hold] by (simp add: slot_for_timestamp_def)
  have "add_packet now a p = add_packet now b p"
    using p(2) limits(2) b(1,5) found by (auto simp: add_packet_def slice_of_def range_out_of_frame_def neq_Nil_conv)
  then have "snd (feed_all a ps) = snd (feed_all b ps)"
    by (simp add: x)
  also have "\<dots> = replicate (length ps - 1) None @
    [Some \<lparr>fr_timestamp_ns = ts, fr_total_points = pk_total (snd (last ps)), fr_points = P\<rparr>]"
    by (rule feed_holding [OF hold]) (use ps cut limits b(5) in auto)
  finally show ?thesis .
qed

text \<open>
  A retransmission is harmless: a packet that a frame in flight already holds, with finite
  coordinates, changes nothing but the duplicate counter.
\<close>

theorem retransmission_ignored:
  assumes "reach asm_start asm_step (a, H)" "i < length (slots a)" "active (slots a ! i)"
    and "(pk_index p, pk_points p) \<in> set (packets (slots a ! i))"
    and "pk_ok p" "pk_timestamp_ns p = sl_timestamp_ns (slots a ! i)" "pk_total p = sl_total (slots a ! i)"
    and "\<forall>q \<in> set (pk_points p). bounded_point q"
  shows "add_packet now a p =
    (a\<lparr>stats := (stats a)\<lparr>packets_duplicated := packets_duplicated (stats a) + 1\<rparr>\<rparr>, None)"
proof -
  let ?s = "slots a ! i"
  have inv: "asm_inv a" 
    using assembler.inv_reach [OF assms(1)] by (simp add: history_inv_def)
  have s: "slot_inv (cfg a) ?s"
    using inv assms(2) by (simp add: asm_inv_slot)
  then have ok: "packets_ok (unat (sl_total ?s)) (packets ?s)" "unat (sl_total ?s) \<le> max_points_per_frame (cfg a)"
    using assms(3) by (simp_all add: slot_inv_def)
  then have "in_frame (unat (pk_total p)) (pk_index p, pk_points p)"
    using assms(4,7) by (auto simp: packets_ok_def)
  then have r: "\<not> range_out_of_frame p" "pk_total p \<noteq> 0"
    by (auto simp: in_frame_def range_out_of_frame_def)
  have "distinct (map fst (packets ?s))"
    using ok(1) by (rule packets_ok_distinct)
  then have "map_of (packets ?s) (pk_index p) = Some (pk_points p)"
    using assms(4) by simp
  moreover have "points_eq (pk_points p) (pk_points p)"
    using assms(8) by (auto simp: points_eq_def point_eq_def bounded_point_def intro!: list.rel_refl_strong)
  moreover have "unique_indices ?s \<noteq> 0"
    using s assms(4) by (auto simp: slot_inv_def)
  then have "with_total p ?s = ?s"
    by (simp add: with_total_def)
  ultimately have "add_to_slot a i p =
      (a\<lparr>stats := (stats a)\<lparr>packets_duplicated := packets_duplicated (stats a) + 1\<rparr>\<rparr>, None)"
    using assms(7) by (subst add_to_slot_matching) simp_all
  then show ?thesis
    using assms(5-7) r ok(2) slot_unique [OF inv assms(2,3)]
    by (simp add: add_packet_def slot_for_timestamp_def)
qed

text \<open>
  The slot pointer is always valid: whenever the assembler looks a frame up, creating it or
  not, the pointer it gets refers to an active slot of the vector that holds the requested timestamp;
  with creation allowed it always gets one, even when every slot is busy and one must be evicted.
\<close>

theorem slot_pointer_valid:
  assumes "reach asm_start asm_step (a, H)" "now < time_point_max"
  shows "(case slot_for_timestamp now a ts create of
      (b, Some i) \<Rightarrow> i < length (slots b) \<and> length (slots b) = length (slots a) \<and>
         active (slots b ! i) \<and> sl_timestamp_ns (slots b ! i) = ts
    | (b, None) \<Rightarrow> \<not> create \<and> b = a)"
proof -
  have inv: "asm_inv a" 
    using assembler.inv_reach [OF assms(1)] by (simp add: history_inv_def)
  show ?thesis
  proof (cases "find_timestamp (slots a) 0 ts")
    case (Some i)
    then show ?thesis
      using slot_found [OF inv Some] by simp
  next
    case none: None
    show ?thesis
    proof (cases create)
      case True
      obtain b i where b: "slot_for_timestamp now a ts True = (b, Some i)"
          "asm_inv b" "i < length (slots b)" "length (slots b) = length (slots a)" "cfg b = cfg a"
          "active (slots b ! i) \<and> sl_timestamp_ns (slots b ! i) = ts \<and> packets (slots b ! i) = []"
          "\<forall>j. j \<noteq> i \<longrightarrow> slots b ! j = slots a ! j"
          "packets_counted (stats b) = packets_counted (stats a)"
          "(\<exists>s \<in> set (slots a). \<not> active s) \<longrightarrow> stats b = stats a"
        by (rule slot_created [OF inv none assms(2)])
      then show ?thesis
        using True by simp
    qed (simp add: slot_for_timestamp_def none)
  qed
qed

section \<open>The overlap check against every packet\<close>

definition shares_points :: "PointCloudPacketResult \<Rightarrow> u32 \<times> LidarPoint list \<Rightarrow> bool" where
  "shares_points p e \<longleftrightarrow>
     {unat (fst e) ..< unat (fst e) + length (snd e)} \<inter>
     {unat (pk_index p) ..< unat (pk_index p) + length (pk_points p)} \<noteq> {}"

lemma shares_points_iff:
  assumes "pk_points p \<noteq> []" "snd e \<noteq> []"
  shows "shares_points p e \<longleftrightarrow> unat (fst e) < unat (pk_index p) + length (pk_points p) \<and>
    unat (pk_index p) < unat (fst e) + length (snd e)"
proof -
  have ne: "0 < length (pk_points p)" "0 < length (snd e)"
    using assms by simp_all
  show ?thesis
  proof
    assume "unat (fst e) < unat (pk_index p) + length (pk_points p) \<and>
      unat (pk_index p) < unat (fst e) + length (snd e)"
    then have "max (unat (fst e)) (unat (pk_index p)) \<in> {unat (fst e) ..< unat (fst e) + length (snd e)} \<inter>
        {unat (pk_index p) ..< unat (pk_index p) + length (pk_points p)}"
      using ne by (simp add: max_def)
    then show "shares_points p e"
      unfolding shares_points_def by blast
  qed (auto simp: shares_points_def)
qed

lemma apart_if_stored:
  assumes "packets_ok tot m" "map_of m (pk_index p) = None" "\<not> overlaps_neighbour m p" "e \<in> set m"
  shows "\<not> shares_points p e"
proof -
  let ?tot = "max tot (unat (pk_index p) + length (pk_points p) + 1)" and ?new = "(pk_index p, pk_points p)"
  have "packets_ok ?tot m"
    using assms(1) by (auto simp: packets_ok_def in_frame_def)
  moreover have "in_frame ?tot ?new"
    by (simp add: in_frame_def max_def)
  ultimately have "packets_ok ?tot (emplace (pk_index p) (pk_points p) m)"
    using emplace_ok [OF _ assms(2,3)] by blast
  then have srt: "sorted_wrt ends_before (emplace (pk_index p) (pk_points p) m)"
    by (simp add: packets_ok_def)
  have "e \<noteq> ?new"
    using assms(2,4) by (force simp: map_of_eq_None_iff)
  then have "ends_before e ?new \<or> ends_before ?new e"
    using sorted_wrt_pair [OF srt, of e ?new] assms(4) emplace_new(2) [OF assms(2)] by auto
  then show ?thesis
    by (auto simp: ends_before_def shares_points_def)
qed

lemma neighbour_overlap_real:
  assumes "overlaps_neighbour m p" "pk_points p \<noteq> []" "\<forall>e \<in> set m. snd e \<noteq> []"
  shows "\<exists>e \<in> set m. shares_points p e"
proof -
  let ?P = "\<lambda>e. fst e < pk_index p"
  let ?B = "takeWhile ?P m" and ?N = "dropWhile ?P m"
  consider "?N \<noteq> []" "unat (pk_index p) + length (pk_points p) > unat (fst (hd ?N))"
    | "?B \<noteq> []" "unat (fst (last ?B)) + length (snd (last ?B)) > unat (pk_index p)"
    using assms(1) unfolding overlaps_neighbour_def Let_def by blast
  then show ?thesis
  proof cases
    case 1
    have e: "hd ?N \<in> set m"
      using hd_in_set [OF 1(1)] by (rule set_dropWhileD)
    have "\<not> fst (hd ?N) < pk_index p"
      by (rule hd_dropWhile [OF 1(1)])
    then have "unat (pk_index p) \<le> unat (fst (hd ?N))"
      by (simp add: word_le_nat_alt not_less)
    moreover have "0 < length (snd (hd ?N))"
      using assms(3) e by blast
    ultimately have "unat (pk_index p) < unat (fst (hd ?N)) + length (snd (hd ?N))"
      by linarith
    then show ?thesis
      using 1(2) e assms(2,3) by (intro bexI [OF _ e]) (simp add: shares_points_iff)
  next
    case 2
    have l: "last ?B \<in> set m \<and> fst (last ?B) < pk_index p"
      using last_in_set [OF 2(1)] by (rule set_takeWhileD)
    then have "unat (fst (last ?B)) < unat (pk_index p)"
      by (simp add: word_less_nat_alt)
    then show ?thesis
      using 2(2) l assms(2,3) by (intro bexI [of _ "last ?B"]) (simp_all add: shares_points_iff)
  qed
qed

text \<open>
  C40. Looking at the two neighbours is enough: in every reachable state, for packets that carry points, as the
  parser accepts no others, the overlap check of \<^verbatim>\<open>add_packet\<close> against the next and the previous stored packet
  is equivalent to comparing the new packet with every stored packet of the frame.
\<close>

theorem neighbour_check_exact:
  assumes "reach asm_start asm_step (a, H)" "\<forall>q \<in> fed H. pk_points q \<noteq> []" "s \<in> set (slots a)"
    and "pk_points p \<noteq> []" "map_of (packets s) (pk_index p) = None"
  shows "overlaps_neighbour (packets s) p \<longleftrightarrow> (\<exists>e \<in> set (packets s). shares_points p e)"
proof (cases "active s")
  case True
  have inv: "slot_inv (cfg a) s" "slot_sent (fed H) s"
    using assembler.inv_reach [OF assms(1)] assms(3) by (auto simp: history_inv_def asm_inv_def)
  then have ok: "packets_ok (unat (sl_total s)) (packets s)"
    using True by (simp add: slot_inv_def)
  have "\<forall>e \<in> set (packets s). snd e \<noteq> []"
    using inv(2) True assms(2) by (fastforce simp: slot_sent_def sent_in_def as_entry_def)
  then show ?thesis
    using neighbour_overlap_real [OF _ assms(4)] apart_if_stored [OF ok assms(5)] by blast
next
  case False
  then have "packets s = []"
    using assembler.inv_reach [OF assms(1)] assms(3) by (auto simp: history_inv_def asm_inv_def slot_inv_def)
  then show ?thesis
    by (simp add: overlaps_neighbour_def)
qed

section \<open>Witnesses\<close>

definition ex_asm_config :: AssemblerConfig where
  "ex_asm_config = \<lparr>max_parallel_frames = 1, frame_timeout = 300, max_points_per_frame = 10,
     max_packets_per_frame = 4\<rparr>"

definition ex_pt :: "u32 \<Rightarrow> LidarPoint" where
  "ex_pt c = \<lparr>pt_x = Fin 1, pt_y = Fin 2, pt_z = Fin 5, pt_rgba = c, pt_rgba_channels = [c, 0, 0, 0]\<rparr>"

definition ex_packet :: "u32 \<Rightarrow> LidarPoint list \<Rightarrow> PointCloudPacketResult" where
  "ex_packet index pts = \<lparr>pk_ok = True, pk_reason = [], pk_timestamp_ns = 7, pk_total = 3,
     pk_index = index, pk_pos_num = of_nat (length pts), pk_points = pts\<rparr>"

definition ex_late :: PointCloudPacketResult where
  "ex_late = ex_packet 2 [ex_pt 3]"

definition ex_early :: PointCloudPacketResult where
  "ex_early = ex_packet 0 [ex_pt 1, ex_pt 2]"

definition ex_half :: asm where
  "ex_half = fst (add_packet 5 (PointCloudFrameAssembler ex_asm_config) ex_late)"

lemmas asm_eval = add_packet_def add_to_slot_def publish_if_complete_def is_complete_def
  emitted_frame_def slot_for_timestamp_def store_packet_def finalize_slot_def cleared_def
  activate_def bump_reason_def range_out_of_frame_def overlaps_neighbour_def count_rejected_def
  PointCloudFrameAssembler_def empty_slot_def zero_stats_def time_point_max_def
  ex_asm_config_def ex_packet_def ex_late_def ex_early_def ex_half_def

lemma ex_half_reached: "reach asm_start asm_step (ex_half, [Feed 5 ex_late])"
proof -
  have "reach asm_start asm_step (PointCloudFrameAssembler ex_asm_config, [])"
    by (rule reach_start) (auto simp: asm_start_def)
  then show ?thesis
    by (rule reach_step [where e = "Feed 5 ex_late"]) (simp add: asm_step_def ex_half_def time_point_max_def)
qed

lemma ex_half_eq: "ex_half = \<lparr>slots = [\<lparr>active = True, sl_timestamp_ns = 7, sl_total = 3,
    packets = [(2, [ex_pt 3])], unique_indices = 1, sum_points = 1, activated_at = 5\<rparr>],
  cfg = ex_asm_config, stats = zero_stats\<lparr>packets_accepted := 1\<rparr>\<rparr>"
  by (simp add: asm_eval)

lemma ex_completes: "snd (add_packet 6 ex_half ex_early) =
    Some \<lparr>fr_timestamp_ns = 7, fr_total_points = 3, fr_points = [ex_pt 1, ex_pt 2, ex_pt 3]\<rparr>"
  unfolding ex_half_eq by (simp add: asm_eval)

lemma ex_times [simp]: "5 < time_point_max" "6 < time_point_max" "400 < time_point_max"
  by (simp_all add: time_point_max_def)

theorem published_frame_genuine_witness:
  "\<exists>b f. add_packet 6 ex_half ex_early = (b, Some f) \<and> length (fr_points f) = unat (fr_total_points f) \<and>
    unat (fr_total_points f) \<le> max_points_per_frame (cfg ex_half) \<and>
    (\<forall>k < length (fr_points f). \<exists>q \<in> insert ex_early (fed [Feed 5 ex_late]). unat (pk_index q) \<le> k \<and>
      fr_points f ! k = pk_points q ! (k - unat (pk_index q)))"
proof -
  obtain b f where bf: "add_packet 6 ex_half ex_early = (b, Some f)"
    using ex_completes by (metis surjective_pairing)
  show ?thesis
    using published_frame_genuine [OF ex_half_reached ex_times(2) bf] bf by blast
qed

theorem every_packet_counted_witness:
  "packets_accepted (stats ex_half) + packets_duplicated (stats ex_half) + packets_rejected (stats ex_half) +
    frames_dropped_conflict (stats ex_half) = feeds [Feed 5 ex_late]"
  by (rule every_packet_counted [OF ex_half_reached])

theorem assembler_memory_bounded_witness:
  "in_flight_count ex_half \<le> 1 \<and>
    sum_list (map (\<lambda>s. length (concat (map snd (packets s)))) (slots ex_half)) \<le> 10"
  using assembler_memory_bounded [OF ex_half_reached] by (simp add: ex_half_eq ex_asm_config_def)

lemma ex_slices: "slice_of [ex_pt 1, ex_pt 2, ex_pt 3] 7 ex_late" "slice_of [ex_pt 1, ex_pt 2, ex_pt 3] 7 ex_early"
  by (simp_all add: slice_of_def ex_late_def ex_early_def ex_packet_def)

theorem any_order_completes_witness:
  "snd (feed_all (PointCloudFrameAssembler ex_asm_config) [(6, ex_late), (5, ex_early)]) =
    [None, Some \<lparr>fr_timestamp_ns = 7, fr_total_points = 3, fr_points = [ex_pt 1, ex_pt 2, ex_pt 3]\<rparr>]"
proof -
  have "snd (feed_all (PointCloudFrameAssembler ex_asm_config) [(6, ex_late), (5, ex_early)]) =
    replicate (length [(6 :: time, ex_late), (5, ex_early)] - 1) None @
    [Some \<lparr>fr_timestamp_ns = 7, fr_total_points = pk_total (snd (last [(6 :: time, ex_late), (5, ex_early)])),
       fr_points = [ex_pt 1, ex_pt 2, ex_pt 3]\<rparr>]"
  proof (rule any_order_completes)
    show "reach asm_start asm_step (PointCloudFrameAssembler ex_asm_config, [])"
      by (rule reach_start) (auto simp: asm_start_def)
    show "\<forall>s \<in> set (slots (PointCloudFrameAssembler ex_asm_config)). active s \<longrightarrow> sl_timestamp_ns s \<noteq> 7"
      by (simp add: asm_eval)
  qed (use ex_slices in \<open>simp_all add: apart_def ex_late_def ex_early_def ex_packet_def ex_asm_config_def
      PointCloudFrameAssembler_def\<close>)
  then show ?thesis
    by (simp add: ex_early_def ex_packet_def)
qed

theorem retransmission_ignored_witness:
  "add_packet 6 ex_half ex_late =
    (ex_half\<lparr>stats := (stats ex_half)\<lparr>packets_duplicated := packets_duplicated (stats ex_half) + 1\<rparr>\<rparr>, None)"
  by (rule retransmission_ignored [OF ex_half_reached, of 0])
    (simp_all add: ex_half_eq ex_late_def ex_packet_def ex_pt_def bounded_point_def)

theorem slot_pointer_valid_witness:
  "case slot_for_timestamp 6 ex_half 8 True of
      (b, Some i) \<Rightarrow> i < length (slots b) \<and> length (slots b) = length (slots ex_half) \<and>
         active (slots b ! i) \<and> sl_timestamp_ns (slots b ! i) = 8
    | (b, None) \<Rightarrow> \<not> True \<and> b = ex_half"
  by (rule slot_pointer_valid [OF ex_half_reached ex_times(2)])

theorem neighbour_check_exact_witness:
  "overlaps_neighbour (packets (hd (slots ex_half))) (ex_packet 1 [ex_pt 4, ex_pt 5]) \<longleftrightarrow>
   (\<exists>e \<in> set (packets (hd (slots ex_half))). shares_points (ex_packet 1 [ex_pt 4, ex_pt 5]) e)"
  by (rule neighbour_check_exact [OF ex_half_reached]) (simp_all add: ex_half_eq ex_late_def ex_packet_def)

end
