(* ===== verification/Lidar_Receiver.thy ===== *)
theory Lidar_Receiver
  imports Frame_Assembler
begin

text \<open>
  The datagram transport and the receive thread of \<^verbatim>\<open>lidar_stream.cpp\<close>: \<^verbatim>\<open>UdpLidarDatagramSource\<close>
  and \<^verbatim>\<open>LidarStreamReceiver\<close>. Socket calls are replies of the operating system. A receiver is
  a step relation: \<^verbatim>\<open>start\<close> and \<^verbatim>\<open>stop\<close> (by any thread, a callback included), the check at the head
  of the loop, and the rest of an iteration with the datagram the source delivered and the clock
  readings it made. The callbacks are lists of what was delivered; what a callback does or throws has no
  effect (\<^verbatim>\<open>InvokeSafe\<close>) except for a call of \<^verbatim>\<open>stop\<close>, which is a step of its own.

  Ghost state: the datagrams received and the calls made to the assembler.
\<close>

section \<open>The UDP source\<close>

record UdpStats =
  us_received :: nat
  us_dropped_source :: nat
  us_timeouts :: nat
  us_errors :: nat

record udp =
  udp_fd :: int
  expected_source_ip :: string
  udp_stats :: UdpStats

record socket_reply =
  sk_socket :: int
  sk_pton :: bool
  sk_bind :: int

record recv_reply =
  rr_poll :: "int \<Rightarrow> int"
  rr_count :: int
  rr_bytes :: "byte list"
  rr_from :: string

definition zero_udp_stats :: UdpStats where
  "zero_udp_stats = \<lparr>us_received = 0, us_dropped_source = 0, us_timeouts = 0, us_errors = 0\<rparr>"

text \<open>The constructor; the second component lists the descriptors it closed.\<close>

definition UdpLidarDatagramSource :: "socket_reply \<Rightarrow> string \<Rightarrow> udp \<times> int list" where
  "UdpLidarDatagramSource r expected =
     (let u = \<lparr>udp_fd = sk_socket r, expected_source_ip = expected, udp_stats = zero_udp_stats\<rparr> in
      if udp_fd u < 0 then (u, [])
      else if \<not> sk_pton r then (u\<lparr>udp_fd := - 1\<rparr>, [udp_fd u])
      else if sk_bind r \<noteq> 0 then (u\<lparr>udp_fd := - 1\<rparr>, [udp_fd u])
      else (u, []))"

definition udp_destroy :: "udp \<Rightarrow> udp \<times> int list" where
  "udp_destroy u = (if udp_fd u \<ge> 0 then (u\<lparr>udp_fd := - 1\<rparr>, [udp_fd u]) else (u, []))"

definition valid :: "udp \<Rightarrow> bool" where
  "valid u \<longleftrightarrow> udp_fd u \<ge> 0"

text \<open>The milliseconds passed to \<^verbatim>\<open>poll\<close>; the conversion to \<^verbatim>\<open>int\<close> keeps the low 32 bits.\<close>

definition poll_timeout :: "int \<Rightarrow> int" where
  "poll_timeout timeout = (let timeout_ms = signed_take_bit 31 timeout in if timeout_ms < 0 then 0 else timeout_ms)"

definition udp_receive :: "recv_reply \<Rightarrow> int \<Rightarrow> byte list \<Rightarrow> udp \<Rightarrow> bool \<times> byte list \<times> udp" where
  "udp_receive r timeout out u =
     (let bump = (\<lambda>f. u\<lparr>udp_stats := f (udp_stats u)\<rparr>); pr = rr_poll r (poll_timeout timeout) in
      if udp_fd u < 0 then (False, out, bump (\<lambda>s. s\<lparr>us_errors := us_errors s + 1\<rparr>))
      else if pr = 0 then (False, out, bump (\<lambda>s. s\<lparr>us_timeouts := us_timeouts s + 1\<rparr>))
      else if pr < 0 then (False, out, bump (\<lambda>s. s\<lparr>us_errors := us_errors s + 1\<rparr>))
      else if rr_count r < 0 then (False, out, bump (\<lambda>s. s\<lparr>us_errors := us_errors s + 1\<rparr>))
      else if expected_source_ip u \<noteq> [] \<and> expected_source_ip u \<noteq> rr_from r
      then (False, out, bump (\<lambda>s. s\<lparr>us_dropped_source := us_dropped_source s + 1\<rparr>))
      else (True, out @ take (nat (rr_count r)) (rr_bytes r),
            bump (\<lambda>s. s\<lparr>us_received := us_received s + 1\<rparr>)))"

section \<open>The receiver\<close>

datatype LidarStreamKind = PointCloud | Odometry

datatype loop_phase = NoThread | AtCheck | Receiving | Returned

record rcv =
  lr_kind :: LidarStreamKind
  lr_config :: LidarParseConfig
  lr_assembler :: asm
  lr_stop_requested :: bool
  lr_running :: bool
  lr_start_called :: bool
  lr_phase :: loop_phase
  lr_last_warning :: time
  lr_has_on_frame :: bool
  lr_has_on_odometry :: bool
  lr_has_warning :: bool
  frames_out :: "PointCloudFrame list"
  odometry_out :: "LidarOdometry list"
  warnings_out :: "(time \<times> string) list"
  out_of_bounds :: bool
  received_data :: "byte list list"
  asm_events :: "asm_event list"

definition LidarStreamReceiver :: "LidarStreamKind \<Rightarrow> LidarParseConfig \<Rightarrow> AssemblerConfig \<Rightarrow> bool \<Rightarrow> bool \<Rightarrow> bool \<Rightarrow> rcv" where
  "LidarStreamReceiver k c ac on_frame on_odometry warn =
     \<lparr>lr_kind = k, lr_config = c, lr_assembler = PointCloudFrameAssembler ac, lr_stop_requested = False,
      lr_running = False, lr_start_called = False, lr_phase = NoThread, lr_last_warning = 0,
      lr_has_on_frame = on_frame, lr_has_on_odometry = on_odometry, lr_has_warning = warn,
      frames_out = [], odometry_out = [], warnings_out = [], out_of_bounds = False,
      received_data = [], asm_events = []\<rparr>"

definition receiver_start :: "rcv \<Rightarrow> rcv" where
  "receiver_start r =
     (if lr_stop_requested r \<or> lr_start_called r then r
      else r\<lparr>lr_start_called := True, lr_running := True, lr_phase := AtCheck\<rparr>)"

definition receiver_stop :: "rcv \<Rightarrow> rcv" where
  "receiver_stop r = r\<lparr>lr_stop_requested := True, lr_running := False\<rparr>"

definition running :: "rcv \<Rightarrow> bool" where
  "running r \<longleftrightarrow> lr_running r \<and> \<not> lr_stop_requested r"

text \<open>The throttle: at most one warning per second.\<close>

definition should_emit_warning :: "time \<Rightarrow> rcv \<Rightarrow> bool \<times> rcv" where
  "should_emit_warning now r =
     (if now - lr_last_warning r < ms 1000 then (False, r) else (True, r\<lparr>lr_last_warning := now\<rparr>))"

definition warn_if_due :: "time \<Rightarrow> string \<Rightarrow> rcv \<Rightarrow> rcv" where
  "warn_if_due now reason r =
     (if \<not> lr_has_warning r then r
      else let (emit, r) = should_emit_warning now r in
        if emit then r\<lparr>warnings_out := warnings_out r @ [(now, reason)]\<rparr> else r)"

text \<open>The wait and the stop check at the head of both loops.\<close>

definition loop_check :: "rcv \<Rightarrow> rcv" where
  "loop_check r =
     (if lr_stop_requested r then r\<lparr>lr_phase := Returned\<rparr>
      else if lr_running r then r\<lparr>lr_phase := Receiving\<rparr>
      else r)"

text \<open>The rest of an iteration, for the datagram the source delivered, if any.\<close>

definition loop_odometry :: "byte list option \<Rightarrow> time \<Rightarrow> rcv \<Rightarrow> rcv" where
  "loop_odometry got warn_now r =
     (case got of
        None \<Rightarrow> r
      | Some buffer \<Rightarrow>
          (let r = r\<lparr>received_data := received_data r @ [buffer]\<rparr> in
           case ParseOdometryPacket (Some buffer) (lr_config r) of
             None \<Rightarrow> r\<lparr>out_of_bounds := True\<rparr>
           | Some parsed \<Rightarrow>
               if \<not> op_ok parsed then warn_if_due warn_now (op_reason parsed) r
               else if lr_has_on_odometry r then r\<lparr>odometry_out := odometry_out r @ [op_odometry parsed]\<rparr>
               else r))"

definition feed_assembler :: "time \<Rightarrow> PointCloudPacketResult \<Rightarrow> rcv \<Rightarrow> rcv" where
  "feed_assembler now parsed r =
     (let (a, frame) = add_packet now (lr_assembler r) parsed;
          r = r\<lparr>lr_assembler := a, asm_events := asm_events r @ [Feed now parsed]\<rparr>
      in case frame of
           Some f \<Rightarrow> if lr_has_on_frame r then r\<lparr>frames_out := frames_out r @ [f]\<rparr> else r
         | None \<Rightarrow> r)"

definition expire_frames :: "time \<Rightarrow> rcv \<Rightarrow> rcv" where
  "expire_frames now r =
     r\<lparr>lr_assembler := expire now (lr_assembler r), asm_events := asm_events r @ [Tick now]\<rparr>"

definition loop_point_cloud :: "byte list option \<Rightarrow> time \<Rightarrow> time \<Rightarrow> time \<Rightarrow> rcv \<Rightarrow> rcv" where
  "loop_point_cloud got add_now warn_now expire_now r =
     expire_frames expire_now
       (case got of
          None \<Rightarrow> r
        | Some buffer \<Rightarrow>
            (let r = r\<lparr>received_data := received_data r @ [buffer]\<rparr> in
             case ParsePointCloudPacket (Some buffer) (lr_config r) of
               None \<Rightarrow> r\<lparr>out_of_bounds := True\<rparr>
             | Some parsed \<Rightarrow>
                 if pk_ok parsed then feed_assembler add_now parsed r
                 else warn_if_due warn_now (pk_reason parsed) r))"

definition loop_iteration :: "byte list option \<Rightarrow> time \<Rightarrow> time \<Rightarrow> time \<Rightarrow> rcv \<Rightarrow> rcv" where
  "loop_iteration got add_now warn_now expire_now r =
     (let r = (case lr_kind r of
                 Odometry \<Rightarrow> loop_odometry got warn_now r
               | PointCloud \<Rightarrow> loop_point_cloud got add_now warn_now expire_now r)
      in r\<lparr>lr_phase := AtCheck\<rparr>)"

section \<open>Runs\<close>

datatype rcv_label =
  StartCall | StopCall | Check
| Iterate "byte list option" time time time

fun rcv_next :: "rcv_label \<Rightarrow> rcv \<Rightarrow> rcv" where
  "rcv_next StartCall r = receiver_start r"
| "rcv_next StopCall r = receiver_stop r"
| "rcv_next Check r = (if lr_phase r = AtCheck then loop_check r else r)"
| "rcv_next (Iterate got t u v) r = (if lr_phase r = Receiving then loop_iteration got t u v r else r)"

fun readable_times :: "rcv_label \<Rightarrow> bool" where
  "readable_times (Iterate got t u v) \<longleftrightarrow> t < time_point_max \<and> v < time_point_max"
| "readable_times _ \<longleftrightarrow> True"

definition rcv_start :: "rcv \<Rightarrow> bool" where
  "rcv_start r \<longleftrightarrow> (\<exists>k c ac a b d. r = LidarStreamReceiver k c ac a b d)"

definition rcv_step :: "rcv \<Rightarrow> rcv_label \<Rightarrow> rcv \<Rightarrow> bool" where
  "rcv_step r l t \<longleftrightarrow> readable_times l \<and> t = rcv_next l r"

section \<open>Invariants\<close>

text \<open>A frame whose every point was carried by a received and accepted datagram.\<close>

definition carried :: "rcv \<Rightarrow> PointCloudFrame \<Rightarrow> nat \<Rightarrow> bool" where
  "carried r f k \<longleftrightarrow> (\<exists>d \<in> set (received_data r). \<exists>q. ParsePointCloudPacket (Some d) (lr_config r) = Some q \<and> pk_ok q \<and>
     pk_timestamp_ns q = fr_timestamp_ns f \<and> pk_total q = fr_total_points f \<and>
     unat (pk_index q) \<le> k \<and> k < unat (pk_index q) + length (pk_points q) \<and>
     fr_points f ! k = pk_points q ! (k - unat (pk_index q)))"

definition complete_frame :: "rcv \<Rightarrow> PointCloudFrame \<Rightarrow> bool" where
  "complete_frame r f \<longleftrightarrow> length (fr_points f) = unat (fr_total_points f) \<and> fr_points f \<noteq> [] \<and>
     (\<forall>k < length (fr_points f). carried r f k)"

definition accepted_packets :: "rcv \<Rightarrow> PointCloudPacketResult set" where
  "accepted_packets r = {p. pk_ok p \<and> (\<exists>d \<in> set (received_data r). ParsePointCloudPacket (Some d) (lr_config r) = Some p)}"

definition spaced_warnings :: "rcv \<Rightarrow> bool" where
  "spaced_warnings r \<longleftrightarrow> (\<forall>i. Suc i < length (warnings_out r) \<longrightarrow>
     ms 1000 \<le> fst (warnings_out r ! Suc i) - fst (warnings_out r ! i)) \<and>
     (warnings_out r \<noteq> [] \<longrightarrow> lr_last_warning r = fst (last (warnings_out r)))"

definition rcv_inv :: "rcv \<Rightarrow> bool" where
  "rcv_inv r \<longleftrightarrow> reach asm_start asm_step (lr_assembler r, asm_events r) \<and> fed (asm_events r) \<subseteq> accepted_packets r \<and>
     (\<forall>f \<in> set (frames_out r). complete_frame r f) \<and> spaced_warnings r \<and> \<not> out_of_bounds r"

lemma rcv_inv_cong:
  assumes "lr_assembler t = lr_assembler r" "asm_events t = asm_events r" "received_data t = received_data r"
    "lr_config t = lr_config r" "frames_out t = frames_out r" "warnings_out t = warnings_out r"
    "lr_last_warning t = lr_last_warning r" "out_of_bounds t = out_of_bounds r"
  shows "rcv_inv t = rcv_inv r"
  using assms by (simp add: rcv_inv_def accepted_packets_def complete_frame_def carried_def spaced_warnings_def)

lemma rcv_inv_received:
  assumes "rcv_inv r"
  shows "rcv_inv (r\<lparr>received_data := received_data r @ [d]\<rparr>)"
  using assms unfolding rcv_inv_def accepted_packets_def complete_frame_def carried_def spaced_warnings_def
  by (simp add: subset_iff)

lemma rcv_inv_warn:
  assumes "rcv_inv r"
  shows "rcv_inv (warn_if_due now reason r)"
proof (cases "lr_has_warning r \<and> ms 1000 \<le> now - lr_last_warning r")
  case True
  let ?w = "warnings_out r"
  let ?t = "r\<lparr>lr_last_warning := now, warnings_out := ?w @ [(now, reason)]\<rparr>"
  have "ms 1000 \<le> fst ((?w @ [(now, reason)]) ! Suc i) - fst ((?w @ [(now, reason)]) ! i)"
    if "Suc i < Suc (length ?w)" for i
  proof (cases "Suc i < length ?w")
    case False
    then have "i = length ?w - 1" "?w \<noteq> []"
      using that by auto
    then show ?thesis
      using True assms by (simp add: rcv_inv_def spaced_warnings_def nth_append last_conv_nth)
  qed (use assms in \<open>simp add: rcv_inv_def spaced_warnings_def nth_append\<close>)
  then have "spaced_warnings ?t"
    by (simp add: spaced_warnings_def)
  then have "rcv_inv ?t"
    using assms by (simp add: rcv_inv_def accepted_packets_def complete_frame_def carried_def)
  then show ?thesis
    using True by (simp add: warn_if_due_def should_emit_warning_def)
next
  case False
  then show ?thesis
    using assms by (auto simp: warn_if_due_def should_emit_warning_def)
qed

lemma asm_reach_step:
  "reach asm_start asm_step (a, H) \<Longrightarrow> event_time e < time_point_max \<Longrightarrow>
     reach asm_start asm_step (fst (asm_apply a e), H @ [e])"
  by (rule reach_step [of asm_start asm_step "(a, H)" e]) (simp_all add: asm_step_def)

lemma rcv_inv_expire:
  assumes "rcv_inv r" "now < time_point_max"
  shows "rcv_inv (expire_frames now r)"
proof -
  have "fed (H @ [Tick now]) = fed H" for H
    by (auto simp: fed_def)
  then show ?thesis
    using assms asm_reach_step [of "lr_assembler r" "asm_events r" "Tick now"]
    by (simp add: rcv_inv_def expire_frames_def accepted_packets_def complete_frame_def carried_def spaced_warnings_def)
qed

lemma rcv_inv_feed:
  assumes "rcv_inv r" "now < time_point_max" "p \<in> accepted_packets r"
  shows "rcv_inv (feed_assembler now p r)"
proof -
  obtain a frame where ap: "add_packet now (lr_assembler r) p = (a, frame)"
    by fastforce
  let ?t = "r\<lparr>lr_assembler := a, asm_events := asm_events r @ [Feed now p]\<rparr>"
  have fed: "fed (asm_events r @ [Feed now p]) = insert p (fed (asm_events r))"
    by (auto simp: fed_def)
  have t: "rcv_inv ?t"
    using assms asm_reach_step [of "lr_assembler r" "asm_events r" "Feed now p"] ap
    by (simp add: rcv_inv_def fed accepted_packets_def complete_frame_def carried_def spaced_warnings_def)
  show ?thesis
  proof (cases frame)
    case None
    then show ?thesis
      using t ap by (simp add: feed_assembler_def)
  next
    case (Some f)
    have h: "history_inv (lr_assembler r, asm_events r)"
      using assms(1) assembler.inv_reach by (simp add: rcv_inv_def)
    have ap': "add_packet now (lr_assembler r) p = (a, Some f)"
      using ap Some by simp
    obtain m where m: "tiles m f" "0 < unat (fr_total_points f)"
      by (rule frame_tiled [OF h assms(2) ap'])
    have "insert p (fed (asm_events r)) \<subseteq> accepted_packets r"
      using assms(1,3) by (simp add: rcv_inv_def)
    then have "carried r f k" if "k < length (fr_points f)" for k
      using frame_point_origin [OF h assms(2) ap' that] unfolding carried_def accepted_packets_def by blast
    then have "complete_frame r f"
      using tiles_simps(3) [OF m(1)] m(2) by (auto simp: complete_frame_def)
    then have "rcv_inv (?t\<lparr>frames_out := frames_out r @ [f]\<rparr>)"
      using t by (auto simp: rcv_inv_def accepted_packets_def complete_frame_def carried_def spaced_warnings_def)
    then show ?thesis
      using t ap' by (simp add: feed_assembler_def Let_def)
  qed
qed

lemma parse_defined: "ParsePointCloudPacket (Some d) c \<noteq> None" "ParseOdometryPacket (Some d) c \<noteq> None"
  using ParsePointCloudPacket_in_bounds ParseOdometryPacket_in_bounds by (auto simp: in_bounds_def)

lemma rcv_inv_point_cloud:
  assumes "rcv_inv r" "t < time_point_max" "v < time_point_max"
  shows "rcv_inv (loop_point_cloud got t u v r)"
proof (cases got)
  case None
  then show ?thesis
    using assms by (simp add: loop_point_cloud_def rcv_inv_expire)
next
  case (Some d)
  let ?r = "r\<lparr>received_data := received_data r @ [d]\<rparr>"
  obtain p where p: "ParsePointCloudPacket (Some d) (lr_config r) = Some p"
    using parse_defined by blast
  have "p \<in> accepted_packets ?r" if "pk_ok p"
    using that p by (auto simp: accepted_packets_def)
  then show ?thesis
    using Some p assms rcv_inv_received [OF assms(1), of d]
    by (simp add: loop_point_cloud_def Let_def rcv_inv_expire rcv_inv_feed rcv_inv_warn)
qed

lemma rcv_inv_odometry:
  assumes "rcv_inv r"
  shows "rcv_inv (loop_odometry got u r)"
proof (cases got)
  case (Some d)
  obtain p where "ParseOdometryPacket (Some d) (lr_config r) = Some p"
    using parse_defined by blast
  then show ?thesis
    using Some rcv_inv_received [OF assms, of d]
    by (auto simp: loop_odometry_def Let_def rcv_inv_warn intro: rcv_inv_cong [THEN iffD2, rotated -1])
qed (use assms in \<open>simp add: loop_odometry_def\<close>)

lemma rcv_inv_next: "rcv_inv r \<Longrightarrow> readable_times l \<Longrightarrow> rcv_inv (rcv_next l r)"
proof (cases l)
  case (Iterate got t u v)
  have phase: "rcv_inv s \<Longrightarrow> rcv_inv (s\<lparr>lr_phase := x\<rparr>)" for s x
    by (subst rcv_inv_cong) simp_all
  show "rcv_inv r \<Longrightarrow> readable_times l \<Longrightarrow> ?thesis"
    using Iterate
    by (simp add: loop_iteration_def Let_def phase rcv_inv_point_cloud rcv_inv_odometry split: LidarStreamKind.split)
qed (auto simp: receiver_start_def receiver_stop_def loop_check_def cong: rcv_inv_cong intro: rcv_inv_cong [THEN iffD2, rotated -1])

lemma rcv_inv_start: "rcv_start r \<Longrightarrow> rcv_inv r"
  by (auto simp: rcv_start_def LidarStreamReceiver_def rcv_inv_def fed_def spaced_warnings_def asm_start_def
      intro!: reach_start)

interpretation receiver: invariant_system rcv_start rcv_step rcv_inv
  by unfold_locales (auto simp: rcv_inv_start rcv_inv_next rcv_step_def)

section \<open>The receiver on a UDP source\<close>

text \<open>
  The two objects of a stream together: each iteration first calls \<^verbatim>\<open>receive\<close> on the source, with a
  fresh buffer and a timeout of 50 ms. The ghost list pairs each delivered datagram with the address
  it came from.
\<close>

record stream =
  st_udp :: udp
  st_rcv :: rcv
  st_senders :: "(string \<times> byte list) list"

definition receive_and_process :: "recv_reply \<Rightarrow> time \<Rightarrow> time \<Rightarrow> time \<Rightarrow> stream \<Rightarrow> stream" where
  "receive_and_process reply t u v s =
     (if lr_phase (st_rcv s) \<noteq> Receiving then s
      else let (got, buffer, source) = udp_receive reply 50 [] (st_udp s);
               s = s\<lparr>st_udp := source,
                     st_senders := st_senders s @ (if got then [(rr_from reply, buffer)] else [])\<rparr>
           in s\<lparr>st_rcv := loop_iteration (if got then Some buffer else None) t u v (st_rcv s)\<rparr>)"

datatype stream_label = Control rcv_label | Receive recv_reply time time time

definition stream_start :: "stream \<Rightarrow> bool" where
  "stream_start s \<longleftrightarrow> rcv_start (st_rcv s) \<and> st_senders s = [] \<and>
     (\<exists>r ip. st_udp s = fst (UdpLidarDatagramSource r ip))"

inductive stream_step :: "stream \<Rightarrow> stream_label \<Rightarrow> stream \<Rightarrow> bool" where
  control: "l \<in> {StartCall, StopCall, Check} \<Longrightarrow>
     stream_step s (Control l) (s\<lparr>st_rcv := rcv_next l (st_rcv s)\<rparr>)"
| receive: "t < time_point_max \<Longrightarrow> v < time_point_max \<Longrightarrow>
     stream_step s (Receive reply t u v) (receive_and_process reply t u v s)"

definition trusted :: "stream \<Rightarrow> string \<Rightarrow> bool" where
  "trusted s ip \<longleftrightarrow> expected_source_ip (st_udp s) = [] \<or> ip = expected_source_ip (st_udp s)"

definition stream_inv :: "stream \<Rightarrow> bool" where
  "stream_inv s \<longleftrightarrow> rcv_inv (st_rcv s) \<and> received_data (st_rcv s) = map snd (st_senders s) \<and>
     (\<forall>(ip, d) \<in> set (st_senders s). trusted s ip) \<and>
     us_received (udp_stats (st_udp s)) = length (st_senders s)"

lemma received_data_unchanged [simp]:
  "received_data (warn_if_due now reason r) = received_data r"
  "received_data (feed_assembler now p r) = received_data r"
  "received_data (expire_frames now r) = received_data r"
  by (auto simp: warn_if_due_def should_emit_warning_def feed_assembler_def expire_frames_def Let_def
      split: prod.split option.split)

lemma received_data_iteration:
  "received_data (loop_iteration got t u v r) = received_data r @ (case got of None \<Rightarrow> [] | Some d \<Rightarrow> [d])"
  by (auto simp: loop_iteration_def loop_odometry_def loop_point_cloud_def Let_def
      split: LidarStreamKind.split option.split)

lemma received_data_control:
  "l \<in> {StartCall, StopCall, Check} \<Longrightarrow> received_data (rcv_next l r) = received_data r"
  by (auto simp: receiver_start_def receiver_stop_def loop_check_def)

text \<open>Every call of \<^verbatim>\<open>receive\<close>: the counters, the result and the buffer.\<close>

lemma udp_receive_cases:
  obtains (received) "udp_receive reply timeout out u = (True, out @ take (nat (rr_count reply)) (rr_bytes reply),
      u\<lparr>udp_stats := (udp_stats u)\<lparr>us_received := us_received (udp_stats u) + 1\<rparr>\<rparr>)"
      "valid u" "0 < rr_poll reply (poll_timeout timeout)" "0 \<le> rr_count reply"
      "expected_source_ip u = [] \<or> rr_from reply = expected_source_ip u"
  | (refused) st where "udp_receive reply timeout out u = (False, out, u\<lparr>udp_stats := st\<rparr>)"
      "us_received st = us_received (udp_stats u)"
      "us_dropped_source st + us_timeouts st + us_errors st =
       Suc (us_dropped_source (udp_stats u) + us_timeouts (udp_stats u) + us_errors (udp_stats u))"
proof (cases "valid u \<and> 0 < rr_poll reply (poll_timeout timeout) \<and> 0 \<le> rr_count reply \<and>
    (expected_source_ip u = [] \<or> rr_from reply = expected_source_ip u)")
  case True
  then show thesis
    by (intro received) (auto simp: udp_receive_def Let_def valid_def)
next
  case False
  define st where "st = udp_stats (snd (snd (udp_receive reply timeout out u)))"
  have "udp_receive reply timeout out u = (False, out, u\<lparr>udp_stats := st\<rparr>)"
    "us_received st = us_received (udp_stats u)"
    "us_dropped_source st + us_timeouts st + us_errors st =
       Suc (us_dropped_source (udp_stats u) + us_timeouts (udp_stats u) + us_errors (udp_stats u))"
    using False by (auto simp: st_def udp_receive_def Let_def valid_def)
  then show thesis
    by (rule refused)
qed

lemma stream_inv_step: "stream_step s l t \<Longrightarrow> stream_inv s \<Longrightarrow> stream_inv t"
proof (induction rule: stream_step.induct)
  case (control k s)
  then show ?case
    using rcv_inv_next [of "st_rcv s" k] received_data_control [of k "st_rcv s"]
    by (auto simp: stream_inv_def trusted_def)
next
  case (receive x v s reply u)
  then have r: "rcv_inv (st_rcv s)" "readable_times (Iterate got x u v)" for got
    by (simp_all add: stream_inv_def)
  have it: "lr_phase (st_rcv s) = Receiving \<Longrightarrow> rcv_inv (loop_iteration got x u v (st_rcv s))" for got
    using rcv_inv_next [OF r, of got] by simp
  show ?case
    by (cases rule: udp_receive_cases [of reply 50 "[]" "st_udp s"])
      (use receive it in \<open>auto simp: receive_and_process_def stream_inv_def trusted_def received_data_iteration\<close>)
qed

lemma stream_inv_start: "stream_start s \<Longrightarrow> stream_inv s"
  by (auto simp: stream_start_def stream_inv_def rcv_inv_start UdpLidarDatagramSource_def Let_def
      zero_udp_stats_def rcv_start_def LidarStreamReceiver_def)

interpretation lidar_stream: invariant_system stream_start stream_step stream_inv
  by unfold_locales (blast intro: stream_inv_start stream_inv_step)+

section \<open>After a stop\<close>

text \<open>How many datagrams the receive thread still takes once a stop was requested.\<close>

definition in_hand :: "rcv \<Rightarrow> nat" where
  "in_hand r = (if lr_phase r = Receiving then 1 else 0)"

definition stopped :: "rcv \<Rightarrow> bool" where
  "stopped r \<longleftrightarrow> lr_stop_requested r \<and> \<not> lr_running r"

lemma control_flags_unchanged [simp]:
  "lr_stop_requested (warn_if_due now reason r) = lr_stop_requested r"
  "lr_stop_requested (feed_assembler now p r) = lr_stop_requested r"
  "lr_stop_requested (expire_frames now r) = lr_stop_requested r"
  "lr_running (warn_if_due now reason r) = lr_running r"
  "lr_running (feed_assembler now p r) = lr_running r"
  "lr_running (expire_frames now r) = lr_running r"
  "lr_start_called (warn_if_due now reason r) = lr_start_called r"
  "lr_start_called (feed_assembler now p r) = lr_start_called r"
  "lr_start_called (expire_frames now r) = lr_start_called r"
  by (auto simp: warn_if_due_def should_emit_warning_def feed_assembler_def expire_frames_def Let_def
      split: prod.split option.split)

lemma control_flags_iteration [simp]:
  "lr_stop_requested (loop_iteration got t u v r) = lr_stop_requested r"
  "lr_running (loop_iteration got t u v r) = lr_running r"
  "lr_start_called (loop_iteration got t u v r) = lr_start_called r"
  "lr_phase (loop_iteration got t u v r) = AtCheck"
  by (auto simp: loop_iteration_def loop_odometry_def loop_point_cloud_def Let_def
      split: LidarStreamKind.split option.split)

lemma stopped_step:
  assumes "stopped r"
  shows "stopped (rcv_next l r)"
    and "length (received_data (rcv_next l r)) + in_hand (rcv_next l r) \<le> length (received_data r) + in_hand r"
    and "lr_phase r \<noteq> Receiving \<Longrightarrow> lr_phase (rcv_next l r) \<in> {lr_phase r, Returned}"
  using assms
  by (cases l; auto simp: stopped_def in_hand_def receiver_start_def receiver_stop_def loop_check_def
      received_data_iteration split: option.split)+

lemma stopped_run:
  assumes "run rcv_step r es t" "stopped r"
  shows "stopped t" "length (received_data t) + in_hand t \<le> length (received_data r) + in_hand r"
    "lr_phase r \<noteq> Receiving \<Longrightarrow> lr_phase t \<in> {lr_phase r, Returned}"
  using assms
proof (induction rule: run.induct)
  case (run_cons s e t es u)
  have t: "t = rcv_next e s"
    using run_cons.hyps by (simp add: rcv_step_def)
  { case 1 with run_cons t stopped_step show ?case by simp }
  { case 2 with run_cons t stopped_step [of s e] show ?case by force }
  { case 3 with run_cons t stopped_step [of s e] show ?case by force }
qed auto

lemma iteration_ends:
  assumes "stopped r" "lr_phase r \<noteq> NoThread"
  shows "lr_phase (rcv_next (Iterate got x u v) r) \<in> {AtCheck, Returned}"
  using assms by (cases "lr_phase r") auto

lemma check_returns:
  assumes "stopped r" "lr_phase r \<in> {AtCheck, Returned}"
  shows "lr_phase (rcv_next Check r) = Returned"
  using assms by (auto simp: stopped_def loop_check_def)

lemma started_stays:
  assumes "run rcv_step r es t" "lr_phase r \<noteq> NoThread"
  shows "lr_phase t \<noteq> NoThread"
  using assms
proof (induction rule: run.induct)
  case (run_cons s e t es u)
  have "lr_phase (rcv_next e s) \<noteq> NoThread"
    using run_cons.prems by (cases e) (auto simp: receiver_start_def receiver_stop_def loop_check_def)
  then show ?case
    using run_cons by (simp add: rcv_step_def)
qed

lemma stopped_returns:
  assumes "run rcv_step r (es1 @ Iterate got x u v # es2 @ Check # es3) t" "stopped r" "lr_phase r \<noteq> NoThread"
  shows "lr_phase t = Returned"
proof -
  obtain a b c where a: "run rcv_step r es1 a" "b = rcv_next (Iterate got x u v) a"
      "run rcv_step b es2 c" "run rcv_step (rcv_next Check c) es3 t"
    using assms(1) by (auto dest!: run_split simp: rcv_step_def simp del: rcv_next.simps)
  have sa: "stopped a" and pa: "lr_phase a \<noteq> NoThread"
    using stopped_run(1) [OF a(1) assms(2)] started_stays [OF a(1)] assms(3) by simp_all
  have pb: "lr_phase b \<in> {AtCheck, Returned}" and sb: "stopped b"
    unfolding a(2) by (rule iteration_ends [OF sa pa], rule stopped_step(1) [OF sa])
  have pc: "lr_phase c \<in> {AtCheck, Returned}" and sc: "stopped c"
    using stopped_run(1,3) [OF a(3) sb] pb by auto
  show ?thesis
    using stopped_run(3) [OF a(4) stopped_step(1) [OF sc]] check_returns [OF sc pc] by simp
qed

section \<open>Refinement of the assembler\<close>

text \<open>The assembler alone, over a list of calls: its final state and the frames it returned.\<close>

fun assemble :: "asm \<Rightarrow> asm_event list \<Rightarrow> asm \<times> PointCloudFrame list" where
  "assemble a [] = (a, [])"
| "assemble a (e # es) =
     (let (b, f) = asm_apply a e; (c, fs) = assemble b es
      in (c, case f of None \<Rightarrow> fs | Some x \<Rightarrow> x # fs))"

fun fed_packets :: "asm_event list \<Rightarrow> PointCloudPacketResult list" where
  "fed_packets [] = []"
| "fed_packets (Feed now p # es) = p # fed_packets es"
| "fed_packets (Tick now # es) = fed_packets es"

definition accepted_parses :: "LidarParseConfig \<Rightarrow> byte list list \<Rightarrow> PointCloudPacketResult list" where
  "accepted_parses c ds = filter pk_ok (List.map_filter (\<lambda>d. ParsePointCloudPacket (Some d) c) ds)"

definition refines_assembler :: "asm \<Rightarrow> rcv \<Rightarrow> bool" where
  "refines_assembler a r \<longleftrightarrow> lr_assembler r = fst (assemble a (asm_events r)) \<and>
     frames_out r = (if lr_has_on_frame r then snd (assemble a (asm_events r)) else []) \<and>
     (lr_kind r = PointCloud \<longrightarrow> fed_packets (asm_events r) = accepted_parses (lr_config r) (received_data r))"

lemma assemble_snoc:
  "assemble a (H @ [e]) = (let (b, fs) = assemble a H; (c, f) = asm_apply b e
     in (c, fs @ (case f of None \<Rightarrow> [] | Some x \<Rightarrow> [x])))"
  by (induction H arbitrary: a) (auto split: prod.split option.split)

lemma fed_packets_append [simp]: "fed_packets (H @ K) = fed_packets H @ fed_packets K"
  by (induction H rule: fed_packets.induct) auto

lemma accepted_parses_snoc:
  "ParsePointCloudPacket (Some d) c = Some p \<Longrightarrow>
     accepted_parses c (ds @ [d]) = accepted_parses c ds @ (if pk_ok p then [p] else [])"
  by (simp add: accepted_parses_def List.map_filter_def)

lemma refines_cong:
  assumes "lr_assembler t = lr_assembler r" "asm_events t = asm_events r" "received_data t = received_data r"
    "lr_config t = lr_config r" "frames_out t = frames_out r" "lr_has_on_frame t = lr_has_on_frame r"
    "lr_kind t = lr_kind r"
  shows "refines_assembler a t = refines_assembler a r"
  using assms by (simp add: refines_assembler_def)

lemma refines_warn: "refines_assembler a (warn_if_due now reason r) = refines_assembler a r"
  by (rule refines_cong) (auto simp: warn_if_due_def should_emit_warning_def)

lemma refines_expire: "refines_assembler a r \<Longrightarrow> refines_assembler a (expire_frames now r)"
  by (auto simp: refines_assembler_def expire_frames_def assemble_snoc split: prod.split)

lemma refines_point_cloud:
  assumes "refines_assembler a r" "lr_kind r = PointCloud"
  shows "refines_assembler a (loop_point_cloud got t u v r)"
proof (cases got)
  case None
  then show ?thesis
    using assms by (simp add: loop_point_cloud_def refines_expire)
next
  case (Some d)
  let ?r = "r\<lparr>received_data := received_data r @ [d]\<rparr>"
  obtain p where p: "ParsePointCloudPacket (Some d) (lr_config r) = Some p"
    using parse_defined by blast
  have "refines_assembler a (feed_assembler t p ?r)" if "pk_ok p"
    using that assms
    by (auto simp: refines_assembler_def feed_assembler_def Let_def assemble_snoc accepted_parses_snoc [OF p]
        split: prod.split option.split)
  moreover have "refines_assembler a ?r" if "\<not> pk_ok p"
    using that assms by (auto simp: refines_assembler_def accepted_parses_snoc [OF p])
  ultimately show ?thesis
    using Some p by (simp add: loop_point_cloud_def Let_def refines_expire refines_warn)
qed

lemma refines_odometry:
  assumes "refines_assembler a r" "lr_kind r = Odometry"
  shows "refines_assembler a (loop_odometry got u r)"
proof -
  have received: "refines_assembler a (r\<lparr>received_data := ds\<rparr>)"
    "refines_assembler a (r\<lparr>received_data := ds, odometry_out := os\<rparr>)"
    "refines_assembler a (r\<lparr>received_data := ds, out_of_bounds := b\<rparr>)" for ds os b
    using assms by (simp_all add: refines_assembler_def)
  show ?thesis
    using assms(1) by (auto simp: loop_odometry_def Let_def refines_warn received split: option.split)
qed

lemma refines_next: "refines_assembler a r \<Longrightarrow> refines_assembler a (rcv_next l r)"
proof (cases l)
  case (Iterate got t u v)
  have phase: "refines_assembler a (s\<lparr>lr_phase := x\<rparr>) = refines_assembler a s" for s x
    by (rule refines_cong) simp_all
  show "refines_assembler a r \<Longrightarrow> ?thesis"
    using Iterate
    by (auto simp: loop_iteration_def Let_def phase refines_point_cloud refines_odometry split: LidarStreamKind.split)
qed (auto simp: receiver_start_def receiver_stop_def loop_check_def refines_assembler_def)

lemma refines_start: "refines_assembler (PointCloudFrameAssembler ac) (LidarStreamReceiver k c ac x y z)"
  by (simp add: LidarStreamReceiver_def refines_assembler_def accepted_parses_def List.map_filter_def)

definition refined :: "rcv \<Rightarrow> bool" where
  "refined r \<longleftrightarrow> (\<exists>ac. refines_assembler (PointCloudFrameAssembler ac) r)"

interpretation receiver_refinement: invariant_system rcv_start rcv_step refined
  by unfold_locales (auto simp: refined_def rcv_step_def rcv_start_def dest: refines_next intro: refines_start)

section \<open>Properties\<close>

text \<open>
  C20. The receive thread refines the assembler: at every moment the point-cloud receiver's assembler is
  the one that results from feeding a fresh assembler exactly the accepted parses of the datagrams
  received, in their order (with the expiry ticks in between), and, when a frame callback is set, the
  frames delivered to it are exactly the frames that assembler returned, in order.
\<close>

theorem receiver_refines_assembler:
  assumes "reach rcv_start rcv_step r" "lr_kind r = PointCloud" "lr_has_on_frame r"
  shows "\<exists>ac. assemble (PointCloudFrameAssembler ac) (asm_events r) = (lr_assembler r, frames_out r) \<and>
    fed_packets (asm_events r) = accepted_parses (lr_config r) (received_data r)"
proof -
  have "refined r"
    by (rule receiver_refinement.inv_reach [OF assms(1)])
  then show ?thesis
    using assms(2,3) by (auto simp: refined_def refines_assembler_def)
qed

text \<open>
  C19. Delivered frames come from the configured sensor: every frame a stream delivers has exactly the
  announced number of points, at least one, and each point was carried, at its own offset, by an accepted
  datagram of the same frame; when a source address is configured, the datagram came from that address.
\<close>

theorem frames_from_expected_sender:
  assumes "reach stream_start stream_step s" "f \<in> set (frames_out (st_rcv s))"
  shows "length (fr_points f) = unat (fr_total_points f) \<and> fr_points f \<noteq> [] \<and>
    (\<forall>k < length (fr_points f). \<exists>ip d q. (ip, d) \<in> set (st_senders s) \<and>
       (expected_source_ip (st_udp s) \<noteq> [] \<longrightarrow> ip = expected_source_ip (st_udp s)) \<and>
       ParsePointCloudPacket (Some d) (lr_config (st_rcv s)) = Some q \<and> pk_ok q \<and>
       pk_timestamp_ns q = fr_timestamp_ns f \<and> pk_total q = fr_total_points f \<and>
       unat (pk_index q) \<le> k \<and> k < unat (pk_index q) + length (pk_points q) \<and>
       fr_points f ! k = pk_points q ! (k - unat (pk_index q)))"
proof -
  have inv: "stream_inv s"
    by (rule lidar_stream.inv_reach [OF assms(1)])
  then have f: "complete_frame (st_rcv s) f"
    using assms(2) by (simp add: stream_inv_def rcv_inv_def)
  have "\<exists>ip. (ip, d) \<in> set (st_senders s) \<and>
      (expected_source_ip (st_udp s) \<noteq> [] \<longrightarrow> ip = expected_source_ip (st_udp s))"
    if "d \<in> set (received_data (st_rcv s))" for d
    using inv that by (fastforce simp: stream_inv_def trusted_def)
  then show ?thesis
    using f unfolding complete_frame_def carried_def by blast
qed

text \<open>
  Parse warnings are throttled: two consecutive warnings handed to the warning callback are at least
  one second apart, whatever is received.
\<close>

theorem warnings_throttled:
  assumes "reach rcv_start rcv_step r" "Suc i < length (warnings_out r)"
  shows "ms 1000 \<le> fst (warnings_out r ! Suc i) - fst (warnings_out r ! i)"
  using receiver.inv_reach [OF assms(1)] assms(2) by (simp add: rcv_inv_def spaced_warnings_def)

text \<open>
  A stop takes effect within one iteration: once \<^verbatim>\<open>stop\<close> was called, in any continuation
  (further starts and stops included) the receiver never reports running again, takes at most the one
  datagram its thread was waiting for, and the receive thread, if there is one, has returned as soon as it
  made one more iteration and one more check.
\<close>

theorem receiver_stop_is_prompt:
  assumes "run rcv_step (receiver_stop r) es t"
  shows "\<not> running t \<and>
    length (received_data t) \<le> length (received_data r) + (if lr_phase r = Receiving then 1 else 0) \<and>
    (lr_phase r \<noteq> NoThread \<longrightarrow> (\<forall>es1 got x u v es2 es3.
       es = es1 @ Iterate got x u v # es2 @ Check # es3 \<longrightarrow> lr_phase t = Returned))"
proof (intro conjI impI allI)
  have st: "stopped (receiver_stop r)"
    by (simp add: stopped_def receiver_stop_def)
  show "\<not> running t"
    using stopped_run(1) [OF assms st] by (simp add: running_def stopped_def)
  show "length (received_data t) \<le> length (received_data r) + (if lr_phase r = Receiving then 1 else 0)"
    using stopped_run(2) [OF assms st] by (simp add: in_hand_def receiver_stop_def split: if_splits)
  fix es1 got x u v es2 es3
  assume "lr_phase r \<noteq> NoThread" "es = es1 @ Iterate got x u v # es2 @ Check # es3"
  then show "lr_phase t = Returned"
    using stopped_returns [OF _ st] assms by (simp add: receiver_stop_def)
qed

section \<open>Witnesses\<close>

definition ex_cloud :: "byte list" where
  "ex_cloud = encode_cloud [] [] [] 99 1 0 [example_point]"

definition ex_parsed :: PointCloudPacketResult where
  "ex_parsed = empty_packet_result\<lparr>pk_timestamp_ns := 99, pk_total := 1, pk_index := 0, pk_pos_num := 1,
     pk_points := [decoded_point example_config example_point], pk_ok := True\<rparr>"

lemma ex_cloud_parsed: "ParsePointCloudPacket (Some ex_cloud) example_config = Some ex_parsed"
proof -
  have "ParsePointCloudWithLayout ex_cloud kPackedCloud
      example_config empty_packet_result = Some (True, empty_packet_result\<lparr>pk_timestamp_ns := 99,
     pk_total := ucast (1 :: u32), pk_index := 0, pk_pos_num := of_nat (length [example_point]),
     pk_points := map (decoded_point example_config) [example_point], pk_ok := True\<rparr>)"
    unfolding ex_cloud_def by (rule with_layout_encoded [OF example_config_valid _ _ _ _ layouts_wf(1)])
      (use layouts_pack(1) in \<open>simp_all add: valid_tail_pad_def kMaxPosNum_def\<close>)
  then show ?thesis
    using example_config_valid
    by (simp add: ParsePointCloudPacket_def head_encoded encode_cloud_length ex_cloud_def ex_parsed_def)
qed

definition ex_rcv :: rcv where
  "ex_rcv = LidarStreamReceiver PointCloud example_config ex_asm_config True True True"

definition ex_rcv_run :: "rcv_label list \<Rightarrow> rcv" where
  "ex_rcv_run ls = fold rcv_next ls ex_rcv"

lemma run_fold: "list_all readable_times ls \<Longrightarrow> run rcv_step r ls (fold rcv_next ls r)"
  by (induction ls arbitrary: r) (auto intro!: run.intros simp: rcv_step_def)

lemma ex_rcv_reached: "list_all readable_times ls \<Longrightarrow> reach rcv_start rcv_step (ex_rcv_run ls)"
  unfolding ex_rcv_run_def
  by (rule reach_run [OF run_fold]) (use rcv_start_def ex_rcv_def in \<open>blast intro: reach_start\<close>)+

lemmas rcv_eval = receiver_start_def receiver_stop_def loop_check_def loop_iteration_def loop_point_cloud_def
  feed_assembler_def expire_frames_def warn_if_due_def should_emit_warning_def

definition ex_frame :: PointCloudFrame where
  "ex_frame = \<lparr>fr_timestamp_ns = 99, fr_total_points = 1, fr_points = [decoded_point example_config example_point]\<rparr>"

definition ex_receiving :: rcv where
  "ex_receiving = ex_rcv\<lparr>lr_start_called := True, lr_running := True, lr_phase := Receiving\<rparr>"

lemma ex_receiving_run: "rcv_next Check (rcv_next StartCall ex_rcv) = ex_receiving"
  by (simp add: rcv_eval ex_rcv_def ex_receiving_def LidarStreamReceiver_def)

definition ex_iterated :: rcv where
  "ex_iterated = loop_iteration (Some ex_cloud) 5 5 6 ex_receiving"

lemma ex_iterated_frames:
  "frames_out ex_iterated = [ex_frame]" "lr_kind ex_iterated = PointCloud" "lr_has_on_frame ex_iterated"
  by (simp_all add: rcv_eval ex_rcv_def ex_receiving_def LidarStreamReceiver_def ex_cloud_parsed asm_eval
      ex_parsed_def empty_packet_result_def ex_frame_def ex_iterated_def)

lemma ex_iterated_reached: "reach rcv_start rcv_step ex_iterated"
  using ex_rcv_reached [of "[StartCall, Check, Iterate (Some ex_cloud) 5 5 6]"] ex_receiving_run
  by (simp add: ex_rcv_run_def ex_receiving_def ex_iterated_def del: rcv_next.simps(1-3))

theorem receiver_refines_assembler_witness:
  "\<exists>ac. assemble (PointCloudFrameAssembler ac) (asm_events ex_iterated) = (lr_assembler ex_iterated, [ex_frame]) \<and>
    fed_packets (asm_events ex_iterated) = accepted_parses (lr_config ex_iterated) (received_data ex_iterated)"
  using receiver_refines_assembler [OF ex_iterated_reached ex_iterated_frames(2,3)]
  by (simp only: ex_iterated_frames(1))

definition ex_source :: udp where
  "ex_source = fst (UdpLidarDatagramSource \<lparr>sk_socket = 3, sk_pton = True, sk_bind = 0\<rparr> ''192.168.1.2'')"

definition ex_reply :: recv_reply where
  "ex_reply = \<lparr>rr_poll = (\<lambda>t. 1), rr_count = int (length ex_cloud), rr_bytes = ex_cloud, rr_from = ''192.168.1.2''\<rparr>"

definition ex_stream :: stream where
  "ex_stream = \<lparr>st_udp = ex_source\<lparr>udp_stats := zero_udp_stats\<lparr>us_received := 1\<rparr>\<rparr>, st_rcv = ex_iterated,
     st_senders = [(''192.168.1.2'', ex_cloud)]\<rparr>"

lemma ex_stream_reached: "reach stream_start stream_step ex_stream"
proof -
  let ?s = "\<lambda>r. \<lparr>st_udp = ex_source, st_rcv = r, st_senders = []\<rparr>"
  have "stream_start (?s ex_rcv)"
    unfolding stream_start_def rcv_start_def ex_rcv_def ex_source_def stream.select_convs by blast
  then have "reach stream_start stream_step (?s ex_rcv)"
    by (rule reach_start)
  then have "reach stream_start stream_step (?s (rcv_next StartCall ex_rcv))"
    by (rule reach_step) (use control [of StartCall "?s ex_rcv"] in simp)
  then have "reach stream_start stream_step (?s ex_receiving)"
    by (rule reach_step) (use control [of Check "?s (rcv_next StartCall ex_rcv)"] ex_receiving_run in simp)
  then have "reach stream_start stream_step (receive_and_process ex_reply 5 5 6 (?s ex_receiving))"
    by (rule reach_step) (rule receive; simp)
  then show ?thesis
    by (simp add: receive_and_process_def ex_receiving_def ex_stream_def ex_iterated_def udp_receive_def
        ex_reply_def ex_source_def UdpLidarDatagramSource_def zero_udp_stats_def)
qed

theorem frames_from_expected_sender_witness:
  "length (fr_points ex_frame) = unat (fr_total_points ex_frame) \<and>
   (\<exists>d q. (''192.168.1.2'', d) \<in> set (st_senders ex_stream) \<and>
      ParsePointCloudPacket (Some d) (lr_config (st_rcv ex_stream)) = Some q \<and> pk_ok q \<and>
      fr_points ex_frame ! 0 = pk_points q ! (0 - unat (pk_index q)))"
proof -
  have f: "ex_frame \<in> set (frames_out (st_rcv ex_stream))" "expected_source_ip (st_udp ex_stream) = ''192.168.1.2''"
      "0 < length (fr_points ex_frame)"
    by (simp_all add: ex_stream_def ex_iterated_frames ex_source_def UdpLidarDatagramSource_def ex_frame_def)
  note g = frames_from_expected_sender [OF ex_stream_reached f(1)]
  then have "length (fr_points ex_frame) = unat (fr_total_points ex_frame)"
    by blast
  moreover obtain ip d q where "(ip, d) \<in> set (st_senders ex_stream)"
      "expected_source_ip (st_udp ex_stream) \<noteq> [] \<longrightarrow> ip = expected_source_ip (st_udp ex_stream)"
      "ParsePointCloudPacket (Some d) (lr_config (st_rcv ex_stream)) = Some q" "pk_ok q"
      "fr_points ex_frame ! 0 = pk_points q ! (0 - unat (pk_index q))"
    using g f(3) by blast
  ultimately show ?thesis
    using f(2) by (intro conjI exI [of _ d] exI [of _ q]) simp_all
qed

definition ex_warned :: rcv where
  "ex_warned = ex_rcv_run [StartCall, Check, Iterate (Some []) 0 (ms 1000) 0, Check, Iterate (Some []) 0 (ms 1500) 0,
     Check, Iterate (Some []) 0 (ms 2500) 0]"

lemma ex_warned_out: "map fst (warnings_out ex_warned) = [ms 1000, ms 2500]"
  by (simp add: ex_warned_def ex_rcv_run_def rcv_eval ex_rcv_def LidarStreamReceiver_def ParsePointCloudPacket_def
      example_config_valid empty_packet_result_def ms_def)

theorem warnings_throttled_witness:
  "ms 1000 \<le> fst (warnings_out ex_warned ! Suc 0) - fst (warnings_out ex_warned ! 0)"
proof (rule warnings_throttled)
  show "reach rcv_start rcv_step ex_warned"
    unfolding ex_warned_def by (rule ex_rcv_reached) (simp add: time_point_max_def)
  show "Suc 0 < length (warnings_out ex_warned)"
    using arg_cong [OF ex_warned_out, of length] by simp
qed

theorem receiver_stop_is_prompt_witness:
  "lr_phase (fold rcv_next [StartCall, Iterate None 5 5 6, Check] (receiver_stop ex_receiving)) = Returned"
proof -
  let ?es = "[StartCall, Iterate None 5 5 6, Check]"
  have "run rcv_step (receiver_stop ex_receiving) ?es (fold rcv_next ?es (receiver_stop ex_receiving))"
    by (rule run_fold) simp
  moreover have "lr_phase ex_receiving \<noteq> NoThread" "?es = [StartCall] @ Iterate None 5 5 6 # [] @ Check # []"
    by (simp_all add: ex_receiving_def)
  ultimately show ?thesis
    using receiver_stop_is_prompt [of ex_receiving ?es] by metis
qed

end
