(* ===== verification/Network_Preflight.thy ===== *)
theory Network_Preflight
  imports Bridge_Prelude
begin

text \<open>
  The network preflight of \<^verbatim>\<open>network_preflight.cpp\<close>: the address parser, the evaluation of
  the probed facts, the parsers over the output of the \<^verbatim>\<open>ip\<close> command and
  \<^verbatim>\<open>LinuxNetworkPreflight::check\<close>. Two things are parameters: \<^verbatim>\<open>inet_pton\<close>, a predicate on
  address texts, and the command runner, a function from the calls made so far and the argument
  vector to exit status and captured output.
\<close>

section \<open>Data\<close>

record NetworkFacts =
  addresses :: "string list"
  route_interface :: string
  route_source :: string
  addresses_error :: string
  route_error :: string

record NetworkExpectation =
  ex_interface :: string
  ex_host_address :: string
  ex_robot_address :: string

record NetworkDecision =
  nd_ready :: bool
  nd_message :: string

record ParsedAddress =
  pa_address :: string
  pa_has_prefix :: bool
  pa_prefix :: int

section \<open>Library functions the source uses\<close>

definition isdigit :: "char \<Rightarrow> bool" where
  "isdigit c \<longleftrightarrow> (let n = (of_char c :: nat) in 48 \<le> n \<and> n \<le> 57)"

definition digit_value :: "char \<Rightarrow> int" where
  "digit_value c = int (of_char c :: nat) - 48"

definition decimal :: "string \<Rightarrow> int" where
  "decimal ds = foldl (\<lambda>v c. 10 * v + digit_value c) 0 ds"

text \<open>
  \<^verbatim>\<open>std::stoi\<close> in base 10: white space, an optional sign and digits; the value and the number
  of characters consumed, or \<open>None\<close> for the exceptions \<^verbatim>\<open>invalid_argument\<close> (no digit) and
  \<^verbatim>\<open>out_of_range\<close> (not an \<^verbatim>\<open>int\<close>).
\<close>

definition stoi :: "string \<Rightarrow> (int \<times> nat) option" where
  "stoi s =
     (let ws = takeWhile isspace s; r = dropWhile isspace s;
          sgn = (case r of c # _ \<Rightarrow> (if c = CHR ''-'' \<or> c = CHR ''+'' then [c] else []) | [] \<Rightarrow> []);
          ds = takeWhile isdigit (drop (length sgn) r);
          v = (if sgn = ''-'' then - decimal ds else decimal ds)
      in if ds = [] \<or> v < - (2 ^ 31) \<or> v \<ge> 2 ^ 31 then None
         else Some (v, length ws + length sgn + length ds))"

text \<open>\<^verbatim>\<open>std::getline\<close> over a whole stream: the lines of a text, without their line feeds.\<close>

function getlines :: "string \<Rightarrow> string list" where
  "getlines s = (if s = [] then []
     else takeWhile (\<lambda>c. c \<noteq> CHR 0x0A) s # getlines (tl (dropWhile (\<lambda>c. c \<noteq> CHR 0x0A) s)))"
  by pat_completeness auto
termination
proof (relation "measure length")
  fix s :: string
  assume "s \<noteq> []"
  then show "(tl (dropWhile (\<lambda>c. c \<noteq> CHR 0x0A) s), s) \<in> measure length"
    using length_dropWhile_le [of "\<lambda>c. c \<noteq> CHR 0x0A" s] by (cases s) auto
qed simp

declare getlines.simps [simp del]

text \<open>Repeated \<^verbatim>\<open>stream >> token\<close>: the maximal runs of non-white-space characters.\<close>

function get_tokens :: "string \<Rightarrow> string list" where
  "get_tokens s = (let r = dropWhile isspace s in
     if r = [] then [] else takeWhile (\<lambda>c. \<not> isspace c) r # get_tokens (dropWhile (\<lambda>c. \<not> isspace c) r))"
  by pat_completeness auto
termination
proof (relation "measure length")
  fix s r :: string
  assume r: "r = dropWhile isspace s" "r \<noteq> []"
  then have "\<not> isspace (hd r)"
    using hd_dropWhile by blast
  with r(2) have "length (dropWhile (\<lambda>c. \<not> isspace c) r) < length r"
    using length_dropWhile_le [of "\<lambda>c. \<not> isspace c" "tl r"] by (cases r) auto
  then show "(dropWhile (\<lambda>c. \<not> isspace c) r, s) \<in> measure length"
    using length_dropWhile_le [of isspace s] r(1) by simp
qed simp

declare get_tokens.simps [simp del]

section \<open>Operations\<close>

definition c_str :: "string \<Rightarrow> string" where
  "c_str s = takeWhile (\<lambda>c. c \<noteq> CHR 0x00) s"

definition parse_prefix :: "string \<Rightarrow> int option" where
  "parse_prefix prefix_text =
     (if prefix_text = [] then None
      else case stoi prefix_text of
        None \<Rightarrow> None
      | Some (prefix, consumed) \<Rightarrow>
          if consumed \<noteq> length prefix_text \<or> prefix < 0 \<or> prefix > 32 then None else Some prefix)"

definition parse_address :: "(string \<Rightarrow> bool) \<Rightarrow> string \<Rightarrow> ParsedAddress option" where
  "parse_address inet_pton cidr =
     (let finish = (\<lambda>rest has_prefix prefix.
            if rest = [] then None
            else if \<not> inet_pton (c_str rest) then None
            else Some \<lparr>pa_address = rest, pa_has_prefix = has_prefix, pa_prefix = prefix\<rparr>)
      in if CHR ''/'' \<in> set cidr
         then (case parse_prefix (tl (dropWhile (\<lambda>c. c \<noteq> CHR ''/'') cidr)) of
                 None \<Rightarrow> None
               | Some prefix \<Rightarrow> finish (takeWhile (\<lambda>c. c \<noteq> CHR ''/'') cidr) True prefix)
         else finish cidr False 0)"

definition join_failures :: "string \<Rightarrow> string \<Rightarrow> string" where
  "join_failures first second =
     (if first = [] then second else if second = [] then first else first @ ''; '' @ second)"

definition address_matches :: "(string \<Rightarrow> bool) \<Rightarrow> ParsedAddress \<Rightarrow> string \<Rightarrow> bool" where
  "address_matches inet_pton expected_host entry =
     (case parse_address inet_pton entry of
        None \<Rightarrow> False
      | Some parsed \<Rightarrow>
          if pa_address parsed \<noteq> pa_address expected_host then False
          else if pa_has_prefix parsed \<noteq> pa_has_prefix expected_host then False
          else if pa_has_prefix expected_host \<and> pa_prefix parsed \<noteq> pa_prefix expected_host then False
          else True)"

definition address_problem :: "(string \<Rightarrow> bool) \<Rightarrow> ParsedAddress \<Rightarrow> NetworkFacts \<Rightarrow>
    NetworkExpectation \<Rightarrow> string" where
  "address_problem inet_pton expected_host facts expected =
     (if addresses_error facts \<noteq> [] then ''could not read host addresses: '' @ addresses_error facts
      else if list_ex (address_matches inet_pton expected_host) (addresses facts) then []
      else ''host address '' @ quoted (ex_host_address expected) @ '' not found on any interface'')"

definition route_problem :: "ParsedAddress \<Rightarrow> NetworkFacts \<Rightarrow> NetworkExpectation \<Rightarrow> string" where
  "route_problem expected_host facts expected =
     (if route_error facts \<noteq> [] then
        ''could not determine route to '' @ quoted (ex_robot_address expected) @ '': '' @ route_error facts
      else if route_interface facts = [] then
        ''no route to robot address '' @ quoted (ex_robot_address expected)
      else if route_interface facts \<noteq> ex_interface expected then
        ''route to '' @ quoted (ex_robot_address expected) @ '' uses interface '' @
          quoted (route_interface facts) @ '', expected '' @ quoted (ex_interface expected)
      else if route_source facts \<noteq> pa_address expected_host then
        ''route to '' @ quoted (ex_robot_address expected) @ '' uses source address '' @
          quoted (route_source facts) @ '', expected '' @ quoted (pa_address expected_host)
      else [])"

definition evaluate_network :: "(string \<Rightarrow> bool) \<Rightarrow> NetworkFacts \<Rightarrow> NetworkExpectation \<Rightarrow>
    NetworkDecision" where
  "evaluate_network inet_pton facts expected =
     (case parse_address inet_pton (ex_host_address expected) of
        None \<Rightarrow> \<lparr>nd_ready = False, nd_message = ''expected host address '' @
            quoted (ex_host_address expected) @ '' is not a valid IPv4 address or CIDR''\<rparr>
      | Some expected_host \<Rightarrow>
          (let problem = join_failures (address_problem inet_pton expected_host facts expected)
                           (route_problem expected_host facts expected)
           in if problem = []
              then \<lparr>nd_ready = True, nd_message = ''network preflight ok: '' @ ex_host_address expected @
                  '' on '' @ ex_interface expected @ '', route to '' @ ex_robot_address expected @
                  '' via '' @ ex_interface expected\<rparr>
              else \<lparr>nd_ready = False, nd_message = problem\<rparr>))"

fun inet_tokens :: "string list \<Rightarrow> string list" where
  "inet_tokens [] = []"
| "inet_tokens (t # ts) = (if t = ''inet''
     then (case ts of [] \<Rightarrow> [] | cidr # ts' \<Rightarrow> cidr # inet_tokens ts')
     else inet_tokens ts)"

definition parse_ip_addr_output :: "string \<Rightarrow> string list \<Rightarrow> bool \<times> string list" where
  "parse_ip_addr_output output addrs =
     (let found = concat (map (inet_tokens \<circ> get_tokens) (getlines output))
      in (found \<noteq> [], addrs @ found))"

fun route_tokens :: "string list \<Rightarrow> string \<Rightarrow> string \<Rightarrow> string \<times> string" where
  "route_tokens [] dev src = (dev, src)"
| "route_tokens (t # ts) dev src =
     (if t = ''dev'' then (case ts of [] \<Rightarrow> (dev, src) | d # ts' \<Rightarrow> route_tokens ts' d src)
      else if t = ''src'' then (case ts of [] \<Rightarrow> (dev, src) | d # ts' \<Rightarrow> route_tokens ts' dev d)
      else route_tokens ts dev src)"

fun route_lines :: "string list \<Rightarrow> (string \<times> string) option" where
  "route_lines [] = None"
| "route_lines (l # ls) = (let (dev, src) = route_tokens (get_tokens l) [] [] in
     if dev \<noteq> [] \<and> src \<noteq> [] then Some (dev, src) else route_lines ls)"

definition parse_ip_route_get_output :: "string \<Rightarrow> (string \<times> string) option" where
  "parse_ip_route_get_output output = route_lines (getlines output)"

text \<open>\<^verbatim>\<open>std::to_string\<close> on an \<^verbatim>\<open>int\<close>.\<close>

fun digits_of :: "nat \<Rightarrow> string" where
  "digits_of n = (if n < 10 then [char_of (48 + n)] else digits_of (n div 10) @ [char_of (48 + n mod 10)])"

declare digits_of.simps [simp del]

definition to_string :: "int \<Rightarrow> string" where
  "to_string i = (if i < 0 then CHR ''-'' # digits_of (nat (- i)) else digits_of (nat i))"

type_synonym command_runner = "string list list \<Rightarrow> string list \<Rightarrow> int \<times> string \<times> string"

definition addr_command :: "string list" where
  "addr_command = [''ip'', ''-4'', ''-o'', ''addr'', ''show'']"

definition route_command :: "string \<Rightarrow> string list" where
  "route_command robot = [''ip'', ''-4'', ''-o'', ''route'', ''get'', robot]"

definition exit_note :: "string \<Rightarrow> int \<Rightarrow> string \<Rightarrow> string" where
  "exit_note cmd rc err =
     quoted cmd @ '' exited with status '' @ to_string rc @ (if err = [] then [] else '': '' @ err)"

definition probe_addresses :: "command_runner \<Rightarrow> NetworkFacts \<Rightarrow> NetworkFacts" where
  "probe_addresses runner facts =
     (let (rc, output, err) = runner [] addr_command in
      if rc \<noteq> 0 then facts\<lparr>addresses_error := exit_note ''ip -4 -o addr show'' rc err\<rparr>
      else (let (found, addrs) = parse_ip_addr_output output (addresses facts) in
        if \<not> found
        then facts\<lparr>addresses := addrs, addresses_error := quoted ''ip -4 -o addr show'' @ '' returned no IPv4 addresses''\<rparr>
        else facts\<lparr>addresses := addrs\<rparr>))"

definition probe_route :: "command_runner \<Rightarrow> string \<Rightarrow> NetworkFacts \<Rightarrow> NetworkFacts" where
  "probe_route runner robot facts =
     (let (rc, output, err) = runner [addr_command] (route_command robot) in
      if rc \<noteq> 0 then facts\<lparr>route_error := exit_note (''ip route get '' @ robot) rc err\<rparr>
      else (case parse_ip_route_get_output output of
        Some (device, source) \<Rightarrow> facts\<lparr>route_interface := device, route_source := source\<rparr>
      | None \<Rightarrow> facts\<lparr>route_error := quoted (''ip route get '' @ robot) @ '' produced unparseable output''\<rparr>))"

definition empty_facts :: NetworkFacts where
  "empty_facts = \<lparr>addresses = [], route_interface = [], route_source = [], addresses_error = [],
     route_error = []\<rparr>"

definition check :: "(string \<Rightarrow> bool) \<Rightarrow> command_runner \<Rightarrow> NetworkExpectation \<Rightarrow> NetworkDecision" where
  "check inet_pton runner expected =
     evaluate_network inet_pton
       (probe_route runner (ex_robot_address expected) (probe_addresses runner empty_facts)) expected"

section \<open>Lines and tokens\<close>

definition plain_token :: "string \<Rightarrow> bool" where
  "plain_token t \<longleftrightarrow> t \<noteq> [] \<and> (\<forall>c \<in> set t. \<not> isspace c)"

definition spaced :: "string list \<Rightarrow> string" where
  "spaced ts = concat (map (\<lambda>t. t @ '' '') ts)"

definition unlines :: "string list \<Rightarrow> string" where
  "unlines ls = concat (map (\<lambda>l. l @ [CHR 0x0A]) ls)"

lemma isspace_space [simp]: "isspace (CHR '' '')"
  by (simp add: isspace_def)

lemma isspace_newline [simp]: "isspace (CHR 0x0A)"
  by (simp add: isspace_def)

lemma plain_inet: "plain_token ''inet''"
  by (simp add: plain_token_def isspace_def)

lemma get_tokens_Nil [simp]: "get_tokens [] = []"
  by (simp add: get_tokens.simps)

lemma get_tokens_space [simp]: "get_tokens (CHR '' '' # s) = get_tokens s"
  by (subst (1 2) get_tokens.simps) simp

lemma get_tokens_token:
  assumes "plain_token t"
  shows "get_tokens (t @ CHR '' '' # s) = t # get_tokens s"
proof -
  have "dropWhile isspace (t @ CHR '' '' # s) = t @ CHR '' '' # s"
    using assms by (cases t) (auto simp: plain_token_def)
  moreover have "takeWhile (\<lambda>c. \<not> isspace c) (t @ CHR '' '' # s) = t"
    "dropWhile (\<lambda>c. \<not> isspace c) (t @ CHR '' '' # s) = CHR '' '' # s"
    using assms by (simp_all add: plain_token_def takeWhile_append2 dropWhile_append2)
  ultimately show ?thesis
    by (subst get_tokens.simps) (simp add: Let_def)
qed

lemma get_tokens_spaced: "\<forall>t \<in> set ts. plain_token t \<Longrightarrow> get_tokens (spaced ts) = ts"
  by (induction ts) (simp_all add: spaced_def get_tokens_token)

lemma getlines_line:
  assumes "CHR 0x0A \<notin> set l"
  shows "getlines (l @ CHR 0x0A # s) = l # getlines s"
proof -
  have *: "\<And>c. c \<in> set l \<Longrightarrow> c \<noteq> CHR 0x0A"
    using assms by blast
  then have "takeWhile (\<lambda>c. c \<noteq> CHR 0x0A) (l @ CHR 0x0A # s) = l"
    "dropWhile (\<lambda>c. c \<noteq> CHR 0x0A) (l @ CHR 0x0A # s) = CHR 0x0A # s"
    by (simp_all add: takeWhile_append2 dropWhile_append2)
  then show ?thesis
    by (subst getlines.simps) simp
qed

lemma getlines_unlines: "\<forall>l \<in> set ls. CHR 0x0A \<notin> set l \<Longrightarrow> getlines (unlines ls) = ls"
proof (induction ls)
  case Nil
  then show ?case
    by (simp add: unlines_def getlines.simps)
qed (simp add: unlines_def getlines_line)

lemma plain_no_newline: "plain_token t \<Longrightarrow> CHR 0x0A \<notin> set t"
  unfolding plain_token_def using isspace_newline by blast

lemma spaced_no_newline: "\<forall>t \<in> set ts. plain_token t \<Longrightarrow> CHR 0x0A \<notin> set (spaced ts)"
  by (induction ts) (simp_all add: spaced_def plain_no_newline)

lemma inet_tokens_before: "''inet'' \<notin> set pre \<Longrightarrow> inet_tokens (pre @ ts) = inet_tokens ts"
  by (induction pre) auto

lemma inet_tokens_none: "''inet'' \<notin> set ts \<Longrightarrow> inet_tokens ts = []"
  by (induction ts) auto

lemma parse_addr_appends:
  "parse_ip_addr_output output addrs = (found, addrs') \<Longrightarrow>
     \<exists>new. addrs' = addrs @ new \<and> (found \<longleftrightarrow> new \<noteq> [])"
  by (auto simp: parse_ip_addr_output_def Let_def)

lemma parse_address_no_prefix:
  "parse_address ip s = Some h \<Longrightarrow> \<not> pa_has_prefix h \<Longrightarrow> pa_prefix h = 0"
  by (auto simp: parse_address_def Let_def split: if_splits option.splits)

lemma address_matches_iff:
  assumes "parse_address ip host = Some h"
  shows "address_matches ip h entry \<longleftrightarrow> parse_address ip entry = Some h"
  using assms parse_address_no_prefix
  by (auto simp: address_matches_def split: option.splits intro!: ParsedAddress.equality)

lemma join_failures_empty [simp]: "join_failures a b = [] \<longleftrightarrow> a = [] \<and> b = []"
  by (simp add: join_failures_def)

lemma address_problem_empty:
  assumes "parse_address ip host = Some h"
  shows "address_problem ip h facts ex = [] \<longleftrightarrow>
    addresses_error facts = [] \<and> (\<exists>e \<in> set (addresses facts). parse_address ip e = Some h)"
  using address_matches_iff [OF assms] by (auto simp: address_problem_def list_ex_iff)

lemma route_problem_empty:
  "route_problem h facts ex = [] \<longleftrightarrow> route_error facts = [] \<and> route_interface facts \<noteq> [] \<and>
     route_interface facts = ex_interface ex \<and> route_source facts = pa_address h"
  by (auto simp: route_problem_def)

lemma ready_iff:
  "nd_ready (evaluate_network ip facts ex) \<longleftrightarrow>
      (\<exists>h. parse_address ip (ex_host_address ex) = Some h \<and>
         addresses_error facts = [] \<and> (\<exists>e \<in> set (addresses facts). parse_address ip e = Some h) \<and>
         route_error facts = [] \<and> route_interface facts \<noteq> [] \<and>
         route_interface facts = ex_interface ex \<and> route_source facts = pa_address h)"
  by (auto simp: evaluate_network_def Let_def address_problem_empty route_problem_empty split: option.splits)

section \<open>Properties\<close>

text \<open>
  C34. The preflight reports ready exactly when the expected host address is well formed, both probes
  succeeded, some local address has the same address, prefix presence and prefix, and the
  route to the robot leaves through the expected interface with the expected host
  address as its source. Every decision carries a message.
\<close>

theorem network_ready_iff:
  "(nd_ready (evaluate_network ip facts ex) \<longleftrightarrow>
      (\<exists>h. parse_address ip (ex_host_address ex) = Some h \<and>
         addresses_error facts = [] \<and> (\<exists>e \<in> set (addresses facts). parse_address ip e = Some h) \<and>
         route_error facts = [] \<and> route_interface facts \<noteq> [] \<and>
         route_interface facts = ex_interface ex \<and> route_source facts = pa_address h)) \<and>
   nd_message (evaluate_network ip facts ex) \<noteq> []"
  using ready_iff [of ip facts ex] by (auto simp: evaluate_network_def Let_def split: option.splits)

text \<open>
  The probe of the local addresses reads back what \<^verbatim>\<open>ip\<close> prints: from lines of white-space
  separated words in which one word is \<^verbatim>\<open>inet\<close>, the parser collects exactly the word after
  it of every line, in order, behind the addresses already known.
\<close>

theorem ip_addr_roundtrip:
  assumes "\<forall>(pre, cidr, post) \<in> set entries. plain_token cidr \<and>
      (\<forall>t \<in> set pre \<union> set post. plain_token t \<and> t \<noteq> ''inet'')"
  shows "parse_ip_addr_output
      (unlines (map (\<lambda>(pre, cidr, post). spaced (pre @ [''inet'', cidr] @ post)) entries)) addrs =
    (entries \<noteq> [], addrs @ map (fst \<circ> snd) entries)"
proof -
  define line where "line = (\<lambda>(pre, cidr :: string, post). pre @ [''inet'', cidr] @ post)"
  have plain: "\<forall>t \<in> set (line e). plain_token t" if "e \<in> set entries" for e
    using bspec [OF assms that] plain_inet by (auto simp: line_def split: prod.splits)
  have one: "inet_tokens (line e) = [fst (snd e)]" if "e \<in> set entries" for e
  proof -
    obtain pre cidr post where e: "e = (pre, cidr, post)"
      by (rule prod_cases3)
    with bspec [OF assms that] have "''inet'' \<notin> set pre" "''inet'' \<notin> set post"
      by auto
    then show ?thesis
      by (simp add: e line_def inet_tokens_before inet_tokens_none)
  qed
  have "getlines (unlines (map (spaced \<circ> line) entries)) = map (spaced \<circ> line) entries"
    by (rule getlines_unlines) (use plain spaced_no_newline in auto)
  then have "concat (map (inet_tokens \<circ> get_tokens) (getlines (unlines (map (spaced \<circ> line) entries)))) =
      concat (map (\<lambda>e. [fst (snd e)]) entries)"
    using plain one by (simp add: get_tokens_spaced cong: map_cong)
  moreover have "(\<lambda>(pre, cidr, post). spaced (pre @ [''inet'', cidr] @ post)) = spaced \<circ> line"
    by (auto simp: line_def)
  ultimately show ?thesis
    by (simp add: parse_ip_addr_output_def Let_def concat_map_singleton comp_def)
qed

theorem ip_addr_roundtrip_witness:
  "parse_ip_addr_output (unlines (map (\<lambda>(pre, cidr, post). spaced (pre @ [''inet'', cidr] @ post))
      [([''2:'', ''eno1''], ''10.18.0.200/24'', [''scope'', ''global''])])) [] =
    ([([''2:'', ''eno1''], ''10.18.0.200/24'', [''scope'', ''global''])] \<noteq> [], [''10.18.0.200/24''])"
  using ip_addr_roundtrip [of "[([''2:'', ''eno1''], ''10.18.0.200/24'', [''scope'', ''global''])]" "[]"]
  by (simp add: plain_token_def isspace_def)

text \<open>
  A ready decision of the Linux preflight rests on both read-only probes: \<^verbatim>\<open>ip\<close> exited with
  status 0 both times, the address listing holds the expected host address, and the route
  listing names the expected interface and the host address as device and source.
\<close>

theorem preflight_ready_evidence:
  assumes "nd_ready (check ip runner ex)"
  shows "\<exists>h out err out' err'. parse_address ip (ex_host_address ex) = Some h \<and>
    runner [] [''ip'', ''-4'', ''-o'', ''addr'', ''show''] = (0, out, err) \<and>
    (\<exists>e \<in> set (snd (parse_ip_addr_output out [])). parse_address ip e = Some h) \<and>
    runner [[''ip'', ''-4'', ''-o'', ''addr'', ''show'']]
      [''ip'', ''-4'', ''-o'', ''route'', ''get'', ex_robot_address ex] = (0, out', err') \<and>
    parse_ip_route_get_output out' = Some (ex_interface ex, pa_address h)"
proof -
  define f1 where "f1 = probe_addresses runner empty_facts"
  define f2 where "f2 = probe_route runner (ex_robot_address ex) f1"
  have "nd_ready (evaluate_network ip f2 ex)"
    using assms by (simp add: check_def f1_def f2_def)
  then obtain h where h: "parse_address ip (ex_host_address ex) = Some h" "addresses_error f2 = []"
      "\<exists>e \<in> set (addresses f2). parse_address ip e = Some h" "route_error f2 = []"
      "route_interface f2 = ex_interface ex" "route_source f2 = pa_address h" "ex_interface ex \<noteq> []"
    unfolding ready_iff by metis
  have f2: "addresses_error f2 = addresses_error f1" "addresses f2 = addresses f1"
    by (auto simp: f2_def probe_route_def split: prod.splits option.splits)
  obtain rc out err where r1: "runner [] addr_command = (rc, out, err)"
    by (metis prod_cases3)
  obtain rc' out' err' where r2: "runner [addr_command] (route_command (ex_robot_address ex)) = (rc', out', err')"
    by (metis prod_cases3)
  have "rc = 0" "addresses f1 = snd (parse_ip_addr_output out [])"
    using h(2) f2(1) r1
    by (auto simp: f1_def probe_addresses_def empty_facts_def exit_note_def split: prod.splits if_splits)
  moreover have "route_error f1 = []" "route_interface f1 = []"
    by (auto simp: f1_def probe_addresses_def empty_facts_def split: prod.splits)
  then have "rc' = 0" "parse_ip_route_get_output out' = Some (ex_interface ex, pa_address h)"
    using h(4-7) r2
    by (auto simp: f2_def probe_route_def exit_note_def split: prod.splits if_splits option.splits)
  ultimately show ?thesis
    using h(1,3) f2(2) r1 r2 by (auto simp: addr_command_def route_command_def)
qed

definition ex_expectation :: NetworkExpectation where
  "ex_expectation = \<lparr>ex_interface = ''eno1'', ex_host_address = ''10.18.0.200/24'',
     ex_robot_address = ''10.18.0.100''\<rparr>"

definition ex_runner :: command_runner where
  "ex_runner calls args = (0, if args = addr_command then ''2: eno1 inet 10.18.0.200/24''
     else ''10.18.0.100 dev eno1 src 10.18.0.200 uid 0'', [])"

lemma ex_ready: "nd_ready (check (\<lambda>s. True) ex_runner ex_expectation)"
  by code_simp

theorem preflight_ready_evidence_witness:
  "nd_ready (check (\<lambda>s. True) ex_runner ex_expectation) \<and>
   (\<exists>h out err out' err'. parse_address (\<lambda>s. True) ''10.18.0.200/24'' = Some h \<and>
    ex_runner [] [''ip'', ''-4'', ''-o'', ''addr'', ''show''] = (0, out, err) \<and>
    ex_runner [[''ip'', ''-4'', ''-o'', ''addr'', ''show'']]
      [''ip'', ''-4'', ''-o'', ''route'', ''get'', ''10.18.0.100''] = (0, out', err') \<and>
    parse_ip_route_get_output out' = Some (''eno1'', pa_address h))"
  using preflight_ready_evidence [OF ex_ready] ex_ready
  unfolding ex_expectation_def NetworkExpectation.simps by blast

end
