(* ===== verification/State_Triples.thy ===== *)
theory State_Triples
  imports Bridge_Prelude "HOL-Library.State_Monad"
begin

text \<open>
  A small program logic for actions of the state monad: triples with a rule for every construct,
  and the special case of an action that keeps a predicate, whose rules form the collection
  \<open>keeping\<close>.
\<close>

section \<open>Triples\<close>

text \<open>Partial-correctness triples for actions of the state monad; every action terminates.\<close>

definition triple :: "('s \<Rightarrow> bool) \<Rightarrow> ('s, 'a) state \<Rightarrow> ('a \<Rightarrow> 's \<Rightarrow> bool) \<Rightarrow> bool" where
  "triple P m Q \<longleftrightarrow> (\<forall>s. P s \<longrightarrow> (case run_state m s of (x, t) \<Rightarrow> Q x t))"

lemma tripleI: "(\<And>s. P s \<Longrightarrow> (case run_state m s of (x, t) \<Rightarrow> Q x t)) \<Longrightarrow> triple P m Q"
  by (simp add: triple_def)

lemma tripleD: "triple P m Q \<Longrightarrow> P s \<Longrightarrow> run_state m s = (x, t) \<Longrightarrow> Q x t"
  by (auto simp: triple_def)

lemma triple_bind:
  assumes "triple P m R" "\<And>x. triple (R x) (f x) Q"
  shows "triple P (m \<bind> f) Q"
  using assms by (fastforce simp: triple_def split: prod.splits)

lemma triple_ret: "(\<And>s. P s \<Longrightarrow> Q x s) \<Longrightarrow> triple P (State_Monad.return x) Q"
  by (simp add: triple_def)

lemma triple_weaken:
  "triple P m Q \<Longrightarrow> (\<And>s. P' s \<Longrightarrow> P s) \<Longrightarrow> (\<And>x s. Q x s \<Longrightarrow> Q' x s) \<Longrightarrow> triple P' m Q'"
  unfolding triple_def by (fastforce split: prod.splits)

lemma triple_if:
  "(b \<Longrightarrow> triple P m Q) \<Longrightarrow> (\<not> b \<Longrightarrow> triple P n Q) \<Longrightarrow> triple P (if b then m else n) Q"
  by simp

lemma triple_option:
  "(x = None \<Longrightarrow> triple P m Q) \<Longrightarrow> (\<And>y. x = Some y \<Longrightarrow> triple P (f y) Q) \<Longrightarrow>
     triple P (case x of None \<Rightarrow> m | Some y \<Rightarrow> f y) Q"
  by (cases x) simp_all

lemma triple_false [simp]: "triple (\<lambda>s. False) m Q"
  by (simp add: triple_def)

text \<open>An action keeps a predicate.\<close>

definition keeps :: "('s \<Rightarrow> bool) \<Rightarrow> ('s, 'a) state \<Rightarrow> bool" where
  "keeps P m \<longleftrightarrow> triple P m (\<lambda>_. P)"

lemma keepsI: "(\<And>s. P s \<Longrightarrow> P (snd (run_state m s))) \<Longrightarrow> keeps P m"
  by (auto simp: keeps_def triple_def split: prod.splits) (metis snd_conv)

lemma keepsD: "keeps P m \<Longrightarrow> P s \<Longrightarrow> P (snd (run_state m s))"
  by (auto simp: keeps_def triple_def split: prod.splits) (metis old.prod.exhaust snd_conv)

named_theorems keeping "actions that keep a predicate"

lemma keeps_bind [keeping]: "keeps P m \<Longrightarrow> (\<And>x. keeps P (f x)) \<Longrightarrow> keeps P (m \<bind> f)"
  unfolding keeps_def by (rule triple_bind)

lemma keeps_ret [keeping]: "keeps P (State_Monad.return x)"
  by (simp add: keeps_def triple_ret)

lemma keeps_if [keeping]: "keeps P m \<Longrightarrow> keeps P n \<Longrightarrow> keeps P (if b then m else n)"
  by simp

lemma keeps_option [keeping]:
  "keeps P m \<Longrightarrow> (\<And>y. keeps P (f y)) \<Longrightarrow> keeps P (case x of None \<Rightarrow> m | Some y \<Rightarrow> f y)"
  by (cases x) simp_all

lemma triple_pre: "(A \<Longrightarrow> triple P m Q) \<Longrightarrow> triple (\<lambda>s. A \<and> P s) m Q"
  by (auto simp: triple_def)

lemma keeps_triple: "keeps P m \<Longrightarrow> triple P m (\<lambda>_. P)"
  by (simp add: keeps_def)

lemma triple_fst: "triple P m (\<lambda>x _. Q x) \<Longrightarrow> P s \<Longrightarrow> Q (fst (run_state m s))"
  unfolding triple_def by (simp add: case_prod_beta)

lemma triple_snd: "triple P m (\<lambda>_. Q) \<Longrightarrow> P s \<Longrightarrow> Q (snd (run_state m s))"
  unfolding triple_def by (simp add: case_prod_beta)

lemma keeps_conj: "keeps P m \<Longrightarrow> keeps Q m \<Longrightarrow> keeps (\<lambda>s. P s \<and> Q s) m"
  by (auto simp: keeps_def triple_def split: prod.splits)

end
