(* ===== verification/Command_Runner.thy ===== *)
theory Command_Runner
  imports Network_Preflight State_Triples
begin

text \<open>
  The command executor \<^verbatim>\<open>execute_readonly_command\<close> of \<^verbatim>\<open>network_preflight.cpp\<close>, as an action of
  the state monad over the captured texts and a log of system calls. The operating system
  is a parameter: \<open>w n\<close> is its reply to the \<open>n\<close>-th system call (or clock reading); the log records the
  calls with the results that matter, newest first. The reply to the fork is the parent's. The child
  side of the fork (\<^verbatim>\<open>dup2\<close>, \<^verbatim>\<open>execvp\<close>) runs in another process and shows only in what the
  pipes deliver and in the status the parent reaps.

  The loops may run as long as the operating system keeps them busy, so they take fuel; \<open>None\<close>
  means that the fuel ran out.
\<close>

section \<open>Data\<close>

datatype errno = EINTR | EAGAIN | ENOSYS | EINVAL | OtherErrno

record reply =
  rp_rc :: int
  rp_errno :: errno
  rp_pipe :: "int \<times> int"
  rp_data :: string
  rp_status :: nat
  rp_revents :: "bool \<times> bool"
  rp_now :: time

datatype sysop =
  Pipe2 int "int \<times> int" | PipePlain int "int \<times> int" | SetCloexec int | CloseFd int | Fork int
| GetFlags int | SetNonblock int | ClockNow | PollFds int | ReadFd int
| WaitNohang int nat | WaitBlocking int nat | Kill

record xs =
  out_text :: string
  err_text :: string
  sys_log :: "sysop list"
  sys_no :: nat

type_synonym os = "nat \<Rightarrow> reply"

text \<open>Why the lifetime loop ended; the status is the one \<^verbatim>\<open>waitpid\<close> stored.\<close>

datatype loop_end = TimedOut | FatalError | ChildExited nat

section \<open>System calls\<close>

abbreviation xret :: "'a \<Rightarrow> (xs, 'a) state" where
  "xret \<equiv> State_Monad.return"

definition logged :: "sysop \<Rightarrow> (xs, unit) state" where
  "logged op = State (\<lambda>s. ((), s\<lparr>sys_log := op # sys_log s\<rparr>))"

definition sys :: "os \<Rightarrow> (reply \<Rightarrow> sysop) \<Rightarrow> (xs, reply) state" where
  "sys w op = State (\<lambda>s. (w (sys_no s), s\<lparr>sys_log := op (w (sys_no s)) # sys_log s, sys_no := sys_no s + 1\<rparr>))"

definition append_out :: "bool \<Rightarrow> string \<Rightarrow> (xs, unit) state" where
  "append_out is_out t = State (\<lambda>s. ((), if is_out then s\<lparr>out_text := out_text s @ t\<rparr>
     else s\<lparr>err_text := err_text s @ t\<rparr>))"

text \<open>\<^verbatim>\<open>close\<close>; its result is not used.\<close>

definition close_fd :: "int \<Rightarrow> (xs, unit) state" where
  "close_fd fd = logged (CloseFd fd)"

definition close_if_open :: "int \<Rightarrow> (xs, unit) state" where
  "close_if_open fd = (if fd \<ge> 0 then close_fd fd else xret ())"

definition make_cloexec_pipe :: "os \<Rightarrow> (xs, int \<times> (int \<times> int)) state" where
  "make_cloexec_pipe w = do {
     p \<leftarrow> sys w (\<lambda>p. Pipe2 (rp_rc p) (rp_pipe p));
     if rp_rc p = 0 then xret (0, rp_pipe p)
     else if rp_errno p \<noteq> ENOSYS \<and> rp_errno p \<noteq> EINVAL then xret (- 1, (- 1, - 1))
     else do {
       q \<leftarrow> sys w (\<lambda>q. PipePlain (rp_rc q) (rp_pipe q));
       if rp_rc q \<noteq> 0 then xret (- 1, (- 1, - 1))
       else do {
         a \<leftarrow> sys w (\<lambda>_. SetCloexec (fst (rp_pipe q)));
         b \<leftarrow> (if rp_rc a < 0 then xret a else sys w (\<lambda>_. SetCloexec (snd (rp_pipe q))));
         if rp_rc a < 0 \<or> rp_rc b < 0 then do {
           _ \<leftarrow> close_fd (fst (rp_pipe q));
           _ \<leftarrow> close_fd (snd (rp_pipe q));
           xret (- 1, (- 1, - 1))
         }
         else xret (0, rp_pipe q)
       }
     }
   }"

section \<open>The lifetime loop\<close>

text \<open>
  Draining one read end: \<open>Some True\<close> when the descriptor is still open, \<open>Some False\<close> when it was closed.
\<close>

fun drain_fd :: "nat \<Rightarrow> os \<Rightarrow> bool \<Rightarrow> int \<Rightarrow> (xs, bool option) state" where
  "drain_fd 0 w is_out fd = xret None"
| "drain_fd (Suc fuel) w is_out fd = do {
     r \<leftarrow> sys w (\<lambda>_. ReadFd fd);
     let count = (if rp_rc r < 0 then rp_rc r else int (length (rp_data r)));
     if count > 0 then do {
       _ \<leftarrow> append_out is_out (rp_data r);
       drain_fd fuel w is_out fd
     }
     else if count < 0 \<and> rp_errno r = EINTR then drain_fd fuel w is_out fd
     else if count < 0 \<and> rp_errno r = EAGAIN then xret (Some True)
     else do {
       _ \<leftarrow> close_fd fd;
       xret (Some False)
     }
   }"

definition drain_slot :: "nat \<Rightarrow> os \<Rightarrow> bool \<Rightarrow> int \<Rightarrow> bool \<Rightarrow> bool \<Rightarrow> (xs, bool option) state" where
  "drain_slot fuel w is_out fd is_open revents =
     (if \<not> is_open then xret (Some False)
      else if \<not> revents then xret (Some True)
      else drain_fd fuel w is_out fd)"

text \<open>\<^verbatim>\<open>duration_cast\<close> to milliseconds truncates toward zero.\<close>

definition millis :: "time \<Rightarrow> int" where
  "millis d = (if d \<ge> 0 then d div 1000000 else - ((- d) div 1000000))"

fun lifetime_loop :: "nat \<Rightarrow> nat \<Rightarrow> os \<Rightarrow> int \<Rightarrow> time \<Rightarrow> int \<times> int \<Rightarrow> bool \<times> bool \<Rightarrow>
    (xs, loop_end option) state" where
  "lifetime_loop 0 dfuel w pid deadline fds opened = xret None"
| "lifetime_loop (Suc fuel) dfuel w pid deadline fds opened = do {
     c \<leftarrow> sys w (\<lambda>_. ClockNow);
     let remaining = millis (deadline - rp_now c);
     if remaining \<le> 0 then xret (Some TimedOut)
     else do {
       let all_closed = (\<not> fst opened \<and> \<not> snd opened);
       let poll_timeout = (if all_closed then min 30 remaining else remaining);
       p \<leftarrow> sys w (\<lambda>_. PollFds poll_timeout);
       if rp_rc p < 0 then
         (if rp_errno p = EINTR then lifetime_loop fuel dfuel w pid deadline fds opened
          else xret (Some FatalError))
       else do {
         a \<leftarrow> drain_slot dfuel w True (fst fds) (fst opened) (fst (rp_revents p));
         case a of None \<Rightarrow> xret None | Some open0 \<Rightarrow> do {
           b \<leftarrow> drain_slot dfuel w False (snd fds) (snd opened) (snd (rp_revents p));
           case b of None \<Rightarrow> xret None | Some open1 \<Rightarrow> do {
             r \<leftarrow> sys w (\<lambda>r. WaitNohang (rp_rc r) (rp_status r));
             if rp_rc r = pid then xret (Some (ChildExited (rp_status r)))
             else if rp_rc r < 0 \<and> rp_errno r \<noteq> EINTR then xret (Some FatalError)
             else lifetime_loop fuel dfuel w pid deadline fds (open0, open1)
           }
         }
       }
     }
   }"

section \<open>After the loop\<close>

text \<open>\<^verbatim>\<open>do { waitpid } while (interrupted)\<close>: the result and the status.\<close>

fun reap :: "nat \<Rightarrow> os \<Rightarrow> (xs, (int \<times> nat) option) state" where
  "reap 0 w = xret None"
| "reap (Suc fuel) w = do {
     r \<leftarrow> sys w (\<lambda>r. WaitBlocking (rp_rc r) (rp_status r));
     if rp_rc r < 0 \<and> rp_errno r = EINTR then reap fuel w
     else xret (Some (rp_rc r, rp_status r))
   }"

text \<open>The status macros of \<^verbatim>\<open>sys/wait.h\<close>.\<close>

definition WIFEXITED :: "nat \<Rightarrow> bool" where
  "WIFEXITED status \<longleftrightarrow> status mod 128 = 0"

definition WEXITSTATUS :: "nat \<Rightarrow> int" where
  "WEXITSTATUS status = int ((status div 256) mod 256)"

definition WTERMSIG :: "nat \<Rightarrow> int" where
  "WTERMSIG status = int (status mod 128)"

definition WIFSIGNALED :: "nat \<Rightarrow> bool" where
  "WIFSIGNALED status \<longleftrightarrow> 0 < status mod 128 \<and> status mod 128 < 127"

definition exit_code :: "nat \<Rightarrow> int" where
  "exit_code status =
     (if WIFEXITED status then WEXITSTATUS status
      else if WIFSIGNALED status then 128 + WTERMSIG status
      else - 1)"

definition kill_and_reap :: "nat \<Rightarrow> os \<Rightarrow> bool \<Rightarrow> int \<Rightarrow> (xs, int option) state" where
  "kill_and_reap fuel w timed_out timeout_ms = do {
     _ \<leftarrow> logged Kill;
     _ \<leftarrow> append_out False (if timed_out
            then CHR 0x0A # ''[command timed out after '' @ to_string timeout_ms @ '' ms; killed]''
            else CHR 0x0A # ''[command execution failed; child killed]'');
     r \<leftarrow> reap fuel w;
     case r of
       None \<Rightarrow> xret None
     | Some (waited, _) \<Rightarrow> if waited < 0 then xret (Some (- 1))
         else xret (Some (if timed_out then 124 else - 1))
   }"

text \<open>Setting both read ends to non-blocking; the calls after a failed one are not made.\<close>

definition set_nonblocking :: "os \<Rightarrow> int \<Rightarrow> int \<Rightarrow> (xs, bool) state" where
  "set_nonblocking w out_r err_r = do {
     f \<leftarrow> sys w (\<lambda>_. GetFlags out_r);
     g \<leftarrow> sys w (\<lambda>_. GetFlags err_r);
     if \<not> (rp_rc f \<ge> 0 \<and> rp_rc g \<ge> 0) then xret False
     else do {
       a \<leftarrow> sys w (\<lambda>_. SetNonblock out_r);
       if rp_rc a \<noteq> 0 then xret False
       else do {
         b \<leftarrow> sys w (\<lambda>_. SetNonblock err_r);
         xret (rp_rc b = 0)
       }
     }
   }"

text \<open>The parent after a successful fork, up to the return value.\<close>

definition supervise :: "nat \<Rightarrow> os \<Rightarrow> int \<Rightarrow> int \<Rightarrow> int \<times> int \<Rightarrow> (xs, int option) state" where
  "supervise fuel w timeout_ms pid fds = do {
     nonblock_ok \<leftarrow> set_nonblocking w (fst fds) (snd fds);
     if \<not> nonblock_ok then do {
       _ \<leftarrow> logged Kill;
       _ \<leftarrow> append_out False (CHR 0x0A # ''[command execution failed: could not set non-blocking mode on the output pipes; child killed]'');
       r \<leftarrow> reap fuel w;
       xret (case r of None \<Rightarrow> None | Some _ \<Rightarrow> Some (- 1))
     }
     else do {
       c \<leftarrow> sys w (\<lambda>_. ClockNow);
       ended \<leftarrow> lifetime_loop fuel fuel w pid (rp_now c + ms timeout_ms) fds (True, True);
       case ended of
         None \<Rightarrow> xret None
       | Some TimedOut \<Rightarrow> kill_and_reap fuel w True timeout_ms
       | Some FatalError \<Rightarrow> kill_and_reap fuel w False timeout_ms
       | Some (ChildExited status) \<Rightarrow> xret (Some (exit_code status))
     }
   }"

text \<open>
  The destructors of the descriptor guards run at every return, in reverse order of construction; the write
  ends were released before.
\<close>

definition execute_readonly_command :: "nat \<Rightarrow> os \<Rightarrow> string list \<Rightarrow> int \<Rightarrow> (xs, int option) state" where
  "execute_readonly_command fuel w args timeout_ms =
     (let timeout_ms = (if timeout_ms \<le> 0 then 5000 else timeout_ms) in
      if args = [] then xret (Some 127)
      else do {
        o1 \<leftarrow> make_cloexec_pipe w;
        e1 \<leftarrow> (if fst o1 \<noteq> 0 then xret (- 1, (- 1, - 1)) else make_cloexec_pipe w);
        if fst o1 \<noteq> 0 \<or> fst e1 \<noteq> 0 then do {
          _ \<leftarrow> close_if_open (fst (snd o1));
          _ \<leftarrow> close_if_open (snd (snd o1));
          _ \<leftarrow> close_if_open (fst (snd e1));
          _ \<leftarrow> close_if_open (snd (snd e1));
          xret (Some (- 1))
        }
        else do {
          f \<leftarrow> sys w (\<lambda>f. Fork (rp_rc f));
          if rp_rc f < 0 then do {
            _ \<leftarrow> close_if_open (snd (snd e1));
            _ \<leftarrow> close_if_open (fst (snd e1));
            _ \<leftarrow> close_if_open (snd (snd o1));
            _ \<leftarrow> close_if_open (fst (snd o1));
            xret (Some (- 1))
          }
          else do {
            _ \<leftarrow> close_fd (snd (snd o1));
            _ \<leftarrow> close_fd (snd (snd e1));
            rc \<leftarrow> supervise fuel w timeout_ms (rp_rc f) (fst (snd o1), fst (snd e1));
            _ \<leftarrow> close_if_open (fst (snd e1));
            _ \<leftarrow> close_if_open (fst (snd o1));
            xret rc
          }
        }
      })"

definition fresh_xs :: xs where
  "fresh_xs = \<lparr>out_text = [], err_text = [], sys_log = [], sys_no = 0\<rparr>"

section \<open>Reasoning\<close>

lemma triple_sys:
  "(\<And>s. P s \<Longrightarrow> Q (w (sys_no s)) (s\<lparr>sys_log := op (w (sys_no s)) # sys_log s, sys_no := sys_no s + 1\<rparr>)) \<Longrightarrow>
     triple P (sys w op) Q"
  by (simp add: triple_def sys_def)

lemma triple_logged: "(\<And>s. P s \<Longrightarrow> Q () (s\<lparr>sys_log := op # sys_log s\<rparr>)) \<Longrightarrow> triple P (logged op) Q"
  by (simp add: triple_def logged_def)

text \<open>
  A predicate on the log that a class of harmless calls cannot falsify is kept by every action that makes only
  such calls.
\<close>

locale log_predicate =
  fixes L :: "sysop list \<Rightarrow> bool" and harmless :: "sysop \<Rightarrow> bool"
  assumes harmless_ok: "harmless op \<Longrightarrow> L l \<Longrightarrow> L (op # l)"
begin

lemma sys_keeps: "(\<And>r. harmless (op r)) \<Longrightarrow> keeps (\<lambda>s. L (sys_log s)) (sys w op)"
  unfolding keeps_def by (rule triple_sys) (simp add: harmless_ok)

lemma logged_keeps: "harmless op \<Longrightarrow> keeps (\<lambda>s. L (sys_log s)) (logged op)"
  unfolding keeps_def by (rule triple_logged) (simp add: harmless_ok)

lemma append_keeps: "keeps (\<lambda>s. L (sys_log s)) (append_out b t)"
  by (rule keepsI) (simp add: append_out_def)

lemmas log_keeps = keeping sys_keeps logged_keeps append_keeps

lemma drain_keeps:
  assumes "harmless (ReadFd fd)" "harmless (CloseFd fd)"
  shows "keeps (\<lambda>s. L (sys_log s)) (drain_fd fuel w is_out fd)"
proof (induction fuel)
  case (Suc fuel)
  then show ?case
    unfolding drain_fd.simps Let_def close_fd_def by (intro log_keeps assms)
qed (simp add: keeps_ret)

lemma slot_keeps:
  assumes "harmless (ReadFd fd)" "harmless (CloseFd fd)"
  shows "keeps (\<lambda>s. L (sys_log s)) (drain_slot fuel w is_out fd is_open revents)"
  unfolding drain_slot_def by (intro log_keeps drain_keeps assms)

lemma nonblocking_keeps:
  assumes "\<And>fd. harmless (GetFlags fd)" "\<And>fd. harmless (SetNonblock fd)"
  shows "keeps (\<lambda>s. L (sys_log s)) (set_nonblocking w a b)"
  unfolding set_nonblocking_def by (intro log_keeps assms)

end

text \<open>How often the child was reaped.\<close>

fun reaping :: "int \<Rightarrow> sysop \<Rightarrow> bool" where
  "reaping pid (WaitNohang r st) \<longleftrightarrow> r = pid"
| "reaping pid (WaitBlocking r st) \<longleftrightarrow> r \<ge> 0"
| "reaping pid _ \<longleftrightarrow> False"

definition reaps :: "int \<Rightarrow> sysop list \<Rightarrow> nat" where
  "reaps pid l = length (filter (reaping pid) l)"

definition unharmed :: "int \<Rightarrow> sysop list \<Rightarrow> bool" where
  "unharmed pid l \<longleftrightarrow> reaps pid l = 0 \<and> Kill \<notin> set l"

interpretation unharmed: log_predicate "unharmed pid" "\<lambda>op. \<not> reaping pid op \<and> op \<noteq> Kill" for pid
  by unfold_locales (auto simp: unharmed_def reaps_def)

interpretation unreaped: log_predicate "\<lambda>l. reaps pid l = 0 \<and> Kill \<in> set l" "\<lambda>op. \<not> reaping pid op" for pid
  by unfold_locales (simp add: reaps_def)

definition loop_post :: "int \<Rightarrow> loop_end option \<Rightarrow> sysop list \<Rightarrow> bool" where
  "loop_post pid r l \<longleftrightarrow> (case r of
     Some (ChildExited st) \<Rightarrow> reaps pid l = 1 \<and> Kill \<notin> set l \<and> WaitNohang pid st \<in> set l
   | Some _ \<Rightarrow> unharmed pid l
   | None \<Rightarrow> True)"

lemma loop_reaps:
  "triple (\<lambda>s. unharmed pid (sys_log s)) (lifetime_loop fuel dfuel w pid d fds opened)
     (\<lambda>r s. loop_post pid r (sys_log s))"
proof (induction fuel arbitrary: opened)
  case (Suc fuel)
  have wait: "triple (\<lambda>s. unharmed pid (sys_log s)) (sys w (\<lambda>r. WaitNohang (rp_rc r) (rp_status r)))
      (\<lambda>r s. if rp_rc r = pid then loop_post pid (Some (ChildExited (rp_status r))) (sys_log s)
        else unharmed pid (sys_log s))"
    by (rule triple_sys) (auto simp: loop_post_def unharmed_def reaps_def)
  have clock: "triple (\<lambda>s. unharmed pid (sys_log s)) (sys w (\<lambda>_. op)) (\<lambda>_ s. unharmed pid (sys_log s))"
    if "\<not> reaping pid op \<and> op \<noteq> Kill" for op
    using unharmed.sys_keeps [where op = "\<lambda>_. op"] that by (simp add: keeps_def)
  have slot: "triple (\<lambda>s. unharmed pid (sys_log s)) (drain_slot dfuel w b fd p q) (\<lambda>_ s. unharmed pid (sys_log s))" for b fd p q
    using unharmed.slot_keeps by (simp add: keeps_def)
  have none: "triple (\<lambda>s. unharmed pid (sys_log s)) (xret r) (\<lambda>r s. loop_post pid r (sys_log s))"
    if "r = None \<or> r = Some TimedOut \<or> r = Some FatalError" for r
    using that by (auto intro!: triple_ret simp: loop_post_def)
  have tail: "triple (\<lambda>s. if rp_rc r = pid then loop_post pid (Some (ChildExited (rp_status r))) (sys_log s)
        else unharmed pid (sys_log s))
      (if rp_rc r = pid then xret (Some (ChildExited (rp_status r)))
       else if rp_rc r < 0 \<and> rp_errno r \<noteq> EINTR then xret (Some FatalError)
       else lifetime_loop fuel dfuel w pid d fds op) (\<lambda>r s. loop_post pid r (sys_log s))" for r op
    using Suc.IH none by (auto intro: triple_ret)
  show ?case
    unfolding lifetime_loop.simps Let_def
    by (intro triple_bind [OF clock] triple_if none triple_bind [OF slot] triple_option triple_bind [OF wait]
        tail Suc.IH) simp_all
qed (simp add: triple_ret loop_post_def)

text \<open>After a kill the child is waited for until the wait is not interrupted.\<close>

fun failed_wait :: "sysop \<Rightarrow> bool" where
  "failed_wait (WaitBlocking r st) \<longleftrightarrow> r < 0"
| "failed_wait _ \<longleftrightarrow> False"

definition waited_for :: "int \<Rightarrow> sysop list \<Rightarrow> bool" where
  "waited_for pid l \<longleftrightarrow> Kill \<in> set l \<and>
     (reaps pid l = 1 \<or> (reaps pid l = 0 \<and> list_ex failed_wait l))"

lemma reap_waits:
  "triple (\<lambda>s. reaps pid (sys_log s) = 0 \<and> Kill \<in> set (sys_log s)) (reap fuel w)
     (\<lambda>r s. case r of None \<Rightarrow> True | Some _ \<Rightarrow> waited_for pid (sys_log s))"
proof (induction fuel)
  case (Suc fuel)
  have wait: "triple (\<lambda>s. reaps pid (sys_log s) = 0 \<and> Kill \<in> set (sys_log s))
      (sys w (\<lambda>r. WaitBlocking (rp_rc r) (rp_status r)))
      (\<lambda>r s. if rp_rc r < 0 \<and> rp_errno r = EINTR then reaps pid (sys_log s) = 0 \<and> Kill \<in> set (sys_log s)
        else waited_for pid (sys_log s))"
    by (rule triple_sys) (auto simp: waited_for_def reaps_def)
  show ?case
    unfolding reap.simps
    by (rule triple_bind [OF wait]) (auto intro: Suc.IH triple_ret)
qed (simp add: triple_ret)

lemma kill_log: "triple (\<lambda>s. unharmed pid (sys_log s)) (logged Kill)
    (\<lambda>_ s. reaps pid (sys_log s) = 0 \<and> Kill \<in> set (sys_log s))"
  by (rule triple_logged) (simp add: unharmed_def reaps_def)

lemmas unreaped_append = unreaped.append_keeps [unfolded keeps_def]

lemma kill_and_reap_waits:
  "triple (\<lambda>s. unharmed pid (sys_log s)) (kill_and_reap fuel w b t)
     (\<lambda>r s. case r of None \<Rightarrow> True | Some rc \<Rightarrow> rc \<noteq> 0 \<and> waited_for pid (sys_log s))"
  unfolding kill_and_reap_def
  by (rule triple_bind [OF kill_log], rule triple_bind [OF unreaped_append], rule triple_bind [OF reap_waits])
    (auto intro!: triple_ret split: option.split)

text \<open>What a finished supervision means.\<close>

definition supervised :: "int \<Rightarrow> int option \<Rightarrow> sysop list \<Rightarrow> bool" where
  "supervised pid r l \<longleftrightarrow> (case r of None \<Rightarrow> True
   | Some rc \<Rightarrow> (rc \<noteq> 0 \<and> waited_for pid l) \<or>
       (\<exists>st. rc = exit_code st \<and> reaps pid l = 1 \<and> Kill \<notin> set l \<and> WaitNohang pid st \<in> set l))"

lemma supervise_supervised:
  "triple (\<lambda>s. unharmed pid (sys_log s)) (supervise fuel w t pid fds) (\<lambda>r s. supervised pid r (sys_log s))"
proof -
  have nb: "triple (\<lambda>s. unharmed pid (sys_log s)) (set_nonblocking w a b) (\<lambda>_ s. unharmed pid (sys_log s))" for a b
    using unharmed.nonblocking_keeps by (simp add: keeps_def)
  have clock: "triple (\<lambda>s. unharmed pid (sys_log s)) (sys w (\<lambda>_. ClockNow)) (\<lambda>_ s. unharmed pid (sys_log s))"
    using unharmed.sys_keeps [where op = "\<lambda>_. ClockNow"] by (simp add: keeps_def)
  have kr: "triple (\<lambda>s. unharmed pid (sys_log s)) (kill_and_reap fuel w b t) (\<lambda>r s. supervised pid r (sys_log s))" for b
    by (rule triple_weaken [OF kill_and_reap_waits]) (auto simp: supervised_def split: option.splits)
  have bad: "triple (\<lambda>s. unharmed pid (sys_log s)) (do { _ \<leftarrow> logged Kill; _ \<leftarrow> append_out False m; r \<leftarrow> reap fuel w;
       xret (case r of None \<Rightarrow> None | Some _ \<Rightarrow> Some (- 1)) }) (\<lambda>r s. supervised pid r (sys_log s))" for m
    by (rule triple_bind [OF kill_log], rule triple_bind [OF unreaped_append], rule triple_bind [OF reap_waits],
        rule triple_ret) (auto simp: supervised_def split: option.splits)
  have fin: "triple (\<lambda>s. loop_post pid r (sys_log s)) (case r of
         None \<Rightarrow> xret None
       | Some TimedOut \<Rightarrow> kill_and_reap fuel w True t
       | Some FatalError \<Rightarrow> kill_and_reap fuel w False t
       | Some (ChildExited status) \<Rightarrow> xret (Some (exit_code status))) (\<lambda>r s. supervised pid r (sys_log s))" for r
  proof (cases r)
    case (Some x)
    then show ?thesis
      using kr by (cases x) (auto simp: loop_post_def supervised_def intro!: triple_ret)
  qed (simp add: triple_ret supervised_def)
  show ?thesis
    unfolding supervise_def
    by (rule triple_bind [OF nb], intro triple_if bad triple_bind [OF clock] triple_bind [OF loop_reaps] fin)
qed

text \<open>Before the fork nothing is waited for or killed.\<close>

fun preparing :: "sysop \<Rightarrow> bool" where
  "preparing (WaitNohang r st) \<longleftrightarrow> False"
| "preparing (WaitBlocking r st) \<longleftrightarrow> False"
| "preparing Kill \<longleftrightarrow> False"
| "preparing (Fork r) \<longleftrightarrow> False"
| "preparing _ \<longleftrightarrow> True"

interpretation prepared: log_predicate "list_all preparing" preparing
  by unfold_locales simp

lemma prepared_unharmed: "list_all preparing l \<Longrightarrow> unharmed pid (Fork r # l)"
proof -
  have "list_all preparing l \<Longrightarrow> filter (reaping pid) l = [] \<and> Kill \<notin> set l"
  proof (induction l)
    case (Cons a l)
    then show ?case by (cases a) auto
  qed simp
  then show "list_all preparing l \<Longrightarrow> ?thesis"
    by (auto simp: unharmed_def reaps_def)
qed

lemma pipe_prepares: "keeps (\<lambda>s. list_all preparing (sys_log s)) (make_cloexec_pipe w)"
  unfolding make_cloexec_pipe_def close_fd_def by (intro prepared.log_keeps) simp_all

lemma close_prepares: "keeps (\<lambda>s. list_all preparing (sys_log s)) (close_if_open fd)"
  unfolding close_if_open_def close_fd_def by (intro prepared.log_keeps) simp_all

text \<open>What the calls of the supervision keep, the whole supervision keeps.\<close>

fun is_pipe :: "sysop \<Rightarrow> bool" where
  "is_pipe (Pipe2 r f) \<longleftrightarrow> True"
| "is_pipe (PipePlain r f) \<longleftrightarrow> True"
| "is_pipe _ \<longleftrightarrow> False"

locale growing_log = log_predicate +
  assumes supervising_ok: "\<not> is_pipe op \<Longrightarrow> harmless op"
begin

lemma loop_keeps: "keeps (\<lambda>s. L (sys_log s)) (lifetime_loop fuel dfuel w pid d fds opened)"
proof (induction fuel arbitrary: opened)
  case (Suc fuel)
  show ?case
    unfolding lifetime_loop.simps Let_def
    by (intro log_keeps slot_keeps Suc.IH) (simp_all add: supervising_ok)
qed (simp add: keeps_ret)

lemma reap_keeps: "keeps (\<lambda>s. L (sys_log s)) (reap fuel w)"
proof (induction fuel)
  case (Suc fuel)
  show ?case
    unfolding reap.simps by (intro log_keeps Suc.IH) (simp_all add: supervising_ok)
qed (simp add: keeps_ret)

lemma kill_and_reap_keeps: "keeps (\<lambda>s. L (sys_log s)) (kill_and_reap fuel w b t)"
  unfolding kill_and_reap_def
  by (intro log_keeps reap_keeps) (auto intro: keeping simp: supervising_ok split: prod.split)

lemma supervise_keeps: "keeps (\<lambda>s. L (sys_log s)) (supervise fuel w t pid fds)"
proof -
  have "keeps (\<lambda>s. L (sys_log s)) (case y of TimedOut \<Rightarrow> kill_and_reap fuel w True t
       | FatalError \<Rightarrow> kill_and_reap fuel w False t | ChildExited status \<Rightarrow> xret (Some (exit_code status)))" for y
    by (auto intro: keeping kill_and_reap_keeps split: loop_end.split)
  then show ?thesis
    unfolding supervise_def
    by (intro log_keeps nonblocking_keeps reap_keeps loop_keeps) (simp_all add: supervising_ok)
qed

end

interpretation logged_op: growing_log "\<lambda>l. op \<in> set l" "\<lambda>_. True" for op
  by unfold_locales simp_all

lemma supervised_close: "supervised pid r l \<Longrightarrow> supervised pid r (CloseFd fd # l)"
  by (auto simp: supervised_def waited_for_def reaps_def split: option.splits)

lemma outcome_close: "keeps (\<lambda>s. Fork pid \<in> set (sys_log s) \<and> supervised pid r (sys_log s)) (close_if_open fd)"
  unfolding close_if_open_def close_fd_def keeps_def
  by (intro triple_if triple_ret triple_logged) (simp_all add: supervised_close)

lemma triple_conj: "triple P m Q \<Longrightarrow> triple P' m Q' \<Longrightarrow> triple (\<lambda>s. P s \<and> P' s) m (\<lambda>x s. Q x s \<and> Q' x s)"
  by (auto simp: triple_def split: prod.splits)

text \<open>What a returned value tells about the child.\<close>

definition outcome :: "int option \<Rightarrow> sysop list \<Rightarrow> bool" where
  "outcome r l \<longleftrightarrow>
     (\<exists>pid \<ge> 0. Fork pid \<in> set l \<and> supervised pid r l) \<or>
     ((\<forall>pid \<ge> 0. Fork pid \<notin> set l) \<and> (r = Some 127 \<or> r = Some (- 1)))"

lemma unforked: "list_all preparing l \<Longrightarrow> Fork pid \<notin> set l"
  by (auto simp: list_all_iff)

lemma execute_outcome:
  "triple (\<lambda>s. list_all preparing (sys_log s)) (execute_readonly_command fuel w args t)
     (\<lambda>r s. outcome r (sys_log s))"
proof -
  let ?P = "\<lambda>s. list_all preparing (sys_log s)"
  let ?U = "\<lambda>s. (\<forall>pid \<ge> 0. Fork pid \<notin> set (sys_log s))"
  let ?F = "\<lambda>pid s. unharmed pid (sys_log s) \<and> Fork pid \<in> set (sys_log s)"
  note pipe = keeps_triple [OF pipe_prepares]
  note shut = keeps_triple [OF close_prepares]
  have pipe2: "triple ?P (if b then xret x else make_cloexec_pipe w) (\<lambda>_. ?P)" for b x
    by (intro triple_if pipe triple_ret)
  have none: "triple ?P (xret (Some c)) (\<lambda>r s. outcome r (sys_log s))" if "c = 127 \<or> c = - 1" for c
    using that by (intro triple_ret) (auto simp: outcome_def unforked)
  have fork: "triple ?P (sys w (\<lambda>f. Fork (rp_rc f))) (\<lambda>f s. if rp_rc f < 0 then ?U s else ?F (rp_rc f) s)"
    by (rule triple_sys) (auto simp: prepared_unharmed unforked)
  have shutU: "triple ?U (close_if_open fd) (\<lambda>_. ?U)" for fd
    unfolding close_if_open_def close_fd_def by (intro triple_if triple_ret triple_logged) simp_all
  have shutF: "triple (?F pid) (close_fd fd) (\<lambda>_. ?F pid)" for pid fd
    unfolding close_fd_def by (rule triple_logged) (auto simp: unharmed_def reaps_def)
  have sup: "triple (?F pid) (supervise fuel w t' pid fds)
      (\<lambda>r s. supervised pid r (sys_log s) \<and> Fork pid \<in> set (sys_log s))" for pid t' fds
    by (rule triple_conj [OF supervise_supervised keeps_triple [OF logged_op.supervise_keeps]])
  have close2: "triple (\<lambda>s. supervised pid r (sys_log s) \<and> Fork pid \<in> set (sys_log s)) (close_if_open fd)
      (\<lambda>_ s. supervised pid r (sys_log s) \<and> Fork pid \<in> set (sys_log s))" for pid r fd
    using keeps_triple [OF outcome_close [of pid r fd]] by (simp add: conj_commute)
  have failed: "triple ?U (do { _ \<leftarrow> close_if_open a; _ \<leftarrow> close_if_open b; _ \<leftarrow> close_if_open c; _ \<leftarrow> close_if_open d;
        xret (Some (- 1)) }) (\<lambda>r s. outcome r (sys_log s))" for a b c d
    by (intro triple_bind [OF shutU] triple_ret) (simp add: outcome_def)
  have parent: "triple (?F pid) (do { _ \<leftarrow> close_fd a; _ \<leftarrow> close_fd b; rc \<leftarrow> supervise fuel w t' pid fds;
        _ \<leftarrow> close_if_open c; _ \<leftarrow> close_if_open d; xret rc }) (\<lambda>r s. outcome r (sys_log s))"
    if "pid \<ge> 0" for pid a b c d t' fds
    by (intro triple_bind [OF shutF] triple_bind [OF sup] triple_bind [OF close2] triple_ret)
      (use that in \<open>auto simp: outcome_def\<close>)
  have child: "triple (\<lambda>s. if rp_rc f < 0 then ?U s else ?F (rp_rc f) s)
      (if rp_rc f < 0 then m else n) (\<lambda>r s. outcome r (sys_log s))"
    if "triple ?U m (\<lambda>r s. outcome r (sys_log s))"
      "rp_rc f \<ge> 0 \<Longrightarrow> triple (?F (rp_rc f)) n (\<lambda>r s. outcome r (sys_log s))" for f m n
    using that by simp
  show ?thesis
    unfolding execute_readonly_command_def Let_def
    by (rule triple_if, rule none, simp, rule triple_bind [OF pipe], rule triple_bind [OF pipe2], rule triple_if,
        intro triple_bind [OF shut] none, simp, rule triple_bind [OF fork], rule child, rule failed, rule parent)
qed

section \<open>Termination\<close>

text \<open>
  From reply \<open>N\<close> on the operating system is calm: no call is interrupted and no read delivers data.
\<close>

definition calm :: "reply \<Rightarrow> bool" where
  "calm r \<longleftrightarrow> \<not> (rp_rc r < 0 \<and> rp_errno r = EINTR) \<and> (rp_rc r \<ge> 0 \<longrightarrow> rp_data r = [])"

definition calms_down :: "os \<Rightarrow> nat \<Rightarrow> bool" where
  "calms_down w N \<longleftrightarrow> (\<forall>n \<ge> N. calm (w n))"

lemma run_sys [simp]: "run_state (sys w op) s =
    (w (sys_no s), s\<lparr>sys_log := op (w (sys_no s)) # sys_log s, sys_no := sys_no s + 1\<rparr>)"
  by (simp add: sys_def)

lemma append_number [simp]: "sys_no (snd (run_state (append_out b t) s)) = sys_no s"
  by (simp add: append_out_def)

lemma drain_number: "sys_no s \<le> sys_no (snd (run_state (drain_fd fuel w b fd) s))"
proof (induction fuel arbitrary: s)
  case (Suc fuel)
  show ?case
    using le_trans [OF _ Suc]
    by (simp add: case_prod_beta Let_def append_out_def close_fd_def logged_def)
qed simp

lemma drain_returns:
  assumes "calms_down w N"
  shows "N < sys_no s + fuel \<Longrightarrow> fst (run_state (drain_fd fuel w b fd) s) \<noteq> None \<or> fuel = 0"
proof (induction fuel arbitrary: s)
  case (Suc fuel)
  show ?case
  proof (cases "N \<le> sys_no s")
    case True
    then have "calm (w (sys_no s))"
      using assms by (simp add: calms_down_def)
    then show ?thesis
      by (auto simp: calm_def case_prod_beta Let_def)
  next
    case False
    then have "0 < fuel"
      using Suc.prems by simp
    with Suc show ?thesis
      by (auto simp: case_prod_beta Let_def append_out_def)
  qed
qed simp


lemma slot_returns:
  assumes "calms_down w N" "N < fuel"
  shows "triple (\<lambda>s. k \<le> sys_no s) (drain_slot fuel w b fd p q) (\<lambda>r s. r \<noteq> None \<and> k \<le> sys_no s)"
proof (rule tripleI)
  fix s :: xs assume "k \<le> sys_no s"
  then have "k \<le> sys_no (snd (run_state (drain_slot fuel w b fd p q) s))"
    using le_trans [OF _ drain_number] by (simp add: drain_slot_def)
  moreover have "fst (run_state (drain_slot fuel w b fd p q) s) \<noteq> None"
    using drain_returns [OF assms(1), of s fuel b fd] assms(2) by (auto simp: drain_slot_def)
  ultimately show "case run_state (drain_slot fuel w b fd p q) s of (r, t) \<Rightarrow> r \<noteq> None \<and> k \<le> sys_no t"
    by (simp add: case_prod_beta)
qed

lemma sys_number: "triple (\<lambda>s. k \<le> sys_no s) (sys w op) (\<lambda>r s. Suc k \<le> sys_no s \<and> (\<exists>n \<ge> k. r = w n))"
  by (rule triple_sys) auto

lemma sys_number_weak: "triple (\<lambda>s. k \<le> sys_no s) (sys w op) (\<lambda>_ s. k \<le> sys_no s)"
  by (rule triple_sys) auto

lemma triple_some:
  assumes "\<And>y. triple P (f y) Q"
  shows "triple (\<lambda>s. r \<noteq> None \<and> P s) (case r of None \<Rightarrow> m | Some y \<Rightarrow> f y) Q"
  using assms by (cases r) auto

lemma millis_nonpos: "d \<le> n \<Longrightarrow> millis (d - n) \<le> 0"
  using pos_imp_zdiv_nonneg_iff [of 1000000 "n - d"] by (auto simp: millis_def)

lemma loop_returns:
  assumes "calms_down w N" "N < dfuel" "\<forall>n \<ge> N. d \<le> rp_now (w n)"
  shows "N < k + fuel \<Longrightarrow> 0 < fuel \<Longrightarrow>
    triple (\<lambda>s. k \<le> sys_no s) (lifetime_loop fuel dfuel w pid d fds opened) (\<lambda>r _. r \<noteq> None)"
proof (induction fuel arbitrary: k opened)
  case (Suc fuel)
  show ?case
  proof (cases "N \<le> k")
    case True
    have late: "triple (\<lambda>s. k \<le> sys_no s) (sys w (\<lambda>_. ClockNow)) (\<lambda>c s. millis (d - rp_now c) \<le> 0 \<and> True)"
      by (rule triple_sys) (use assms(3) True in \<open>simp add: millis_nonpos\<close>)
    show ?thesis
      unfolding lifetime_loop.simps Let_def
      by (rule triple_bind [OF late], rule triple_pre) (simp add: triple_ret)
  next
    case False
    have again: "triple (\<lambda>s. Suc k \<le> sys_no s) (lifetime_loop fuel dfuel w pid d fds op) (\<lambda>r _. r \<noteq> None)" for op
      using Suc.prems False by (intro Suc.IH) simp_all
    have clock: "triple (\<lambda>s. k \<le> sys_no s) (sys w op) (\<lambda>_ s. Suc k \<le> sys_no s)" for op
      by (rule triple_sys) simp
    show ?thesis
      unfolding lifetime_loop.simps Let_def
      by (intro triple_bind [OF clock] triple_if triple_bind [OF sys_number_weak] again
          triple_bind [OF slot_returns [OF assms(1,2)]] triple_some triple_ret) simp_all
  qed
qed simp

lemma reap_returns:
  assumes "calms_down w N"
  shows "N < k + fuel \<Longrightarrow> 0 < fuel \<Longrightarrow> triple (\<lambda>s. k \<le> sys_no s) (reap fuel w) (\<lambda>r _. r \<noteq> None)"
proof (induction fuel arbitrary: k)
  case (Suc fuel)
  show ?case
  proof (cases "N \<le> k")
    case True
    have late: "triple (\<lambda>s. k \<le> sys_no s) (sys w op) (\<lambda>c s. \<not> (rp_rc c < 0 \<and> rp_errno c = EINTR) \<and> True)" for op
      by (rule triple_sys) (use assms True in \<open>auto simp: calms_down_def calm_def\<close>)
    show ?thesis
      unfolding reap.simps by (rule triple_bind [OF late], rule triple_pre) (auto intro: triple_ret)
  next
    case False
    have again: "triple (\<lambda>s. Suc k \<le> sys_no s) (reap fuel w) (\<lambda>r _. r \<noteq> None)"
      using Suc.prems False by (intro Suc.IH) simp_all
    have wait: "triple (\<lambda>s. k \<le> sys_no s) (sys w op) (\<lambda>_ s. Suc k \<le> sys_no s)" for op
      by (rule triple_sys) simp
    show ?thesis
      unfolding reap.simps by (intro triple_bind [OF wait] triple_if again triple_ret) simp_all
  qed
qed simp

lemma reap_returns_any: "calms_down w N \<Longrightarrow> N < fuel \<Longrightarrow> triple (\<lambda>s. True) (reap fuel w) (\<lambda>r _. r \<noteq> None)"
  using reap_returns [of w N 0 fuel] by simp

lemma kill_and_reap_returns:
  assumes "calms_down w N" "N < fuel"
  shows "triple (\<lambda>s. True) (kill_and_reap fuel w b t) (\<lambda>r _. r \<noteq> None)"
proof -
  have r: "triple (\<lambda>s. True) (reap fuel w) (\<lambda>r _. r \<noteq> None \<and> True)"
    using reap_returns_any [OF assms] by simp
  show ?thesis
    unfolding kill_and_reap_def
    by (rule triple_bind [where R = "\<lambda>_ _. True"], simp add: triple_def,
        rule triple_bind [where R = "\<lambda>_ _. True"], simp add: triple_def,
        rule triple_bind [OF r], rule triple_some) (auto intro!: triple_ret split: prod.split)
qed

text \<open>The calls before the loop use at most fourteen replies.\<close>

lemma pipe_number: "triple (\<lambda>s. sys_no s \<le> k) (make_cloexec_pipe w) (\<lambda>_ s. sys_no s \<le> k + 4)"
  by (simp add: triple_def make_cloexec_pipe_def close_fd_def logged_def case_prod_beta)

lemma nonblocking_number: "triple (\<lambda>s. sys_no s \<le> k) (set_nonblocking w a b) (\<lambda>_ s. sys_no s \<le> k + 4)"
  by (simp add: triple_def set_nonblocking_def case_prod_beta)

lemma supervise_returns:
  assumes "calms_down w N" "N < fuel" "\<And>m n. m \<le> k + 4 \<Longrightarrow> N \<le> n \<Longrightarrow> rp_now (w m) + ms t \<le> rp_now (w n)"
  shows "triple (\<lambda>s. sys_no s \<le> k) (supervise fuel w t pid fds) (\<lambda>r _. r \<noteq> None)"
proof -
  have clock: "triple (\<lambda>s. sys_no s \<le> k + 4) (sys w (\<lambda>_. ClockNow)) (\<lambda>c s. (\<forall>n \<ge> N. rp_now c + ms t \<le> rp_now (w n)) \<and> 0 \<le> sys_no s)"
    by (rule triple_sys) (use assms(3) in auto)
  have loop: "triple (\<lambda>s. (\<forall>n \<ge> N. rp_now c + ms t \<le> rp_now (w n)) \<and> 0 \<le> sys_no s)
      (lifetime_loop fuel fuel w pid (rp_now c + ms t) fds opened) (\<lambda>r s. r \<noteq> None \<and> True)" for c opened
    by (rule triple_pre) (use loop_returns [OF assms(1,2), of "rp_now c + ms t" 0 fuel pid fds opened] assms(2) in simp)
  have kr: "triple (\<lambda>s. True) (case e of TimedOut \<Rightarrow> kill_and_reap fuel w True t
       | FatalError \<Rightarrow> kill_and_reap fuel w False t | ChildExited status \<Rightarrow> xret (Some (exit_code status)))
      (\<lambda>r _. r \<noteq> None)" for e
    using kill_and_reap_returns [OF assms(1,2)] by (auto intro!: triple_ret split: loop_end.split)
  have bad: "triple (\<lambda>s. sys_no s \<le> j) (do { _ \<leftarrow> logged Kill; _ \<leftarrow> append_out False m; r \<leftarrow> reap fuel w;
       xret (case r of None \<Rightarrow> None | Some _ \<Rightarrow> Some (- 1)) }) (\<lambda>r s. r \<noteq> None)" for j m
    by (rule triple_bind [where R = "\<lambda>_ _. True"], simp add: triple_def,
        rule triple_bind [where R = "\<lambda>_ _. True"], simp add: triple_def,
        rule triple_bind [OF reap_returns_any [OF assms(1,2)]], rule triple_ret) auto
  show ?thesis
    unfolding supervise_def
    by (rule triple_bind [OF nonblocking_number], intro triple_if bad triple_bind [OF clock] triple_bind [OF loop]
        triple_some kr)
qed

lemma execute_returns:
  assumes "calms_down w N" "N < fuel"
    and "\<And>m n. m \<le> 13 \<Longrightarrow> N \<le> n \<Longrightarrow> rp_now (w m) + ms (if t \<le> 0 then 5000 else t) \<le> rp_now (w n)"
  shows "triple (\<lambda>s. sys_no s \<le> 0) (execute_readonly_command fuel w args t) (\<lambda>r _. r \<noteq> None)"
proof -
  let ?t = "if t \<le> 0 then 5000 else t"
  have pipe2: "triple (\<lambda>s. sys_no s \<le> 4) (if b then xret x else make_cloexec_pipe w) (\<lambda>_ s. sys_no s \<le> 8)" for b x
    using triple_weaken [OF pipe_number [of 4 w]] by (auto intro!: triple_ret)
  have pipe1: "triple (\<lambda>s. sys_no s \<le> 0) (make_cloexec_pipe w) (\<lambda>_ s. sys_no s \<le> 4)"
    using pipe_number [of 0 w] by simp
  have fork: "triple (\<lambda>s. sys_no s \<le> 8) (sys w op) (\<lambda>_ s. sys_no s \<le> 9)" for op
    by (rule triple_sys) simp
  have shut: "triple (\<lambda>s. sys_no s \<le> k) (close_if_open fd) (\<lambda>_ s. sys_no s \<le> k)"
      "triple (\<lambda>s. sys_no s \<le> k) (close_fd fd) (\<lambda>_ s. sys_no s \<le> k)" for k fd
    by (simp_all add: triple_def close_if_open_def close_fd_def logged_def)
  have sup: "triple (\<lambda>s. sys_no s \<le> 9) (supervise fuel w ?t pid fds) (\<lambda>r _. r \<noteq> None \<and> True)" for pid fds
    using supervise_returns [OF assms(1,2), of 9 ?t pid fds] assms(3) by simp
  have fin: "triple (\<lambda>_. r \<noteq> None \<and> True) (do { _ \<leftarrow> close_if_open a; _ \<leftarrow> close_if_open b; xret r }) (\<lambda>r _. r \<noteq> None)" for a b r
    by (simp add: triple_def case_prod_beta)
  show ?thesis
    unfolding execute_readonly_command_def Let_def
    by (intro triple_if triple_bind [OF pipe1] triple_bind [OF pipe2] triple_bind [OF fork] triple_bind [OF shut(1)]
        triple_bind [OF shut(2)] triple_bind [OF sup] fin triple_ret) simp_all
qed

section \<open>Descriptors\<close>

text \<open>The descriptors that were created and never closed.\<close>

fun makes :: "sysop \<Rightarrow> int set" where
  "makes (Pipe2 r f) = (if r = 0 then {fst f, snd f} else {})"
| "makes (PipePlain r f) = (if r = 0 then {fst f, snd f} else {})"
| "makes _ = {}"

definition leaks :: "sysop list \<Rightarrow> int set" where
  "leaks l = {fd. fd \<ge> 0 \<and> (\<exists>op \<in> set l. fd \<in> makes op) \<and> CloseFd fd \<notin> set l}"

lemma leaks_Nil [simp]: "leaks [] = {}"
  by (simp add: leaks_def)

lemma leaks_harmless: "\<not> is_pipe op \<Longrightarrow> leaks (op # l) \<subseteq> leaks l"
  by (cases op) (auto simp: leaks_def)

lemma leaks_pipe: "leaks (op # l) \<subseteq> leaks l \<union> makes op"
  by (auto simp: leaks_def)

lemma leaks_close: "leaks (CloseFd fd # l) \<subseteq> leaks l - {fd}"
  by (auto simp: leaks_def)

interpretation leak_free: growing_log "\<lambda>l. leaks l \<subseteq> A" "\<lambda>op. \<not> is_pipe op" for A
  by unfold_locales (use leaks_harmless in fastforce)+

lemma pipe_leaks:
  "triple (\<lambda>s. leaks (sys_log s) \<subseteq> A) (make_cloexec_pipe w)
     (\<lambda>r s. leaks (sys_log s) \<subseteq> A \<union> (if fst r = 0 then {fst (snd r), snd (snd r)} else {}))"
  by (simp add: triple_def make_cloexec_pipe_def close_fd_def logged_def case_prod_beta)
    (auto simp: leaks_def)

lemma close_leaks: "triple (\<lambda>s. leaks (sys_log s) \<subseteq> insert fd A) (close_fd fd) (\<lambda>_ s. leaks (sys_log s) \<subseteq> A)"
  unfolding close_fd_def by (rule triple_logged) (use leaks_close in fastforce)

lemma close_if_leaks: "triple (\<lambda>s. leaks (sys_log s) \<subseteq> insert fd A) (close_if_open fd) (\<lambda>_ s. leaks (sys_log s) \<subseteq> A)"
proof (cases "fd \<ge> 0")
  case False
  then have "leaks l \<subseteq> insert fd A \<Longrightarrow> leaks l \<subseteq> A" for l
    by (auto simp: leaks_def)
  then show ?thesis
    using False by (simp add: close_if_open_def triple_ret)
qed (simp add: close_if_open_def close_leaks)

lemma execute_closes:
  "triple (\<lambda>s. leaks (sys_log s) \<subseteq> {}) (execute_readonly_command fuel w args t) (\<lambda>_ s. leaks (sys_log s) \<subseteq> {})"
proof -
  let ?fds = "\<lambda>r. {fst (snd r), snd (snd r)}"
  have pipe1: "triple (\<lambda>s. leaks (sys_log s) \<subseteq> {}) (make_cloexec_pipe w)
      (\<lambda>r s. leaks (sys_log s) \<subseteq> {} \<union> (if fst r = 0 then ?fds r else {}))"
    by (rule pipe_leaks)
  have pipe2: "triple (\<lambda>s. leaks (sys_log s) \<subseteq> {} \<union> (if fst r = 0 then ?fds r else {}))
      (if fst r \<noteq> 0 then xret x else make_cloexec_pipe w)
      (\<lambda>q s. leaks (sys_log s) \<subseteq> (if fst r = 0 then ?fds r \<union> ?fds q else {}))" for r x
    by (cases "fst r = 0") (auto intro!: triple_ret triple_weaken [OF pipe_leaks [where A = "?fds r"]] split: if_splits)
  have close_all: "triple (\<lambda>s. leaks (sys_log s) \<subseteq> {a, b, c, d})
      (do { _ \<leftarrow> close_if_open a; _ \<leftarrow> close_if_open b; _ \<leftarrow> close_if_open c; _ \<leftarrow> close_if_open d; xret z })
      (\<lambda>_ s. leaks (sys_log s) \<subseteq> {})" for a b c d and z :: "int option"
    by (intro triple_bind [OF close_if_leaks] triple_ret)
  have four: "triple (\<lambda>s. leaks (sys_log s) \<subseteq> (if fst r = 0 then ?fds r \<union> ?fds q else {}))
      (do { _ \<leftarrow> close_if_open a; _ \<leftarrow> close_if_open b; _ \<leftarrow> close_if_open c; _ \<leftarrow> close_if_open d; xret z })
      (\<lambda>_ s. leaks (sys_log s) \<subseteq> {})" if "?fds r \<union> ?fds q \<subseteq> {a, b, c, d}"
    for r q :: "int \<times> (int \<times> int)" and a b c d and z :: "int option"
  proof (rule triple_weaken [OF close_all])
    show "leaks (sys_log s) \<subseteq> {a, b, c, d}"
      if "leaks (sys_log s) \<subseteq> (if fst r = 0 then ?fds r \<union> ?fds q else {})" for s
      using that \<open>?fds r \<union> ?fds q \<subseteq> {a, b, c, d}\<close> by (cases "fst r = 0") auto
  qed
  have fork: "triple (\<lambda>s. leaks (sys_log s) \<subseteq> A) (sys w (\<lambda>f. Fork (rp_rc f))) (\<lambda>_ s. leaks (sys_log s) \<subseteq> A)" for A
    using leak_free.sys_keeps [where op = "\<lambda>f. Fork (rp_rc f)"] by (simp add: keeps_def)
  have sup: "triple (\<lambda>s. leaks (sys_log s) \<subseteq> A) (supervise fuel w t' pid fds) (\<lambda>_ s. leaks (sys_log s) \<subseteq> A)" for A t' pid fds
    by (rule keeps_triple [OF leak_free.supervise_keeps])
  have close4: "triple (\<lambda>s. leaks (sys_log s) \<subseteq> {b, d, c, a})
      (do { _ \<leftarrow> close_fd b; _ \<leftarrow> close_fd d; rc \<leftarrow> supervise fuel w t' pid fds;
        _ \<leftarrow> close_if_open c; _ \<leftarrow> close_if_open a; xret rc })
      (\<lambda>_ s. leaks (sys_log s) \<subseteq> {})" for a b c d t' pid fds
    by (intro triple_bind [OF close_leaks] triple_bind [OF sup] triple_bind [OF close_if_leaks] triple_ret)
  have parent: "triple (\<lambda>s. leaks (sys_log s) \<subseteq> (if fst r = 0 then ?fds r \<union> ?fds q else {}))
      (do { _ \<leftarrow> close_fd (snd (snd r)); _ \<leftarrow> close_fd (snd (snd q)); rc \<leftarrow> supervise fuel w t' pid fds;
        _ \<leftarrow> close_if_open (fst (snd q)); _ \<leftarrow> close_if_open (fst (snd r)); xret rc })
      (\<lambda>_ s. leaks (sys_log s) \<subseteq> {})" for r q t' pid fds
  proof (rule triple_weaken [OF close4])
    show "leaks (sys_log s) \<subseteq> {snd (snd r), snd (snd q), fst (snd q), fst (snd r)}"
      if "leaks (sys_log s) \<subseteq> (if fst r = 0 then ?fds r \<union> ?fds q else {})" for s
      using that by (cases "fst r = 0") auto
  qed
  show ?thesis
    unfolding execute_readonly_command_def Let_def
    by (rule triple_if, simp add: triple_ret, rule triple_bind [OF pipe1], rule triple_bind [OF pipe2],
        rule triple_if, rule four, blast, rule triple_bind [OF fork], rule triple_if, rule four, blast, rule parent)
qed

section \<open>An example run\<close>

text \<open>A child that writes two bytes, closes its streams and exits with status 0.\<close>

definition ex_reply :: reply where
  "ex_reply = \<lparr>rp_rc = 0, rp_errno = OtherErrno, rp_pipe = (3, 4), rp_data = [], rp_status = 0,
     rp_revents = (True, True), rp_now = 0\<rparr>"

definition ex_os :: os where
  "ex_os n = (if n = 1 then ex_reply\<lparr>rp_pipe := (5, 6)\<rparr>
     else if n = 2 then ex_reply\<lparr>rp_rc := 42\<rparr>
     else if n = 10 then ex_reply\<lparr>rp_data := ''ok''\<rparr>
     else if n = 13 then ex_reply\<lparr>rp_rc := 42\<rparr>
     else if n \<ge> 14 then ex_reply\<lparr>rp_now := ms 5000\<rparr>
     else ex_reply)"

lemma ex_os_simps [simp]:
  "ex_os 0 = ex_reply"
  "ex_os (Suc 0) = ex_reply\<lparr>rp_pipe := (5, 6)\<rparr>"
  "ex_os (Suc (Suc 0)) = ex_reply\<lparr>rp_rc := 42\<rparr>"
  "ex_os (Suc (Suc (Suc 0))) = ex_reply"
  "ex_os (Suc (Suc (Suc (Suc 0)))) = ex_reply"
  "ex_os (Suc (Suc (Suc (Suc (Suc 0))))) = ex_reply"
  "ex_os (Suc (Suc (Suc (Suc (Suc (Suc 0)))))) = ex_reply"
  "ex_os (Suc (Suc (Suc (Suc (Suc (Suc (Suc 0))))))) = ex_reply"
  "ex_os (Suc (Suc (Suc (Suc (Suc (Suc (Suc (Suc 0)))))))) = ex_reply"
  "ex_os (Suc (Suc (Suc (Suc (Suc (Suc (Suc (Suc (Suc 0))))))))) = ex_reply"
  "ex_os (Suc (Suc (Suc (Suc (Suc (Suc (Suc (Suc (Suc (Suc 0)))))))))) = ex_reply\<lparr>rp_data := ''ok''\<rparr>"
  "ex_os (Suc (Suc (Suc (Suc (Suc (Suc (Suc (Suc (Suc (Suc (Suc 0))))))))))) = ex_reply"
  "ex_os (Suc (Suc (Suc (Suc (Suc (Suc (Suc (Suc (Suc (Suc (Suc (Suc 0)))))))))))) = ex_reply"
  "ex_os (Suc (Suc (Suc (Suc (Suc (Suc (Suc (Suc (Suc (Suc (Suc (Suc (Suc 0))))))))))))) = ex_reply\<lparr>rp_rc := 42\<rparr>"
  by (simp_all add: ex_os_def)

lemma ex_reply_simps [simp]:
  "rp_rc ex_reply = 0" "rp_pipe ex_reply = (3, 4)" "rp_data ex_reply = []" "rp_status ex_reply = 0"
  "rp_revents ex_reply = (True, True)" "rp_now ex_reply = 0"
  by (simp_all add: ex_reply_def)

lemmas ex_run_defs = execute_readonly_command_def make_cloexec_pipe_def supervise_def set_nonblocking_def
  drain_slot_def close_if_open_def close_fd_def logged_def append_out_def fresh_xs_def
  millis_def ms_def exit_code_def WIFEXITED_def WEXITSTATUS_def

lemma ex_execute:
  "run_state (execute_readonly_command (Suc (Suc (Suc n))) ex_os [''ip''] 0) fresh_xs =
     (Some 0, \<lparr>out_text = ''ok'', err_text = [], sys_log = [CloseFd 3, CloseFd 5, WaitNohang 42 0,
        CloseFd 5, ReadFd 5, CloseFd 3, ReadFd 3, ReadFd 3, PollFds 5000, ClockNow, ClockNow,
        SetNonblock 5, SetNonblock 3, GetFlags 5, GetFlags 3, CloseFd 6, CloseFd 4, Fork 42,
        Pipe2 0 (5, 6), Pipe2 0 (3, 4)], sys_no = 14\<rparr>)"
  by (simp add: ex_run_defs Let_def)

lemma exit_code_zero: "exit_code st = 0 \<longleftrightarrow> WIFEXITED st \<and> WEXITSTATUS st = 0"
  by (auto simp: exit_code_def WTERMSIG_def)

section \<open>Properties\<close>

text \<open>
  C31. The executor never misreports its child: whatever the system calls return, a returned value
  means either that no child was started (and it is 127 or -1), or that the child ended by itself,
  was reaped exactly once and the value is its exit code, or that the child was killed and waited for and the
  value is not 0. So 0 is returned only for a child that exited with status 0.\<close>

theorem command_status_truthful:
  assumes "run_state (execute_readonly_command fuel w args t) fresh_xs = (Some rc, s)"
  shows "(\<forall>pid \<ge> 0. Fork pid \<notin> set (sys_log s)) \<and> (rc = 127 \<or> rc = - 1) \<or>
    (\<exists>pid \<ge> 0. Fork pid \<in> set (sys_log s) \<and>
       ((\<exists>st. WaitNohang pid st \<in> set (sys_log s) \<and> rc = exit_code st \<and>
           (rc = 0 \<longrightarrow> WIFEXITED st \<and> WEXITSTATUS st = 0) \<and> reaps pid (sys_log s) = 1 \<and> Kill \<notin> set (sys_log s)) \<or>
        (rc \<noteq> 0 \<and> Kill \<in> set (sys_log s) \<and>
           (reaps pid (sys_log s) = 1 \<or> reaps pid (sys_log s) = 0 \<and> list_ex failed_wait (sys_log s)))))"
proof -
  have "outcome (Some rc) (sys_log s)"
    using tripleD [OF execute_outcome _ assms] by (simp add: fresh_xs_def)
  then show ?thesis
    unfolding outcome_def
  proof
    assume "\<exists>pid \<ge> 0. Fork pid \<in> set (sys_log s) \<and> supervised pid (Some rc) (sys_log s)"
    then obtain pid where pid: "pid \<ge> 0" "Fork pid \<in> set (sys_log s)" "supervised pid (Some rc) (sys_log s)"
      by blast
    show ?thesis
      by (rule disjI2, rule exI [of _ pid]) (use pid in \<open>auto simp: supervised_def waited_for_def exit_code_zero\<close>)
  qed simp
qed

theorem command_status_truthful_witness:
  "\<exists>pid \<ge> 0. Fork pid \<in> set (sys_log (snd (run_state (execute_readonly_command (Suc (Suc (Suc 12))) ex_os [''ip''] 0) fresh_xs)))"
  using command_status_truthful [OF ex_execute] unfolding ex_execute by simp

text \<open>
  C35. No descriptor leaks: on every path, failures and timeouts included, each end of each pipe
  that was created has been closed when the executor returns.\<close>

theorem command_leaks_no_descriptor:
  "leaks (sys_log (snd (run_state (execute_readonly_command fuel w args t) fresh_xs))) = {}"
  using triple_snd [OF execute_closes [of fuel w args t], of fresh_xs] by (simp add: fresh_xs_def)

text \<open>
  C36. The executor returns: if the clock eventually passes the deadline and calls eventually are neither
  interrupted nor deliver more output, then enough fuel gives a result; the fuel needed is one more than the
  number of the reply after which this holds.\<close>

theorem command_terminates:
  assumes "calms_down w N" "N < fuel"
    and "\<And>m n. m \<le> 13 \<Longrightarrow> N \<le> n \<Longrightarrow> rp_now (w m) + ms (if t \<le> 0 then 5000 else t) \<le> rp_now (w n)"
  shows "\<exists>rc. fst (run_state (execute_readonly_command fuel w args t) fresh_xs) = Some rc"
  using triple_fst [OF execute_returns [OF assms], of fresh_xs] by (simp add: fresh_xs_def)

theorem command_terminates_witness:
  "\<exists>rc. fst (run_state (execute_readonly_command (Suc (Suc (Suc 12))) ex_os [''ip''] 0) fresh_xs) = Some rc"
  by (rule command_terminates [where N = 14])
    (auto simp: calms_down_def calm_def ex_os_def ex_reply_def ms_def)

section \<open>Where the code departs from its documentation\<close>

text \<open>
  A read end that reaches end of file is closed by the loop and again by the guard that still owns it.
\<close>

lemma descriptor_closed_twice:
  "count_list (sys_log (snd (run_state (execute_readonly_command (Suc (Suc (Suc 12))) ex_os [''ip''] 0) fresh_xs))) (CloseFd 3) = 2"
  unfolding ex_execute by simp

text \<open>
  The inner read loop does not look at the deadline: while the child keeps writing, the executor does not
  return, however much time has passed.
\<close>

definition flood_os :: os where
  "flood_os n = (if n < 10 then ex_os n else ex_reply\<lparr>rp_data := ''x'', rp_now := ms (int n * 1000000)\<rparr>)"

lemma flood_os_simps [simp]:
  "flood_os 0 = ex_reply"
  "flood_os (Suc 0) = ex_reply\<lparr>rp_pipe := (5, 6)\<rparr>"
  "flood_os (Suc (Suc 0)) = ex_reply\<lparr>rp_rc := 42\<rparr>"
  "flood_os (Suc (Suc (Suc 0))) = ex_reply"
  "flood_os (Suc (Suc (Suc (Suc 0)))) = ex_reply"
  "flood_os (Suc (Suc (Suc (Suc (Suc 0))))) = ex_reply"
  "flood_os (Suc (Suc (Suc (Suc (Suc (Suc 0)))))) = ex_reply"
  "flood_os (Suc (Suc (Suc (Suc (Suc (Suc (Suc 0))))))) = ex_reply"
  "flood_os (Suc (Suc (Suc (Suc (Suc (Suc (Suc (Suc 0)))))))) = ex_reply"
  "flood_os (Suc (Suc (Suc (Suc (Suc (Suc (Suc (Suc (Suc 0))))))))) = ex_reply"
  by (simp_all add: flood_os_def ex_os_def)

lemma flood_drain: "10 \<le> sys_no s \<Longrightarrow> fst (run_state (drain_fd fuel flood_os b fd) s) = None"
  by (induction fuel arbitrary: s)
    (simp_all add: flood_os_def append_out_def case_prod_beta Let_def)

lemma flood_loop:
  assumes "sys_no s = Suc (Suc (Suc (Suc (Suc (Suc (Suc (Suc 0)))))))" "d = ms 5000"
  shows "fst (run_state (lifetime_loop fuel dfuel flood_os pid d fds (True, True)) s) = None"
proof (cases fuel)
  case (Suc n)
  then show ?thesis
    using assms flood_drain by (simp add: case_prod_beta drain_slot_def millis_def ms_def)
qed simp

theorem deadline_does_not_bound_reads:
  "fst (run_state (execute_readonly_command fuel flood_os [''ip''] 5000) fresh_xs) = None"
proof -
  let ?s = "\<lparr>out_text = [], err_text = [], sys_log = [ClockNow, SetNonblock 5, SetNonblock 3, GetFlags 5, GetFlags 3,
    CloseFd 6, CloseFd 4, Fork 42, Pipe2 0 (5, 6), Pipe2 0 (3, 4)], sys_no = Suc (Suc (Suc (Suc (Suc (Suc (Suc (Suc 0)))))))\<rparr>"
  obtain t where "run_state (lifetime_loop fuel fuel flood_os 42 (ms 5000) (3, 5) (True, True)) ?s = (None, t)"
    using flood_loop [of ?s "ms 5000" fuel fuel 42 "(3, 5)"] by (metis prod.collapse xs.select_convs(4))
  then show ?thesis
    by (simp add: execute_readonly_command_def make_cloexec_pipe_def supervise_def set_nonblocking_def
      close_if_open_def close_fd_def logged_def fresh_xs_def)
qed

end
