(* ===== verification/Sdk_Types.thy ===== *)
theory Sdk_Types
  imports Robot_Controller
begin

text \<open>
  The vocabulary of the SDK boundary (\<^verbatim>\<open>astrall_sdk.hpp\<close>) shared by the driver runtime, which
  calls it, and the adapter \<^verbatim>\<open>DirectAstrallSdk\<close>, which implements it: result codes, the call outcome
  and the copies of the vendor telemetry.
\<close>

definition kSdkResFailed :: u16 where "kSdkResFailed = 0x8004"
definition kSdkResTimeout :: u16 where "kSdkResTimeout = 0x8005"
definition kSdkResRunning :: u16 where "kSdkResRunning = 0x8006"
definition kSdkResSuccess :: u16 where "kSdkResSuccess = 0x8008"
definition kSdkResInvalidParam :: u16 where "kSdkResInvalidParam = 0x8010"
definition kSdkResNotInit :: u16 where "kSdkResNotInit = 0x8011"
definition kSdkResRcNoRelease :: u16 where "kSdkResRcNoRelease = 0x8020"
definition kSdkResBeenObtained :: u16 where "kSdkResBeenObtained = 0x8021"
definition kSdkResWithoutAuth :: u16 where "kSdkResWithoutAuth = 0x8022"

record Result =
  code :: u16
  message :: string

definition success :: "Result \<Rightarrow> bool" where
  "success r \<longleftrightarrow> code r = kSdkResSuccess"

definition ok :: "string \<Rightarrow> Result" where
  "ok msg = \<lparr>code = kSdkResSuccess, message = msg\<rparr>"

definition failure :: "u16 \<Rightarrow> string \<Rightarrow> Result" where
  "failure c msg = \<lparr>code = c, message = msg\<rparr>"

datatype SubscriptionFrequency = Disabled | Hz1 | Hz25 | Hz50 | Hz125 | Hz250

record ImuSample =
  imu_timestamp :: int
  accelerometer :: "fl list"
  gyroscope :: "fl list"
  quaternion :: "fl list"
  imu_pitch :: fl
  imu_roll :: fl
  imu_yaw :: fl
  odom_x :: fl
  odom_y :: fl

record SportSample =
  sport_timestamp :: int
  wheel_speed :: "fl list"

record SdkSnapshot =
  sn_sdk_linked :: bool
  sn_control_authority :: bool
  sn_system_status :: u8
  sn_error_code :: u32
  sn_warning_code :: u32
  sn_sport_status :: u16
  sn_battery_percentage :: fl
  sn_battery_temperature :: fl
  sn_battery_voltage :: fl
  sn_battery_cycle_count :: u16
  sn_charge_status :: u16
  sn_wheel_speed :: "fl list"

text \<open>\<^verbatim>\<open>describe_sdk_result_code\<close>; \<^verbatim>\<open>std::hex\<close> prints without leading zeros.\<close>

fun hex_digits :: "nat \<Rightarrow> string" where
  "hex_digits n = (if n < 16 then [''0123456789abcdef'' ! n]
     else hex_digits (n div 16) @ [''0123456789abcdef'' ! (n mod 16)])"

declare hex_digits.simps [simp del]

definition describe_sdk_result_code :: "u16 \<Rightarrow> string" where
  "describe_sdk_result_code c =
     (if c = kSdkResFailed then ''execution or request failed''
      else if c = kSdkResTimeout then ''timeout''
      else if c = kSdkResRunning then ''operation still running''
      else if c = kSdkResSuccess then ''success''
      else if c = kSdkResInvalidParam then ''invalid parameter''
      else if c = kSdkResNotInit then ''SDK not initialized''
      else if c = kSdkResRcNoRelease then ''remote controller has not released authority''
      else if c = kSdkResBeenObtained then ''control authority already held by another device''
      else if c = kSdkResWithoutAuth then ''no control authority''
      else ''unknown SDK result code 0x'' @ hex_digits (unat c))"

end
