(* ===== verification/Driver_Runtime.thy ===== *)
theory Driver_Runtime
  imports Thread_Safe_Queue Sdk_Types Network_Preflight "HOL-Library.State_Monad"
begin

text \<open>
  The driver runtime: \<^verbatim>\<open>DirectDriverRuntime\<close> of \<^verbatim>\<open>direct_driver_runtime.hpp\<close> and
  \<^verbatim>\<open>direct_driver_runtime.cpp\<close>. The worker thread is written in the state monad, one action
  per function of the source; the other threads (callers of the public methods, and the
  vendor threads that deliver status and telemetry) are a list of outside events that run
  at every interference point of the worker: before its critical sections and
  around every SDK call. The loop that pops and fails the queued commands is one action, with
  the calls of the controller and the promises in it, and so is a call of the controller with
  the promise that is set after it. A client call with several critical sections is cut at their
  boundaries. What the SDK, the preflight and the other threads do is the parameter
  \<open>env\<close>: for each interference point, the outside events, the reply of an SDK
  call, the snapshot and the preflight decision. Promises are numbers; \<open>answers\<close> maps a
  promise to the result its future received. The clock is part of the state and moves by
  the outside event \<open>Elapse\<close>, so it never goes back.

  Ghost state: \<open>trace\<close> lists the worker's actions, newest first, and \<open>ctl_history\<close> the
  operations the controller performed, in order.
\<close>

section \<open>Data\<close>

record RuntimeConfig =
  rc_interface :: string
  rc_host_address :: string
  rc_robot_address :: string
  init_timeout_ms :: u32
  sdk_call_timeout_ms :: u32
  heartbeat_call_timeout_ms :: u32
  heartbeat_max_failures :: u32
  queue_capacity :: nat
  heartbeat_period :: int
  motion_refresh_period :: int
  deadman_ms :: int
  mode_timeout_ms :: int
  state_poll_period :: int
  imu_freq :: SubscriptionFrequency
  sport_freq :: SubscriptionFrequency
  lidar_freq :: SubscriptionFrequency
  enable_lidar_stream :: bool
  reconnect_initial_delay_ms :: int
  reconnect_max_delay_ms :: int

datatype Severity = Info | Warning | Error

datatype observation =
  OnState SdkSnapshot | OnImu ImuSample | OnSport SportSample | OnStatus bool bool
| OnEvent Severity string

type_synonym promise = nat

datatype Command =
  RequestAuthorityCommand bool promise
| RequestModeCommand u16 promise

fun command_promise :: "Command \<Rightarrow> promise" where
  "command_promise (RequestAuthorityCommand sdk p) = p"
| "command_promise (RequestModeCommand mode p) = p"

fun is_mode_command :: "Command \<Rightarrow> bool" where
  "is_mode_command (RequestAuthorityCommand sdk p) = False"
| "is_mode_command (RequestModeCommand mode p) = True"

record ModeTransition =
  mt_active :: bool
  stable_status :: u16
  mt_deadline :: time
  mt_promise :: promise

text \<open>The SDK calls, with their arguments, and the other actions of the worker.\<close>

datatype action =
  Init u32
| Deinit
| Heartbeat u32
| RequestAuthority bool u32
| SubscribeImu SubscriptionFrequency u32
| SubscribeSport SubscriptionFrequency u32
| SubscribeLidar SubscriptionFrequency u32
| Move velocity u32
| SetMode u16 u32
| Snapshot
| Preflight NetworkExpectation
| Tick time ctl "(time \<times> ctl_op) list"
| Popped Command
| StopSequence
| SessionStart
| SessionEnd

text \<open>
  Calls of the public interface and callbacks, as steps of other threads. \<open>EstopBegin\<close> and
  \<open>ModeBegin\<close> are the first section of a call; \<open>Resume\<close> performs the next section of the call
  that owns the promise.
\<close>

datatype outside =
  Elapse int
| StatusReport bool bool
| ImuReport ImuSample
| SportReport SportSample
| SubmitVelocity velocity
| EstopBegin
| EstopRelease
| AuthorityRequest bool
| ModeBegin string
| Resume promise
| StopRequest

datatype client =
  AtEstopMark promise
| AtModeGate promise string
| AtModeEnqueue promise u16

fun client_promise :: "client \<Rightarrow> promise" where
  "client_promise (AtEstopMark p) = p"
| "client_promise (AtModeGate p n) = p"
| "client_promise (AtModeEnqueue p m) = p"

datatype exception = StdException string | UnknownException

record turn =
  tn_outside :: "outside list"
  tn_result :: Result
  tn_exception :: "exception option"
  tn_snapshot :: SdkSnapshot
  tn_decision :: NetworkDecision

record env =
  world :: "nat \<Rightarrow> turn"
  observer :: "(observation \<Rightarrow> bool) option"
  config :: RuntimeConfig

datatype worker_pc =
  NotStarted | Connecting | BackingOff time | InSession | Exited

record rt =
  ctrl :: ctl
  stop_requested :: bool
  sdk_linked :: bool
  connected :: bool
  link_drop_latched :: bool
  control_authority :: bool
  last_snapshot_sport_status :: u16
  last_snapshot_error_code :: u32
  motion_refresh_due :: bool
  estop_engaged :: bool
  estop_promise :: "promise option"
  command_queue :: "Command tsq"
  mode_transition :: ModeTransition
  last_sent_nonzero :: bool
  driver_ready_armed :: bool
  latest_imu :: "ImuSample option"
  latest_sport :: "SportSample option"
  observer_errors :: nat
  observed :: "observation list"
  next_promise :: nat
  answers :: "promise \<rightharpoonup> Result"
  clients :: "client list"
  worker :: worker_pc
  backoff :: int
  heartbeat_failures :: nat
  next_heartbeat :: time
  next_state_poll :: time
  next_motion_refresh :: time
  iteration_now :: time
  clk :: time
  turn_no :: nat
  trace :: "action list"
  ctl_history :: "(time \<times> ctl_op) list"

section \<open>Primitives\<close>

text \<open>\<^verbatim>\<open>set_promise\<close>: the first answer wins.\<close>

definition set_promise :: "promise \<Rightarrow> Result \<Rightarrow> rt \<Rightarrow> rt" where
  "set_promise p r s = (if answers s p = None then s\<lparr>answers := (answers s)(p \<mapsto> r)\<rparr> else s)"

definition make_promise :: "rt \<Rightarrow> promise \<times> rt" where
  "make_promise s = (next_promise s, s\<lparr>next_promise := next_promise s + 1\<rparr>)"

text \<open>One call of a controller method that changes the controller.\<close>

definition ctl_do :: "ctl_op \<Rightarrow> rt \<Rightarrow> rt" where
  "ctl_do f s = s\<lparr>ctrl := ctl_apply (clk s) f (ctrl s), ctl_history := ctl_history s @ [(clk s, f)]\<rparr>"

definition dispatch_observer_safely :: "env \<Rightarrow> observation \<Rightarrow> rt \<Rightarrow> rt" where
  "dispatch_observer_safely e b s = (case observer e of
     None \<Rightarrow> s
   | Some throws \<Rightarrow> s\<lparr>observed := b # observed s,
       observer_errors := observer_errors s + (if throws b then 1 else 0)\<rparr>)"

definition notify_event :: "env \<Rightarrow> Severity \<Rightarrow> string \<Rightarrow> rt \<Rightarrow> rt" where
  "notify_event e severity msg s = dispatch_observer_safely e (OnEvent severity msg) s"

definition stable_status_for :: "u16 \<Rightarrow> u16" where
  "stable_status_for mode =
     (if mode = 0xA101 then 0xB101
      else if mode = 0xA102 then 0xB102
      else if mode = 0xA103 then 0xB103
      else if mode = 0xA104 then 0xB104
      else if mode = 0xA105 then 0xB107
      else if mode = 0xA106 then 0xB10B
      else if mode = 0xA1FF then 0xB1FF
      else 0)"

text \<open>\<^verbatim>\<open>std::string::find\<close> of a fixed text, as a test.\<close>

fun contains :: "string \<Rightarrow> string \<Rightarrow> bool" where
  "contains [] pat = (pat = [])"
| "contains (c # s) pat = (take (length pat) (c # s) = pat \<or> contains s pat)"

definition map_mode_rejection :: "ModeDecision \<Rightarrow> Result" where
  "map_mode_rejection decision = (case md_error decision of
     InvalidCommand \<Rightarrow>
       if contains (md_reason decision) ''pending'' then failure kSdkResRunning (md_reason decision)
       else failure kSdkResInvalidParam (md_reason decision)
   | SdkDisconnected \<Rightarrow> failure kSdkResNotInit (md_reason decision)
   | NoControlAuthority \<Rightarrow> failure kSdkResWithoutAuth (md_reason decision)
   | _ \<Rightarrow> failure kSdkResFailed (md_reason decision))"

section \<open>Other threads\<close>

text \<open>The condition under which the public methods refuse to enqueue anything.\<close>

definition unavailable :: "rt \<Rightarrow> bool" where
  "unavailable s \<longleftrightarrow> stop_requested s \<or> \<not> connected s \<or> \<not> sdk_linked s \<or> link_drop_latched s"

definition rt_submit_velocity :: "env \<Rightarrow> velocity \<Rightarrow> rt \<Rightarrow> rt" where
  "rt_submit_velocity e v s =
     (let decision = fst (accept_velocity (clk s) v (ctrl s)); s = ctl_do (AcceptVelocity v) s in
      if \<not> vd_accepted decision then notify_event e Warning (''velocity rejected: '' @ vd_reason decision) s
      else s)"

definition rt_release_estop :: "rt \<Rightarrow> rt" where
  "rt_release_estop s =
     (let s = ctl_do ClearEstop s; (p, s) = make_promise s in
      set_promise p (ok ''software emergency stop cleared'') s)"

definition rt_trigger_estop :: "rt \<Rightarrow> rt" where
  "rt_trigger_estop s =
     (let s = ctl_do TriggerEstop s; (p, s) = make_promise s in
      s\<lparr>clients := clients s @ [AtEstopMark p]\<rparr>)"

definition estop_mark :: "promise \<Rightarrow> rt \<Rightarrow> rt" where
  "estop_mark p s =
     (let s = (case estop_promise s of
                 Some old \<Rightarrow> set_promise old (failure kSdkResFailed ''emergency stop request superseded'') s
               | None \<Rightarrow> s);
          s = s\<lparr>estop_engaged := True, estop_promise := Some p\<rparr>
      in if unavailable s
         then set_promise p (failure kSdkResNotInit
                ''runtime is disconnected; emergency stop latched locally'')
              (s\<lparr>estop_engaged := False, estop_promise := None\<rparr>)
         else s)"

definition rt_request_authority :: "bool \<Rightarrow> rt \<Rightarrow> rt" where
  "rt_request_authority sdk s =
     (let (p, s) = make_promise s in
      if unavailable s
      then set_promise p (failure kSdkResNotInit
             ''runtime is disconnected; authority request not enqueued'') s
      else (let (pushed, q) = push (RequestAuthorityCommand sdk p) (command_queue s);
                s = s\<lparr>command_queue := q\<rparr>
            in if \<not> pushed then set_promise p (failure kSdkResFailed ''command queue is full'') s else s))"

definition rt_request_mode :: "string \<Rightarrow> rt \<Rightarrow> rt" where
  "rt_request_mode name s =
     (let (p, s) = make_promise s in
      if unavailable s
      then set_promise p (failure kSdkResNotInit
             ''runtime is disconnected; mode request not enqueued'') s
      else s\<lparr>clients := clients s @ [AtModeGate p name]\<rparr>)"

definition mode_gate :: "promise \<Rightarrow> string \<Rightarrow> rt \<Rightarrow> rt" where
  "mode_gate p name s =
     (let decision = fst (request_mode (clk s) name (ctrl s)); s = ctl_do (RequestMode name) s in
      if \<not> md_accepted decision then set_promise p (map_mode_rejection decision) s
      else s\<lparr>clients := clients s @ [AtModeEnqueue p (md_mode decision)]\<rparr>)"

definition mode_enqueue :: "promise \<Rightarrow> u16 \<Rightarrow> rt \<Rightarrow> rt" where
  "mode_enqueue p mode s =
     (if unavailable s
      then set_promise p (failure kSdkResNotInit
             ''runtime disconnected before the mode command was enqueued'')
           (ctl_do (CompleteModeTransition False) s)
      else (let (pushed, q) = push (RequestModeCommand mode p) (command_queue s);
                s = s\<lparr>command_queue := q\<rparr>
            in if \<not> pushed
               then set_promise p (failure kSdkResFailed ''command queue is full'')
                      (ctl_do (CompleteModeTransition False) s)
               else s))"

definition resume :: "promise \<Rightarrow> rt \<Rightarrow> rt" where
  "resume p s = (case find (\<lambda>c. client_promise c = p) (clients s) of
     None \<Rightarrow> s
   | Some c \<Rightarrow>
       (let s = s\<lparr>clients := remove1 c (clients s)\<rparr> in
        case c of
          AtEstopMark p \<Rightarrow> estop_mark p s
        | AtModeGate p name \<Rightarrow> mode_gate p name s
        | AtModeEnqueue p mode \<Rightarrow> mode_enqueue p mode s))"

definition handle_status :: "env \<Rightarrow> bool \<Rightarrow> bool \<Rightarrow> rt \<Rightarrow> rt" where
  "handle_status e linked authority s =
     (let s = s\<lparr>sdk_linked := linked, control_authority := authority\<rparr>;
          s = (if \<not> linked then s\<lparr>link_drop_latched := True\<rparr> else s);
          s = ctl_do (UpdateRobotState \<lparr>st_linked = linked, st_authority = authority,
                st_sport = last_snapshot_sport_status s, st_error = last_snapshot_error_code s\<rparr>) s;
          s = s\<lparr>motion_refresh_due := True\<rparr>
      in dispatch_observer_safely e (OnStatus linked authority) s)"

definition handle_imu :: "env \<Rightarrow> ImuSample \<Rightarrow> rt \<Rightarrow> rt" where
  "handle_imu e sample s = dispatch_observer_safely e (OnImu sample) (s\<lparr>latest_imu := Some sample\<rparr>)"

definition handle_sport :: "env \<Rightarrow> SportSample \<Rightarrow> rt \<Rightarrow> rt" where
  "handle_sport e sample s = dispatch_observer_safely e (OnSport sample) (s\<lparr>latest_sport := Some sample\<rparr>)"

definition rt_stop :: "rt \<Rightarrow> rt" where
  "rt_stop s = s\<lparr>stop_requested := True\<rparr>"

definition rt_start :: "rt \<Rightarrow> rt" where
  "rt_start s = (if worker s \<noteq> NotStarted \<or> stop_requested s then s else s\<lparr>worker := Connecting\<rparr>)"

fun outside_step :: "env \<Rightarrow> outside \<Rightarrow> rt \<Rightarrow> rt" where
  "outside_step e (Elapse d) s = s\<lparr>clk := clk s + max 0 d\<rparr>"
| "outside_step e (StatusReport linked authority) s = handle_status e linked authority s"
| "outside_step e (ImuReport sample) s = handle_imu e sample s"
| "outside_step e (SportReport sample) s = handle_sport e sample s"
| "outside_step e (SubmitVelocity v) s = rt_submit_velocity e v s"
| "outside_step e EstopBegin s = rt_trigger_estop s"
| "outside_step e EstopRelease s = rt_release_estop s"
| "outside_step e (AuthorityRequest sdk) s = rt_request_authority sdk s"
| "outside_step e (ModeBegin name) s = rt_request_mode name s"
| "outside_step e (Resume p) s = resume p s"
| "outside_step e StopRequest s = rt_stop s"

definition run_outside :: "env \<Rightarrow> outside list \<Rightarrow> rt \<Rightarrow> rt" where
  "run_outside e os s = fold (outside_step e) os s"

section \<open>The worker thread\<close>

definition act :: "(rt \<Rightarrow> rt) \<Rightarrow> (rt, unit) state" where
  "act f = State (\<lambda>s. ((), f s))"

definition ask :: "(rt \<Rightarrow> 'a) \<Rightarrow> (rt, 'a) state" where
  "ask f = State (\<lambda>s. (f s, s))"

abbreviation ret :: "'a \<Rightarrow> (rt, 'a) state" where
  "ret \<equiv> State_Monad.return"

text \<open>An interference point: the other threads run.\<close>

definition interfere :: "env \<Rightarrow> (rt, unit) state" where
  "interfere e = act (\<lambda>s. run_outside e (tn_outside (world e (turn_no s))) (s\<lparr>turn_no := turn_no s + 1\<rparr>))"

definition record_action :: "action \<Rightarrow> rt \<Rightarrow> rt" where
  "record_action a s = s\<lparr>trace := a # trace s\<rparr>"

text \<open>A blocking call into the SDK or the preflight; other threads run before and during it.\<close>

definition call :: "env \<Rightarrow> action \<Rightarrow> (rt, turn) state" where
  "call e a = do {
     _ \<leftarrow> interfere e;
     _ \<leftarrow> act (record_action a);
     t \<leftarrow> ask (\<lambda>s. world e (turn_no s));
     _ \<leftarrow> interfere e;
     ret t
   }"

subsection \<open>Mode transitions\<close>

definition fail_mode_transition :: "Result \<Rightarrow> bool \<Rightarrow> rt \<Rightarrow> rt" where
  "fail_mode_transition result complete_controller s =
     (if \<not> mt_active (mode_transition s) then s
      else
        let p = mt_promise (mode_transition s);
            s = s\<lparr>mode_transition := (mode_transition s)\<lparr>mt_active := False\<rparr>\<rparr>;
            s = (if complete_controller then ctl_do (CompleteModeTransition False) s else s)
        in set_promise p result s)"

definition settle_mode_transition_timeout :: "rt \<Rightarrow> rt" where
  "settle_mode_transition_timeout s =
     (let p = mt_promise (mode_transition s);
          s = s\<lparr>mode_transition := (mode_transition s)\<lparr>mt_active := False\<rparr>\<rparr>;
          s = ctl_do (CompleteModeTransition False) s
      in set_promise p (failure kSdkResTimeout
           ''mode transition timed out before reaching the stable sport status'') s)"

text \<open>
  Other threads run between the look at the controller and what is done about it: what was pending may have been aborted,
  and a mode may have been accepted, in between.
\<close>

definition confirm_mode_transition :: "SdkSnapshot \<Rightarrow> rt \<Rightarrow> rt" where
  "confirm_mode_transition snapshot s =
     (if sn_sport_status snapshot = stable_status (mode_transition s) then
        (let p = mt_promise (mode_transition s);
             s = s\<lparr>mode_transition := (mode_transition s)\<lparr>mt_active := False\<rparr>\<rparr>;
             s = ctl_do (CompleteModeTransition True) s
         in set_promise p (ok ''mode transition reached the stable sport status'') s)
      else if iteration_now s \<ge> mt_deadline (mode_transition s) then settle_mode_transition_timeout s
      else s)"

definition check_mode_transition :: "env \<Rightarrow> SdkSnapshot \<Rightarrow> (rt, unit) state" where
  "check_mode_transition e snapshot = do {
     active \<leftarrow> ask (\<lambda>s. mt_active (mode_transition s));
     if \<not> active then ret ()
     else do {
       pending \<leftarrow> ask (\<lambda>s. mode_transition_pending (ctrl s));
       if \<not> pending
       then act (fail_mode_transition (failure kSdkResFailed ''mode transition aborted by the safety gate'') False)
       else do {
         _ \<leftarrow> interfere e;
         act (confirm_mode_transition snapshot)
       }
     }
   }"

definition settle_orphan :: "env \<Rightarrow> (rt, unit) state" where
  "settle_orphan e = do {
     orphan \<leftarrow> ask (\<lambda>s. mt_active (mode_transition s) \<and> \<not> mode_transition_pending (ctrl s));
     if orphan then do {
       _ \<leftarrow> interfere e;
       act (fail_mode_transition (failure kSdkResFailed ''mode transition aborted by the safety gate'') True)
     }
     else ret ()
   }"

definition settle_if_due :: "rt \<Rightarrow> rt" where
  "settle_if_due s =
     (if mt_active (mode_transition s) \<and> iteration_now s \<ge> mt_deadline (mode_transition s)
      then settle_mode_transition_timeout s else s)"

subsection \<open>Stopping\<close>

definition send_zero_and_damping :: "env \<Rightarrow> (rt, bool) state" where
  "send_zero_and_damping e = do {
     _ \<leftarrow> act (record_action StopSequence);
     t \<leftarrow> call e (Move zero_velocity (sdk_call_timeout_ms (config e)));
     _ \<leftarrow> (if \<not> success (tn_result t)
        then act (notify_event e Warning (''zero-velocity move failed: '' @ message (tn_result t)))
        else ret ());
     u \<leftarrow> call e (SetMode 0xA101 (sdk_call_timeout_ms (config e)));
     _ \<leftarrow> (if \<not> success (tn_result u)
        then act (notify_event e Warning (''damping mode command failed: '' @ message (tn_result u)))
        else ret ());
     _ \<leftarrow> (if success (tn_result t) then act (\<lambda>s. s\<lparr>last_sent_nonzero := False\<rparr>) else ret ());
     ret (success (tn_result t) \<and> success (tn_result u))
   }"

text \<open>The SDK link and control authority are present and no link drop is latched.\<close>

definition may_actuate :: "rt \<Rightarrow> bool" where
  "may_actuate s \<longleftrightarrow> sdk_linked s \<and> control_authority s \<and> \<not> link_drop_latched s"

definition actuate_stop_if_authorized :: "env \<Rightarrow> (rt, unit) state" where
  "actuate_stop_if_authorized e = do {
     _ \<leftarrow> interfere e;
     may \<leftarrow> ask may_actuate;
     if \<not> may then ret ()
     else do { _ \<leftarrow> send_zero_and_damping e; ret () }
   }"

definition fail_command :: "Result \<Rightarrow> Command \<Rightarrow> rt \<Rightarrow> rt" where
  "fail_command r cmd s =
     set_promise (command_promise cmd) r
       (if is_mode_command cmd then ctl_do (CompleteModeTransition False) s else s)"

definition fail_queue :: "Result \<Rightarrow> rt \<Rightarrow> rt" where
  "fail_queue r s = (let (cmds, q) = drain (command_queue s) in
     fold (fail_command r) cmds (s\<lparr>command_queue := q\<rparr>))"

text \<open>The emergency-stop mark and its promise, moved into a local variable.\<close>

definition take_estop :: "(rt, promise option option) state" where
  "take_estop = State (\<lambda>s. if \<not> estop_engaged s then (None, s)
     else (Some (estop_promise s), s\<lparr>estop_engaged := False, estop_promise := None\<rparr>))"

definition abort_for_estop :: "env \<Rightarrow> (rt, unit) state" where
  "abort_for_estop e = do {
     _ \<leftarrow> act (fail_mode_transition (failure kSdkResFailed ''mode transition aborted by the emergency stop'') False);
     _ \<leftarrow> interfere e;
     _ \<leftarrow> act (ctl_do (CompleteModeTransition False));
     _ \<leftarrow> interfere e;
     act (fail_queue (failure kSdkResFailed ''command aborted by the emergency stop''))
   }"

text \<open>Answering through the moved pointer; a null pointer would be undefined behaviour.\<close>

definition answer_estop :: "promise option \<Rightarrow> Result \<Rightarrow> rt \<Rightarrow> rt" where
  "answer_estop p r s = (case p of Some q \<Rightarrow> set_promise q r s | None \<Rightarrow> s)"

definition handle_estop_if_requested :: "env \<Rightarrow> (rt, unit) state" where
  "handle_estop_if_requested e = do {
     _ \<leftarrow> interfere e;
     taken \<leftarrow> take_estop;
     case taken of
       None \<Rightarrow> ret ()
     | Some p \<Rightarrow> do {
         _ \<leftarrow> interfere e;
         _ \<leftarrow> abort_for_estop e;
         _ \<leftarrow> interfere e;
         may \<leftarrow> ask may_actuate;
         if \<not> may then act (answer_estop p (failure kSdkResWithoutAuth
             ''no SDK link or control authority; emergency stop latched locally only''))
         else do {
           sent \<leftarrow> send_zero_and_damping e;
           if sent then act (answer_estop p (ok ''emergency stop executed: zero velocity and damping mode''))
           else act (answer_estop p (failure kSdkResFailed
             ''emergency stop latched but the zero-velocity or damping command failed''))
         }
       }
   }"

definition drop_estop_mark :: "rt \<Rightarrow> rt" where
  "drop_estop_mark s =
     (if estop_engaged s
      then (let s = s\<lparr>estop_engaged := False\<rparr> in
            case estop_promise s of
              Some p \<Rightarrow> (set_promise p (failure kSdkResNotInit
                 ''connection lost during the emergency stop; the software latch remains set'') s)
                 \<lparr>estop_promise := None\<rparr>
            | None \<Rightarrow> s)
      else s)"

definition fail_all_pending_locked :: "rt \<Rightarrow> rt" where
  "fail_all_pending_locked s =
     (let s = drop_estop_mark s;
          s = fail_mode_transition (failure kSdkResNotInit ''connection lost during a mode transition'') False s
      in fail_queue (failure kSdkResNotInit ''runtime disconnected; command dropped'') s)"

subsection \<open>Commands\<close>

datatype flow = Continue | Returned | Threw exception

definition zero_before_mode :: "env \<Rightarrow> promise \<Rightarrow> (rt, flow) state" where
  "zero_before_mode e p = do {
     moving \<leftarrow> ask last_sent_nonzero;
     if \<not> moving then ret Continue
     else do {
       t \<leftarrow> call e (Move zero_velocity (sdk_call_timeout_ms (config e)));
       case tn_exception t of
         Some x \<Rightarrow> ret (Threw x)
       | None \<Rightarrow>
           if \<not> success (tn_result t) then do {
             _ \<leftarrow> act (ctl_do (CompleteModeTransition False));
             _ \<leftarrow> act (set_promise p (failure (code (tn_result t))
                    (''zero-velocity before mode switch failed: '' @ message (tn_result t))));
             ret Returned
           }
           else do {
             _ \<leftarrow> act (\<lambda>s. s\<lparr>last_sent_nonzero := False\<rparr>);
             ret Continue
           }
     }
   }"

definition switch_mode :: "env \<Rightarrow> u16 \<Rightarrow> promise \<Rightarrow> (rt, flow) state" where
  "switch_mode e mode p = do {
     t \<leftarrow> call e (SetMode mode (sdk_call_timeout_ms (config e)));
     case tn_exception t of
       Some x \<Rightarrow> ret (Threw x)
     | None \<Rightarrow>
         if \<not> success (tn_result t) then do {
           _ \<leftarrow> act (ctl_do (CompleteModeTransition False));
           _ \<leftarrow> act (set_promise p (failure (code (tn_result t))
                  (''set_mode rejected: '' @ message (tn_result t))));
           ret Returned
         }
         else if stable_status_for mode = 0 then do {
           _ \<leftarrow> act (ctl_do (CompleteModeTransition False));
           _ \<leftarrow> act (set_promise p (failure kSdkResInvalidParam
                  ''no stable sport status is mapped for the requested mode''));
           ret Returned
         }
         else do {
           _ \<leftarrow> act (\<lambda>s. s\<lparr>mode_transition := \<lparr>mt_active = True,
                  stable_status = stable_status_for mode,
                  mt_deadline = clk s + ms (mode_timeout_ms (config e)), mt_promise = p\<rparr>\<rparr>);
           ret Returned
         }
   }"

fun execute_body :: "env \<Rightarrow> Command \<Rightarrow> (rt, flow) state" where
  "execute_body e (RequestAuthorityCommand sdk p) = do {
     t \<leftarrow> call e (RequestAuthority sdk (sdk_call_timeout_ms (config e)));
     case tn_exception t of
       Some x \<Rightarrow> ret (Threw x)
     | None \<Rightarrow> do { _ \<leftarrow> act (set_promise p (tn_result t)); ret Returned }
   }"
| "execute_body e (RequestModeCommand mode p) = do {
     _ \<leftarrow> act (fail_mode_transition (failure kSdkResFailed
            ''mode transition superseded by a newer mode command'') False);
     f \<leftarrow> zero_before_mode e p;
     case f of
       Continue \<Rightarrow> switch_mode e mode p
     | _ \<Rightarrow> ret f
   }"

fun exception_text :: "exception \<Rightarrow> string" where
  "exception_text (StdException what) = ''command execution failed: '' @ what"
| "exception_text UnknownException = ''command execution failed with an unknown exception''"

definition abort_command :: "exception \<Rightarrow> Command \<Rightarrow> rt \<Rightarrow> rt" where
  "abort_command x cmd s =
     (let s = (if mt_active (mode_transition s)
               then set_promise (mt_promise (mode_transition s)) (failure kSdkResFailed
                      ''mode transition aborted by a command execution exception'')
                    (s\<lparr>mode_transition := (mode_transition s)\<lparr>mt_active := False\<rparr>\<rparr>)
               else s);
          s = ctl_do (CompleteModeTransition False) s
      in set_promise (command_promise cmd) (failure kSdkResFailed (exception_text x)) s)"

definition execute_command :: "env \<Rightarrow> Command \<Rightarrow> (rt, unit) state" where
  "execute_command e cmd = do {
     f \<leftarrow> execute_body e cmd;
     case f of Threw x \<Rightarrow> act (abort_command x cmd) | _ \<Rightarrow> ret ()
   }"

text \<open>\<^verbatim>\<open>command_queue_.try_pop()\<close> of an iteration.\<close>

definition pop_command :: "(rt, Command option) state" where
  "pop_command = State (\<lambda>s. case try_pop (command_queue s) of
     (None, q) \<Rightarrow> (None, s\<lparr>command_queue := q\<rparr>)
   | (Some cmd, q) \<Rightarrow> (Some cmd,
       record_action (Popped cmd) (s\<lparr>command_queue := q\<rparr>)))"

definition run_next_command :: "env \<Rightarrow> (rt, unit) state" where
  "run_next_command e = do {
     cmd \<leftarrow> pop_command;
     case cmd of None \<Rightarrow> ret () | Some c \<Rightarrow> execute_command e c
   }"

subsection \<open>The connected loop\<close>

definition wait_deadline :: "rt \<Rightarrow> time" where
  "wait_deadline s =
     (let deadline = min (min (next_heartbeat s) (next_state_poll s)) (next_motion_refresh s)
      in if mt_active (mode_transition s) \<and> mt_deadline (mode_transition s) < deadline
         then mt_deadline (mode_transition s) else deadline)"

definition wake_predicate :: "rt \<Rightarrow> bool" where
  "wake_predicate s \<longleftrightarrow> stop_requested s \<or> link_drop_latched s \<or> size_of (command_queue s) > 0 \<or>
     estop_engaged s \<or> motion_refresh_due s \<or>
     (mt_active (mode_transition s) \<and> clk s \<ge> mt_deadline (mode_transition s))"

text \<open>The check that ends the session; when it ends because of \<^verbatim>\<open>stop()\<close>, the robot is stopped first.\<close>

definition leave_if_ended :: "env \<Rightarrow> (rt, bool) state" where
  "leave_if_ended e = do {
     f \<leftarrow> ask (\<lambda>s. (stop_requested s, link_drop_latched s));
     if fst f \<or> snd f then do {
       _ \<leftarrow> (if fst f then actuate_stop_if_authorized e else ret ());
       ret True
     }
     else ret False
   }"

definition take_motion_request :: "(rt, bool) state" where
  "take_motion_request = State (\<lambda>s. (motion_refresh_due s, s\<lparr>motion_refresh_due := False\<rparr>))"

definition heartbeat_if_due :: "env \<Rightarrow> (rt, bool) state" where
  "heartbeat_if_due e = do {
     due \<leftarrow> ask (\<lambda>s. iteration_now s \<ge> next_heartbeat s);
     if \<not> due then ret True
     else do {
       t \<leftarrow> call e (Heartbeat (heartbeat_call_timeout_ms (config e)));
       _ \<leftarrow> act (\<lambda>s. s\<lparr>heartbeat_failures :=
              (if success (tn_result t) then 0 else heartbeat_failures s + 1)\<rparr>);
       n \<leftarrow> ask heartbeat_failures;
       if \<not> success (tn_result t) \<and> n \<ge> max 1 (unat (heartbeat_max_failures (config e))) then do {
         _ \<leftarrow> act (notify_event e Error ''sdk heartbeat failed; ending the connection'');
         ret False
       }
       else do {
         _ \<leftarrow> act (\<lambda>s. s\<lparr>next_heartbeat := iteration_now s + ms (heartbeat_period (config e))\<rparr>);
         ret True
       }
     }
   }"

definition velocity_nonzero :: "velocity \<Rightarrow> bool" where
  "velocity_nonzero v \<longleftrightarrow> \<not> fl_eq (vx v) (Fin 0) \<or> \<not> fl_eq (vy v) (Fin 0) \<or> \<not> fl_eq (vyaw v) (Fin 0)"

definition read_tick :: "(rt, VelocityDecision) state" where
  "read_tick = State (\<lambda>s. (velocity_for_tick (clk s) (ctrl s),
     record_action (Tick (clk s) (ctrl s) (ctl_history s)) s))"

definition motion_if_due :: "env \<Rightarrow> bool \<Rightarrow> (rt, unit) state" where
  "motion_if_due e requested = do {
     due \<leftarrow> ask (\<lambda>s. requested \<or> iteration_now s \<ge> next_motion_refresh s);
     if \<not> due then ret ()
     else do {
       _ \<leftarrow> interfere e;
       tick \<leftarrow> read_tick;
       let target = (if vd_accepted tick then vd_value tick else zero_velocity);
       sent \<leftarrow> ask last_sent_nonzero;
       _ \<leftarrow> (if velocity_nonzero target \<or> sent then do {
              t \<leftarrow> call e (Move target (sdk_call_timeout_ms (config e)));
              if \<not> success (tn_result t)
              then act (notify_event e Warning
                     (''velocity move rejected by the SDK: '' @ message (tn_result t)))
              else act (\<lambda>s. s\<lparr>last_sent_nonzero := velocity_nonzero target\<rparr>)
            }
            else ret ());
       act (\<lambda>s. s\<lparr>next_motion_refresh := iteration_now s + ms (motion_refresh_period (config e))\<rparr>)
     }
   }"

definition apply_snapshot :: "SdkSnapshot \<Rightarrow> rt \<Rightarrow> rt" where
  "apply_snapshot snapshot s =
     (let s = s\<lparr>last_snapshot_sport_status := sn_sport_status snapshot,
                last_snapshot_error_code := sn_error_code snapshot\<rparr>
      in ctl_do (UpdateRobotState \<lparr>st_linked = sdk_linked s, st_authority = control_authority s,
           st_sport = sn_sport_status snapshot, st_error = sn_error_code snapshot\<rparr>) s)"

definition arm_readiness :: "SdkSnapshot \<Rightarrow> rt \<Rightarrow> rt" where
  "arm_readiness snapshot s =
     (if sn_sdk_linked snapshot \<and> \<not> driver_ready_armed s
      then ctl_do (SetDriverReady True) (s\<lparr>driver_ready_armed := True\<rparr>) else s)"

definition poll_if_due :: "env \<Rightarrow> (rt, unit) state" where
  "poll_if_due e = do {
     due \<leftarrow> ask (\<lambda>s. iteration_now s \<ge> next_state_poll s);
     if \<not> due then ret ()
     else do {
       t \<leftarrow> call e Snapshot;
       _ \<leftarrow> act (apply_snapshot (tn_snapshot t));
       _ \<leftarrow> interfere e;
       _ \<leftarrow> settle_orphan e;
       _ \<leftarrow> interfere e;
       _ \<leftarrow> act (arm_readiness (tn_snapshot t));
       _ \<leftarrow> interfere e;
       _ \<leftarrow> check_mode_transition e (tn_snapshot t);
       _ \<leftarrow> act (dispatch_observer_safely e (OnState (tn_snapshot t)));
       act (\<lambda>s. s\<lparr>next_state_poll := iteration_now s + ms (state_poll_period (config e))\<rparr>)
     }
   }"

text \<open>The part of an iteration behind the end-of-session checks.\<close>

definition iteration_body :: "env \<Rightarrow> (rt, bool) state" where
  "iteration_body e = do {
     _ \<leftarrow> handle_estop_if_requested e;
     _ \<leftarrow> interfere e;
     _ \<leftarrow> settle_orphan e;
     _ \<leftarrow> interfere e;
     _ \<leftarrow> run_next_command e;
     _ \<leftarrow> interfere e;
     requested \<leftarrow> take_motion_request;
     alive \<leftarrow> heartbeat_if_due e;
     if \<not> alive then ret False
     else do {
       _ \<leftarrow> motion_if_due e requested;
       _ \<leftarrow> interfere e;
       _ \<leftarrow> act settle_if_due;
       _ \<leftarrow> poll_if_due e;
       ret True
     }
   }"

text \<open>
  One pass of the \<^verbatim>\<open>while (true)\<close> loop of \<^verbatim>\<open>run_connected_loop\<close>; the value says whether the
  loop goes on. A wait that is neither woken nor past its deadline stays in the wait.
\<close>

definition connected_iteration :: "env \<Rightarrow> (rt, bool) state" where
  "connected_iteration e = do {
     _ \<leftarrow> interfere e;
     awake \<leftarrow> ask (\<lambda>s. wake_predicate s \<or> clk s \<ge> wait_deadline s);
     if \<not> awake then ret True
     else do {
       left \<leftarrow> leave_if_ended e;
       if left then ret False
       else do {
         _ \<leftarrow> act (\<lambda>s. s\<lparr>iteration_now := clk s\<rparr>);
         _ \<leftarrow> interfere e;
         left \<leftarrow> leave_if_ended e;
         if left then ret False else iteration_body e
       }
     }
   }"

subsection \<open>Connecting and reconnecting\<close>

definition clear_session_caches :: "rt \<Rightarrow> rt" where
  "clear_session_caches s = s\<lparr>sdk_linked := False, control_authority := False,
     last_snapshot_sport_status := 0, last_snapshot_error_code := 0\<rparr>"

definition invalidate_session :: "env \<Rightarrow> (rt, unit) state" where
  "invalidate_session e = do {
     _ \<leftarrow> act (\<lambda>s. s\<lparr>driver_ready_armed := False\<rparr>);
     _ \<leftarrow> interfere e;
     _ \<leftarrow> act clear_session_caches;
     _ \<leftarrow> interfere e;
     _ \<leftarrow> act (ctl_do (UpdateRobotState default_status));
     _ \<leftarrow> interfere e;
     act (ctl_do InvalidateConnection)
   }"

definition next_backoff :: "RuntimeConfig \<Rightarrow> int \<Rightarrow> int" where
  "next_backoff c current =
     (let next = current * 2;
          next = (if next > reconnect_max_delay_ms c then reconnect_max_delay_ms c else next)
      in max next current)"

definition start_backoff :: "rt \<Rightarrow> rt" where
  "start_backoff s = s\<lparr>worker := BackingOff (clk s + ms (backoff s))\<rparr>"

definition wait_backoff :: "env \<Rightarrow> time \<Rightarrow> (rt, unit) state" where
  "wait_backoff e deadline = do {
     _ \<leftarrow> interfere e;
     act (\<lambda>s. if stop_requested s \<or> clk s \<ge> deadline
       then s\<lparr>backoff := next_backoff (config e) (backoff s), worker := Connecting\<rparr> else s)
   }"

definition exit_worker :: "(rt, unit) state" where
  "exit_worker = act (\<lambda>s. s\<lparr>worker := Exited\<rparr>)"

definition failed_attempt :: "env \<Rightarrow> string \<Rightarrow> (rt, unit) state" where
  "failed_attempt e msg = do {
     _ \<leftarrow> act (notify_event e Warning msg);
     _ \<leftarrow> invalidate_session e;
     _ \<leftarrow> call e Deinit;
     act start_backoff
   }"

definition subscribe_telemetry :: "env \<Rightarrow> (rt, Result) state" where
  "subscribe_telemetry e = do {
     imu \<leftarrow> call e (SubscribeImu (imu_freq (config e)) (sdk_call_timeout_ms (config e)));
     if \<not> success (tn_result imu) then ret (tn_result imu)
     else do {
       sport \<leftarrow> call e (SubscribeSport (sport_freq (config e)) (sdk_call_timeout_ms (config e)));
       if \<not> success (tn_result sport) then ret (tn_result sport)
       else if enable_lidar_stream (config e) \<and> lidar_freq (config e) \<noteq> Disabled then do {
         lidar \<leftarrow> call e (SubscribeLidar (lidar_freq (config e)) (sdk_call_timeout_ms (config e)));
         if \<not> success (tn_result lidar) then ret (tn_result lidar) else ret (ok ''success'')
       }
       else ret (ok ''success'')
     }
   }"

definition begin_session :: "env \<Rightarrow> (rt, unit) state" where
  "begin_session e = do {
     _ \<leftarrow> interfere e;
     _ \<leftarrow> act (\<lambda>s. record_action SessionStart (s\<lparr>connected := True\<rparr>));
     _ \<leftarrow> act (\<lambda>s. s\<lparr>backoff := reconnect_initial_delay_ms (config e)\<rparr>);
     _ \<leftarrow> act (notify_event e Info ''connected'');
     _ \<leftarrow> interfere e;
     act (\<lambda>s. s\<lparr>heartbeat_failures := 0,
       next_heartbeat := clk s + ms (heartbeat_period (config e)),
       next_state_poll := clk s + ms (state_poll_period (config e)),
       next_motion_refresh := clk s + ms (motion_refresh_period (config e)),
       last_sent_nonzero := False, worker := InSession\<rparr>)
   }"

definition end_session :: "env \<Rightarrow> (rt, unit) state" where
  "end_session e = do {
     _ \<leftarrow> interfere e;
     _ \<leftarrow> act (\<lambda>s. record_action SessionEnd (fail_all_pending_locked (s\<lparr>connected := False\<rparr>)));
     _ \<leftarrow> invalidate_session e;
     _ \<leftarrow> call e Deinit;
     stopping \<leftarrow> ask stop_requested;
     if stopping then exit_worker
     else do {
       _ \<leftarrow> act (notify_event e Error ''connection lost; reconnecting'');
       act start_backoff
     }
   }"

definition attempt_init :: "env \<Rightarrow> (rt, unit) state" where
  "attempt_init e = do {
     _ \<leftarrow> act (\<lambda>s. s\<lparr>link_drop_latched := False\<rparr>);
     t \<leftarrow> call e (Init (init_timeout_ms (config e)));
     if \<not> success (tn_result t) then failed_attempt e (''sdk init failed: '' @ message (tn_result t))
     else do {
       stopping \<leftarrow> ask stop_requested;
       if stopping then do { _ \<leftarrow> call e Deinit; exit_worker }
       else do {
         r \<leftarrow> subscribe_telemetry e;
         if \<not> success r then failed_attempt e (''sdk subscription failed: '' @ message r)
         else do {
           stopping \<leftarrow> ask stop_requested;
           if stopping then do { _ \<leftarrow> call e Deinit; exit_worker }
           else begin_session e
         }
       }
     }
   }"

definition connect_iteration :: "env \<Rightarrow> (rt, unit) state" where
  "connect_iteration e = do {
     _ \<leftarrow> interfere e;
     stopping \<leftarrow> ask stop_requested;
     if stopping then exit_worker
     else do {
       t \<leftarrow> call e (Preflight \<lparr>ex_interface = rc_interface (config e),
              ex_host_address = rc_host_address (config e),
              ex_robot_address = rc_robot_address (config e)\<rparr>);
       if \<not> nd_ready (tn_decision t)
       then failed_attempt e (''network preflight failed: '' @ nd_message (tn_decision t))
       else do {
         _ \<leftarrow> interfere e;
         stopping \<leftarrow> ask stop_requested;
         if stopping then exit_worker
         else do {
           _ \<leftarrow> interfere e;
           attempt_init e
         }
       }
     }
   }"

text \<open>One step of \<^verbatim>\<open>worker_main\<close>: a pass of the reconnect loop, of the backoff wait, or of the connected loop.\<close>

definition worker_step :: "env \<Rightarrow> worker_pc \<Rightarrow> (rt, unit) state" where
  "worker_step e pc = (case pc of
     NotStarted \<Rightarrow> ret ()
   | Connecting \<Rightarrow> connect_iteration e
   | BackingOff deadline \<Rightarrow> wait_backoff e deadline
   | InSession \<Rightarrow> do {
       alive \<leftarrow> connected_iteration e;
       if alive then ret () else end_session e
     }
   | Exited \<Rightarrow> ret ())"

definition DirectDriverRuntime :: "RuntimeConfig \<Rightarrow> string + rt" where
  "DirectDriverRuntime c = (case RobotController (deadman_ms c) of
     Inl err \<Rightarrow> Inl err
   | Inr k \<Rightarrow> (case ThreadSafeQueue (queue_capacity c) RejectNew of
       Inl err \<Rightarrow> Inl err
     | Inr q \<Rightarrow> Inr \<lparr>ctrl = k, stop_requested = False, sdk_linked = False, connected = False,
         link_drop_latched = False, control_authority = False, last_snapshot_sport_status = 0,
         last_snapshot_error_code = 0, motion_refresh_due = False, estop_engaged = False,
         estop_promise = None, command_queue = q,
         mode_transition = \<lparr>mt_active = False, stable_status = 0, mt_deadline = 0, mt_promise = 0\<rparr>,
         last_sent_nonzero = False, driver_ready_armed = False, latest_imu = None,
         latest_sport = None, observer_errors = 0, observed = [], next_promise = 0,
         answers = Map.empty, clients = [], worker = NotStarted,
         backoff = reconnect_initial_delay_ms c, heartbeat_failures = 0, next_heartbeat = 0,
         next_state_poll = 0, next_motion_refresh = 0, iteration_now = 0, clk = 0, turn_no = 0, trace = [], ctl_history = []\<rparr>))"

section \<open>Runs\<close>

datatype rt_label = Start | Worker | Outside outside

definition rt_start_state :: "env \<Rightarrow> rt \<Rightarrow> bool" where
  "rt_start_state e s \<longleftrightarrow> DirectDriverRuntime (config e) = Inr s"

fun rt_next :: "env \<Rightarrow> rt_label \<Rightarrow> rt \<Rightarrow> rt" where
  "rt_next e Start s = rt_start s"
| "rt_next e Worker s = snd (run_state (worker_step e (worker s)) s)"
| "rt_next e (Outside x) s = outside_step e x s"

definition rt_step :: "env \<Rightarrow> rt \<Rightarrow> rt_label \<Rightarrow> rt \<Rightarrow> bool" where
  "rt_step e s l t \<longleftrightarrow> t = rt_next e l s"

end
