(* ===== verification/Runtime_Logic.thy ===== *)
theory Runtime_Logic
  imports Driver_Runtime State_Triples
begin

text \<open>
  A small program logic for the worker of \<open>Driver_Runtime\<close>: triples for actions of the state monad,
  the predicates an action keeps, and two locales for predicates that other threads cannot
  falsify. An action that contains interference points keeps such a predicate whatever the other
  threads do there.
\<close>

section \<open>Reasoning about the worker\<close>

lemma triple_act: "(\<And>s. P s \<Longrightarrow> Q () (f s)) \<Longrightarrow> triple P (act f) Q"
  by (simp add: triple_def act_def)

lemma triple_ask: "(\<And>s. P s \<Longrightarrow> Q (f s) s) \<Longrightarrow> triple P (ask f) Q"
  by (simp add: triple_def ask_def)

lemma keeps_act: "(\<And>s. P s \<Longrightarrow> P (f s)) \<Longrightarrow> keeps P (act f)"
  by (simp add: keeps_def triple_act)

lemma keeps_ask [keeping]: "keeps P (ask f)"
  by (simp add: keeps_def triple_ask)

lemma run_act [simp]: "run_state (act f) s = ((), f s)"
  by (simp add: act_def)

lemma run_ask [simp]: "run_state (ask f) s = (f s, s)"
  by (simp add: ask_def)

text \<open>
  What the other threads do at the interference points, and a predicate they keep there: an interference point
  and a call keep it.
\<close>

definition interferences :: "env \<Rightarrow> outside set" where
  "interferences e = (\<Union>n. set (tn_outside (world e n)))"

locale stable_predicate =
  fixes e :: env and P :: "rt \<Rightarrow> bool"
  assumes outside_stable: "P s \<Longrightarrow> x \<in> interferences e \<Longrightarrow> P (outside_step e x s)"
    and turn_stable: "P s \<Longrightarrow> P (s\<lparr>turn_no := n\<rparr>)"
begin

lemma run_outside_stable: "P s \<Longrightarrow> set xs \<subseteq> interferences e \<Longrightarrow> P (run_outside e xs s)"
  unfolding run_outside_def by (induction xs arbitrary: s) (auto intro: outside_stable)

lemma interfere_keeps: "keeps P (interfere e)"
proof -
  have "set (tn_outside (world e n)) \<subseteq> interferences e" for n
    by (auto simp: interferences_def)
  then show ?thesis
    unfolding interfere_def by (intro keeps_act run_outside_stable turn_stable)
qed

end

locale trace_blind_predicate = stable_predicate +
  assumes trace_blind: "P s \<Longrightarrow> P (s\<lparr>trace := tr\<rparr>)"
begin

lemma call_keeps: "keeps P (call e a)"
  unfolding call_def record_action_def
  by (intro keeping interfere_keeps keeps_act trace_blind)

end

end
