(* ===== verification/Runtime_Invariant.thy ===== *)
theory Runtime_Invariant
  imports Runtime_Logic
begin

text \<open>
  The invariant of the driver runtime and the proof that every step of every thread keeps it:
  no promise is ever lost, the command queue stays open and bounded, the emergency-stop mark and its
  promise agree, nothing is pending outside a session, and the controller is what its operations
  made of it. The locales \<open>oblivious\<close>, \<open>worker_blocks\<close> and \<open>worker_predicate\<close> state
  which blocks of the worker have to be looked at for a further predicate; all others keep it.
\<close>

section \<open>The invariant\<close>

text \<open>The promises the runtime or a caller inside its call still has to answer.\<close>

definition held :: "rt \<Rightarrow> promise set" where
  "held s = command_promise ` set (items (command_queue s)) \<union>
     (if mt_active (mode_transition s) then {mt_promise (mode_transition s)} else {}) \<union>
     set_option (estop_promise s) \<union> client_promise ` set (clients s)"

text \<open>
  Every promise is answered, held, or in a local variable of the worker (the set \<open>X\<close>);
  promises are below the allocation counter.
\<close>

definition promises_ok :: "promise set \<Rightarrow> rt \<Rightarrow> bool" where
  "promises_ok X s \<longleftrightarrow> (\<forall>p < next_promise s. answers s p = None \<longrightarrow> p \<in> held s \<union> X) \<and>
     held s \<union> X \<union> dom (answers s) \<subseteq> {..<next_promise s}"

definition queue_ok :: "Command tsq \<Rightarrow> bool" where
  "queue_ok q \<longleftrightarrow> policy q = RejectNew \<and> \<not> tsq.closed q \<and> tsq_inv q"

definition control_ok :: "env \<Rightarrow> rt \<Rightarrow> bool" where
  "control_ok e s \<longleftrightarrow> (\<exists>c. RobotController (deadman_ms (config e)) = Inr c \<and>
     ctrl s = ctl_run (ctl_history s) c)"

text \<open>Outside a session nothing waits for the worker.\<close>

definition quiet :: "rt \<Rightarrow> bool" where
  "quiet s \<longleftrightarrow> items (command_queue s) = [] \<and> \<not> estop_engaged s \<and> \<not> mt_active (mode_transition s)"

definition rt_inv :: "env \<Rightarrow> bool \<Rightarrow> promise set \<Rightarrow> rt \<Rightarrow> bool" where
  "rt_inv e b X s \<longleftrightarrow> connected s = b \<and> promises_ok X s \<and> queue_ok (command_queue s) \<and>
     (estop_engaged s \<longleftrightarrow> estop_promise s \<noteq> None) \<and> (b \<or> quiet s) \<and> control_ok e s"

definition view :: "rt \<Rightarrow> bool \<times> (promise \<Rightarrow> Result option) \<times> nat \<times> Command tsq \<times> ModeTransition \<times>
    promise option \<times> bool \<times> client list \<times> ctl \<times> (time \<times> ctl_op) list" where
  "view s = (connected s, answers s, next_promise s, command_queue s, mode_transition s,
     estop_promise s, estop_engaged s, clients s, ctrl s, ctl_history s)"

lemma inv_cong: "view s = view t \<Longrightarrow> rt_inv e b X s = rt_inv e b X t"
  by (simp add: rt_inv_def view_def promises_ok_def held_def quiet_def control_ok_def)

lemma set_promise_simps [simp]:
  "connected (set_promise p r s) = connected s" "next_promise (set_promise p r s) = next_promise s"
  "command_queue (set_promise p r s) = command_queue s"
  "mode_transition (set_promise p r s) = mode_transition s"
  "estop_promise (set_promise p r s) = estop_promise s"
  "estop_engaged (set_promise p r s) = estop_engaged s" "clients (set_promise p r s) = clients s"
  "ctrl (set_promise p r s) = ctrl s" "ctl_history (set_promise p r s) = ctl_history s"
  "trace (set_promise p r s) = trace s" "clk (set_promise p r s) = clk s"
  "stop_requested (set_promise p r s) = stop_requested s" "sdk_linked (set_promise p r s) = sdk_linked s"
  "link_drop_latched (set_promise p r s) = link_drop_latched s"
  "held (set_promise p r s) = held s" "quiet (set_promise p r s) = quiet s"
  by (simp_all add: set_promise_def held_def quiet_def)

lemma answers_set_promise:
  "answers (set_promise p r s) = (if answers s p = None then (answers s)(p \<mapsto> r) else answers s)"
  by (simp add: set_promise_def)

lemma ctl_do_simps [simp]:
  "connected (ctl_do f s) = connected s" "next_promise (ctl_do f s) = next_promise s"
  "command_queue (ctl_do f s) = command_queue s" "mode_transition (ctl_do f s) = mode_transition s"
  "estop_promise (ctl_do f s) = estop_promise s" "estop_engaged (ctl_do f s) = estop_engaged s"
  "clients (ctl_do f s) = clients s" "answers (ctl_do f s) = answers s" "trace (ctl_do f s) = trace s"
  "clk (ctl_do f s) = clk s" "stop_requested (ctl_do f s) = stop_requested s"
  "sdk_linked (ctl_do f s) = sdk_linked s" "link_drop_latched (ctl_do f s) = link_drop_latched s"
  "held (ctl_do f s) = held s" "quiet (ctl_do f s) = quiet s"
  by (simp_all add: ctl_do_def held_def quiet_def)

lemma control_ok_simps [simp]:
  "control_ok e (set_promise p r s) = control_ok e s"
  by (simp add: control_ok_def)

lemma control_ok_do: "control_ok e s \<Longrightarrow> control_ok e (ctl_do f s)"
  by (auto simp: control_ok_def ctl_do_def)

lemma inv_ctl_do: "rt_inv e b X s \<Longrightarrow> rt_inv e b X (ctl_do f s)"
  by (simp add: rt_inv_def promises_ok_def control_ok_do)

lemma inv_set_promise: "rt_inv e b (insert p X) s \<Longrightarrow> rt_inv e b X (set_promise p r s)"
  by (auto simp: rt_inv_def promises_ok_def answers_set_promise split: if_splits)

lemma inv_make_promise:
  assumes "rt_inv e b X s" "make_promise s = (p, t)"
  shows "rt_inv e b (insert p X) t"
proof -
  have t: "t = s\<lparr>next_promise := next_promise s + 1\<rparr>" "p = next_promise s"
    using assms(2) by (auto simp: make_promise_def)
  have h: "held t = held s"
    by (simp add: t held_def)
  have "promises_ok (insert p X) t"
    using assms(1) unfolding promises_ok_def h by (auto simp: t rt_inv_def promises_ok_def less_Suc_eq)
  then show ?thesis
    using assms(1) by (auto simp: rt_inv_def t quiet_def control_ok_def)
qed

text \<open>Moving promises between places.\<close>

lemma promises_ok_transfer:
  assumes "promises_ok X s" "next_promise t = next_promise s" "answers t = answers s"
    and "held t \<union> Y = held s \<union> X"
  shows "promises_ok Y t"
  using assms unfolding promises_ok_def by metis

lemma inv_transfer:
  assumes "rt_inv e b X s" "next_promise t = next_promise s" "answers t = answers s"
    and "held t \<union> Y = held s \<union> X" "connected t = connected s" "queue_ok (command_queue t)"
    and "estop_engaged t \<longleftrightarrow> estop_promise t \<noteq> None" "b \<or> quiet t"
    and "ctrl t = ctrl s" "ctl_history t = ctl_history s"
  shows "rt_inv e b Y t"
  using assms promises_ok_transfer [OF _ assms(2-4)] by (simp add: rt_inv_def control_ok_def)

lemma inv_dispatch: "rt_inv e b X (dispatch_observer_safely e' ob s) = rt_inv e b X s"
  by (rule inv_cong) (simp add: dispatch_observer_safely_def view_def split: option.split)

lemma inv_notify [simp]: "rt_inv e b X (notify_event e' sev msg s) = rt_inv e b X s"
  by (simp add: notify_event_def inv_dispatch)

text \<open>Taking a promise out of a place that holds it leaves it in a local variable.\<close>

lemma inv_deactivate:
  assumes "rt_inv e b X s" "mt_active (mode_transition s)"
  shows "rt_inv e b (insert (mt_promise (mode_transition s)) X)
    (s\<lparr>mode_transition := (mode_transition s)\<lparr>mt_active := False\<rparr>\<rparr>)"
  by (rule inv_transfer [OF assms(1)]) (use assms in \<open>auto simp: rt_inv_def held_def quiet_def\<close>)

lemma inv_remove_client:
  assumes "rt_inv e b X s" "c \<in> set (clients s)"
  shows "rt_inv e b (insert (client_promise c) X) (s\<lparr>clients := remove1 c (clients s)\<rparr>)"
proof (rule inv_transfer [OF assms(1)])
  have "insert c (set (remove1 c (clients s))) = set (clients s)"
    using assms(2) set_remove1_subset [of c "clients s"] in_set_remove1 [of _ c "clients s"] by blast
  then have "insert (client_promise c) (client_promise ` set (remove1 c (clients s))) = client_promise ` set (clients s)"
    by (metis image_insert)
  then show "held (s\<lparr>clients := remove1 c (clients s)\<rparr>) \<union> insert (client_promise c) X = held s \<union> X"
    unfolding held_def by (simp add: Un_assoc Un_left_commute) blast
qed (use assms in \<open>auto simp: rt_inv_def quiet_def\<close>)

lemma inv_add_client:
  assumes "rt_inv e b (insert (client_promise c) X) s"
  shows "rt_inv e b X (s\<lparr>clients := clients s @ [c]\<rparr>)"
  by (rule inv_transfer [OF assms]) (use assms in \<open>auto simp: rt_inv_def held_def quiet_def\<close>)

lemma push_reject:
  assumes "queue_ok q"
  shows "push x q = (if length (items q) = capacity q then (False, q) else (True, q\<lparr>items := items q @ [x]\<rparr>))"
    and "length (items q) \<noteq> capacity q \<Longrightarrow> queue_ok (q\<lparr>items := items q @ [x]\<rparr>)"
  using assms by (auto simp: queue_ok_def push_def tsq_inv_def)

lemma inv_enqueue:
  assumes "rt_inv e b (insert (command_promise cmd) X) s" "b" "push cmd (command_queue s) = (True, q)"
  shows "rt_inv e b X (s\<lparr>command_queue := q\<rparr>)"
proof -
  let ?q = "command_queue s"
  have q: "queue_ok ?q"
    using assms(1) by (simp add: rt_inv_def)
  have ne: "length (items ?q) \<noteq> capacity ?q" "q = ?q\<lparr>items := items ?q @ [cmd]\<rparr>"
    using assms(3) push_reject(1) [OF q, of cmd] by (auto split: if_splits)
  show ?thesis
    unfolding ne(2) by (rule inv_transfer [OF assms(1)])
      (use assms push_reject(2) [OF q ne(1), of cmd] in \<open>auto simp: rt_inv_def held_def\<close>)
qed

lemma inv_enqueue_full:
  assumes "rt_inv e b X s" "push cmd (command_queue s) = (False, q)"
  shows "s\<lparr>command_queue := q\<rparr> = s"
proof -
  have "queue_ok (command_queue s)"
    using assms(1) by (simp add: rt_inv_def)
  from push_reject(1) [OF this, of cmd] show ?thesis
    using assms(2) by (auto split: if_splits)
qed

lemma inv_fail_mode_transition:
  assumes "rt_inv e b X s"
  shows "rt_inv e b X (fail_mode_transition r c s)"
  using assms inv_deactivate [OF assms]
  by (auto simp: fail_mode_transition_def Let_def intro!: inv_set_promise inv_ctl_do)

lemma inv_settle: "rt_inv e b X s \<Longrightarrow> mt_active (mode_transition s) \<Longrightarrow> rt_inv e b X (settle_mode_transition_timeout s)"
  using inv_deactivate [of e b X s]
  by (auto simp: settle_mode_transition_timeout_def Let_def intro!: inv_set_promise inv_ctl_do)

lemma inv_confirm: "rt_inv e b X s \<Longrightarrow> mt_active (mode_transition s) \<Longrightarrow> rt_inv e b X (confirm_mode_transition sn s)"
  using inv_deactivate [of e b X s]
  by (auto simp: confirm_mode_transition_def Let_def inv_settle
      intro!: inv_set_promise inv_ctl_do)

lemma inv_fail_commands:
  "rt_inv e b (X \<union> command_promise ` set cmds) s \<Longrightarrow> rt_inv e b X (fold (fail_command r) cmds s)"
proof (induction cmds arbitrary: s)
  case (Cons c cmds)
  have "rt_inv e b (X \<union> command_promise ` set cmds) (fail_command r c s)"
    using Cons.prems by (auto simp: fail_command_def intro!: inv_set_promise inv_ctl_do)
  from Cons.IH [OF this] show ?case
    by simp
qed simp

lemma inv_drained:
  assumes "rt_inv e b X s"
  shows "rt_inv e b (X \<union> command_promise ` set (items (command_queue s)))
    (s\<lparr>command_queue := (command_queue s)\<lparr>items := []\<rparr>\<rparr>)"
  by (rule inv_transfer [OF assms])
    (use assms in \<open>auto simp: rt_inv_def held_def quiet_def queue_ok_def tsq_inv_def\<close>)

lemma inv_fail_queue: "rt_inv e b X s \<Longrightarrow> rt_inv e b X (fail_queue r s)"
  using inv_fail_commands [OF inv_drained] by (simp add: fail_queue_def drain_eq)

lemma inv_release_mark:
  assumes "rt_inv e b X s"
  shows "rt_inv e b (set_option (estop_promise s) \<union> X) (s\<lparr>estop_engaged := False, estop_promise := None\<rparr>)"
  by (rule inv_transfer [OF assms]) (use assms in \<open>auto simp: rt_inv_def held_def quiet_def\<close>)

lemma rt_inv_unavailable: "rt_inv e b X s \<Longrightarrow> \<not> unavailable s \<Longrightarrow> b"
  by (auto simp: rt_inv_def unavailable_def)

lemma set_promise_commutes:
  "(set_promise p r s)\<lparr>estop_engaged := x, estop_promise := y\<rparr> =
     set_promise p r (s\<lparr>estop_engaged := x, estop_promise := y\<rparr>)"
  by (simp add: set_promise_def)

lemma rt_inv_estop_mark:
  assumes "rt_inv e b (insert p X) s"
  shows "rt_inv e b X (estop_mark p s)"
proof -
  let ?old = "set_option (estop_promise s)"
  define t where "t = (case estop_promise s of
      Some old \<Rightarrow> set_promise old (failure kSdkResFailed ''emergency stop request superseded'') s
    | None \<Rightarrow> s)"
  have t: "estop_promise t = estop_promise s" "estop_engaged t = estop_engaged s" "connected t = connected s"
      "quiet t = quiet s" "unavailable t = unavailable s"
    by (auto simp: t_def unavailable_def split: option.split)
  have "rt_inv e b (?old \<union> insert p X) (s\<lparr>estop_engaged := False, estop_promise := None\<rparr>)"
    using inv_release_mark [OF assms] .
  then have r: "rt_inv e b (insert p X) (t\<lparr>estop_engaged := False, estop_promise := None\<rparr>)"
    using set_promise_commutes inv_set_promise by (cases "estop_promise s") (auto simp: t_def insert_commute)
  show ?thesis
  proof (cases "unavailable s")
    case True
    then show ?thesis
      using inv_set_promise [OF r] t(5) by (simp add: estop_mark_def Let_def unavailable_def flip: t_def)
  next
    case False
    then have b: b
      using rt_inv_unavailable [OF assms] by simp
    have "rt_inv e b X (t\<lparr>estop_engaged := True, estop_promise := Some p\<rparr>)"
      by (rule inv_transfer [OF r]) (use r b in \<open>auto simp: rt_inv_def held_def\<close>)
    then show ?thesis
      using False t(5) by (simp add: estop_mark_def Let_def unavailable_def flip: t_def)
  qed
qed

lemma rt_inv_mode_enqueue:
  assumes "rt_inv e b (insert p X) s"
  shows "rt_inv e b X (mode_enqueue p mode s)"
proof (cases "unavailable s")
  case True
  then show ?thesis
    using assms by (simp add: mode_enqueue_def inv_set_promise inv_ctl_do)
next
  case False
  obtain pushed q where q: "push (RequestModeCommand mode p) (command_queue s) = (pushed, q)"
    by fastforce
  show ?thesis
  proof (cases pushed)
    case True
    then show ?thesis
      using inv_enqueue [of e b "RequestModeCommand mode p" X s q] assms q False
        rt_inv_unavailable [OF assms False] by (simp add: mode_enqueue_def)
  next
    case full: False
    then show ?thesis
      using inv_enqueue_full [OF assms, of "RequestModeCommand mode p" q] assms q False
      by (simp add: mode_enqueue_def inv_set_promise inv_ctl_do)
  qed
qed

lemma rt_inv_request_authority:
  assumes "rt_inv e b X s"
  shows "rt_inv e b X (rt_request_authority sdk s)"
proof -
  obtain p t where t: "make_promise s = (p, t)"
    by fastforce
  note i = inv_make_promise [OF assms t]
  show ?thesis
  proof (cases "unavailable t")
    case True
    then show ?thesis
      using i t by (simp add: rt_request_authority_def inv_set_promise)
  next
    case False
    obtain pushed q where q: "push (RequestAuthorityCommand sdk p) (command_queue t) = (pushed, q)"
      by fastforce
    show ?thesis
    proof (cases pushed)
      case True
      then show ?thesis
        using inv_enqueue [of e b "RequestAuthorityCommand sdk p" X t q] i q False t
          rt_inv_unavailable [OF i False] by (simp add: rt_request_authority_def)
    next
      case full: False
      then show ?thesis
        using inv_enqueue_full [OF i, of "RequestAuthorityCommand sdk p" q] i q False t
        by (simp add: rt_request_authority_def inv_set_promise)
    qed
  qed
qed

lemma rt_inv_mode_gate:
  assumes "rt_inv e b (insert p X) s"
  shows "rt_inv e b X (mode_gate p name s)"
  using assms inv_add_client [of e b "AtModeEnqueue p m" X "ctl_do (RequestMode name) s" for m]
  by (auto simp: mode_gate_def Let_def inv_set_promise inv_ctl_do)

lemma rt_inv_resume:
  assumes "rt_inv e b X s"
  shows "rt_inv e b X (resume p s)"
proof (cases "find (\<lambda>c. client_promise c = p) (clients s)")
  case None
  then show ?thesis
    using assms by (simp add: resume_def)
next
  case (Some c)
  then have "c \<in> set (clients s)"
    by (auto simp: find_Some_iff)
  from inv_remove_client [OF assms this] show ?thesis
    using Some by (cases c)
      (auto simp: resume_def Let_def rt_inv_estop_mark rt_inv_mode_gate rt_inv_mode_enqueue)
qed

lemma rt_inv_release_estop:
  assumes "rt_inv e b X s"
  shows "rt_inv e b X (rt_release_estop s)"
proof -
  obtain p t where t: "make_promise (ctl_do ClearEstop s) = (p, t)"
    by fastforce
  show ?thesis
    using inv_set_promise [OF inv_make_promise [OF inv_ctl_do [OF assms] t]] t
    by (simp add: rt_release_estop_def Let_def)
qed

lemma rt_inv_trigger_estop:
  assumes "rt_inv e b X s"
  shows "rt_inv e b X (rt_trigger_estop s)"
proof -
  obtain p t where t: "make_promise (ctl_do TriggerEstop s) = (p, t)"
    by fastforce
  show ?thesis
    using inv_add_client [of e b "AtEstopMark p"] inv_make_promise [OF inv_ctl_do [OF assms] t] t
    by (simp add: rt_trigger_estop_def Let_def)
qed

lemma rt_inv_request_mode:
  assumes "rt_inv e b X s"
  shows "rt_inv e b X (rt_request_mode name s)"
proof -
  obtain p t where t: "make_promise s = (p, t)"
    by fastforce
  show ?thesis
    using inv_add_client [of e b "AtModeGate p name"] inv_make_promise [OF assms t] t
    by (simp add: rt_request_mode_def inv_set_promise)
qed

lemma rt_inv_same: "rt_inv e b X s \<Longrightarrow> view t = view s \<Longrightarrow> rt_inv e b X t"
  using inv_cong by blast

lemma rt_inv_handle_status:
  assumes "rt_inv e b X s"
  shows "rt_inv e b X (handle_status e' l a s)"
proof -
  define t where "t = (if \<not> l then s\<lparr>sdk_linked := l, control_authority := a, link_drop_latched := True\<rparr>
    else s\<lparr>sdk_linked := l, control_authority := a\<rparr>)"
  have "rt_inv e b X (ctl_do f t)" for f
    by (rule inv_ctl_do, rule rt_inv_same [OF assms]) (simp add: t_def view_def)
  then have "rt_inv e b X ((ctl_do f t)\<lparr>motion_refresh_due := True\<rparr>)" for f
    by (rule rt_inv_same) (simp add: view_def)
  then show ?thesis
    by (simp add: handle_status_def Let_def inv_dispatch t_def)
qed

lemma rt_inv_submit: "rt_inv e b X s \<Longrightarrow> rt_inv e b X (rt_submit_velocity e' v s)"
  by (simp add: rt_submit_velocity_def Let_def inv_ctl_do)

lemma rt_inv_outside: "rt_inv e b X s \<Longrightarrow> rt_inv e b X (outside_step e' x s)"
proof (cases x)
  case (Elapse d)
  then show "rt_inv e b X s \<Longrightarrow> ?thesis"
    by (auto intro: rt_inv_same simp: view_def)
next
  case StopRequest
  then show "rt_inv e b X s \<Longrightarrow> ?thesis"
    by (auto intro: rt_inv_same simp: view_def rt_stop_def)
qed (auto simp: rt_inv_handle_status rt_inv_submit rt_inv_trigger_estop rt_inv_release_estop
    rt_inv_request_authority rt_inv_request_mode rt_inv_resume handle_imu_def handle_sport_def inv_dispatch
    elim!: rt_inv_same simp: view_def)

interpretation inv_stable: trace_blind_predicate e "rt_inv e b X" for e b X
proof
  show "rt_inv e b X s \<Longrightarrow> rt_inv e b X (outside_step e x s)" for s x
    by (rule rt_inv_outside)
qed (auto elim!: rt_inv_same simp: view_def)

lemmas inv_keeps [keeping] = inv_stable.interfere_keeps inv_stable.call_keeps

section \<open>What only the worker changes\<close>

definition worker_view :: "rt \<Rightarrow> ModeTransition \<times> bool \<times> bool \<times> worker_pc \<times> int \<times> nat \<times> time \<times> time \<times>
    time \<times> time \<times> action list \<times> bool" where
  "worker_view s = (mode_transition s, last_sent_nonzero s, driver_ready_armed s, worker s, backoff s,
     heartbeat_failures s, next_heartbeat s, next_state_poll s, next_motion_refresh s,
     iteration_now s, trace s, connected s)"

lemma worker_view_prims [simp]:
  "worker_view (set_promise p r s) = worker_view s" "worker_view (ctl_do f s) = worker_view s"
  "worker_view (dispatch_observer_safely e b s) = worker_view s"
  "worker_view (notify_event e sev msg s) = worker_view s"
  "worker_view (snd (make_promise s)) = worker_view s"
  by (simp_all add: worker_view_def set_promise_def ctl_do_def dispatch_observer_safely_def
      notify_event_def make_promise_def split: option.split)

lemma worker_view_updates [simp]:
  "worker_view (s\<lparr>clients := c\<rparr>) = worker_view s" "worker_view (s\<lparr>command_queue := q\<rparr>) = worker_view s"
  "worker_view (s\<lparr>estop_engaged := x\<rparr>) = worker_view s" "worker_view (s\<lparr>estop_promise := y\<rparr>) = worker_view s"
  "worker_view (s\<lparr>sdk_linked := x\<rparr>) = worker_view s" "worker_view (s\<lparr>control_authority := x\<rparr>) = worker_view s"
  "worker_view (s\<lparr>link_drop_latched := x\<rparr>) = worker_view s" "worker_view (s\<lparr>motion_refresh_due := x\<rparr>) = worker_view s"
  "worker_view (s\<lparr>latest_imu := i\<rparr>) = worker_view s" "worker_view (s\<lparr>latest_sport := j\<rparr>) = worker_view s"
  "worker_view (s\<lparr>clk := k\<rparr>) = worker_view s" "worker_view (s\<lparr>turn_no := n\<rparr>) = worker_view s"
  "worker_view (s\<lparr>stop_requested := x\<rparr>) = worker_view s"
  by (simp_all add: worker_view_def)

lemma worker_view_estop_mark: "worker_view (estop_mark p s) = worker_view s"
  by (simp add: estop_mark_def Let_def split: option.split)

lemma worker_view_mode_gate: "worker_view (mode_gate p n s) = worker_view s"
  by (simp add: mode_gate_def Let_def)

lemma worker_view_mode_enqueue: "worker_view (mode_enqueue p m s) = worker_view s"
  by (simp add: mode_enqueue_def Let_def split: prod.split)

lemma worker_view_resume: "worker_view (resume p s) = worker_view s"
  by (simp add: resume_def Let_def worker_view_estop_mark worker_view_mode_gate
      worker_view_mode_enqueue split: option.split client.split)

lemma worker_view_make: "make_promise s = (p, t) \<Longrightarrow> worker_view t = worker_view s"
  using worker_view_prims(5) [of s] by simp

lemma worker_view_promising:
  "worker_view (rt_release_estop s) = worker_view s" "worker_view (rt_trigger_estop s) = worker_view s"
  "worker_view (rt_request_authority sdk s) = worker_view s" "worker_view (rt_request_mode n s) = worker_view s"
  by (auto simp: rt_release_estop_def rt_trigger_estop_def rt_request_authority_def
      rt_request_mode_def Let_def split: prod.split dest: worker_view_make)

lemma worker_view_outside [simp]: "worker_view (outside_step e x s) = worker_view s"
  by (cases x) (simp_all add: worker_view_resume worker_view_promising handle_status_def handle_imu_def
      handle_sport_def rt_submit_velocity_def rt_stop_def Let_def)

interpretation worker_stable: stable_predicate e "\<lambda>s. worker_view s = v" for e v
  by unfold_locales simp_all

lemma worker_view_interfere [simp]: "worker_view (snd (run_state (interfere e) s)) = worker_view s"
  by (rule keepsD [OF worker_stable.interfere_keeps]) (rule refl)

lemma worker_view_fields:
  assumes "worker_view s = worker_view t"
  shows "mode_transition s = mode_transition t" "last_sent_nonzero s = last_sent_nonzero t"
    "driver_ready_armed s = driver_ready_armed t" "worker s = worker t" "backoff s = backoff t"
    "iteration_now s = iteration_now t" "trace s = trace t" "connected s = connected t"
    "next_motion_refresh s = next_motion_refresh t" "next_heartbeat s = next_heartbeat t"
    "next_state_poll s = next_state_poll t" "heartbeat_failures s = heartbeat_failures t"
  using assms by (simp_all add: worker_view_def)

lemmas interfere_frame [simp] = worker_view_fields [OF worker_view_interfere]

lemmas outside_frame = worker_view_fields [OF worker_view_outside]

text \<open>A call adds one entry to the trace and leaves the rest of the worker's state alone.\<close>

lemma run_call: "run_state (call e a) s =
    (world e (turn_no (snd (run_state (interfere e) s))),
     snd (run_state (interfere e) (record_action a (snd (run_state (interfere e) s)))))"
  unfolding call_def by (simp add: case_prod_beta) (simp add: record_action_def)

lemma call_frame [simp]:
  "trace (snd (run_state (call e a) s)) = a # trace s"
  "mode_transition (snd (run_state (call e a) s)) = mode_transition s"
  "last_sent_nonzero (snd (run_state (call e a) s)) = last_sent_nonzero s"
  "worker (snd (run_state (call e a) s)) = worker s" "backoff (snd (run_state (call e a) s)) = backoff s"
  "iteration_now (snd (run_state (call e a) s)) = iteration_now s"
  "connected (snd (run_state (call e a) s)) = connected s"
  "driver_ready_armed (snd (run_state (call e a) s)) = driver_ready_armed s"
  by (simp_all add: run_call) (simp_all add: record_action_def)

section \<open>The worker keeps the invariant\<close>

interpretation idle_stable: trace_blind_predicate e "\<lambda>s. rt_inv e b X s \<and> \<not> mt_active (mode_transition s)"
    for e b X
proof
  show "rt_inv e b X s \<and> \<not> mt_active (mode_transition s) \<Longrightarrow>
      rt_inv e b X (outside_step e x s) \<and> \<not> mt_active (mode_transition (outside_step e x s))" for s x
    by (simp add: rt_inv_outside outside_frame)
qed (auto elim!: rt_inv_same simp: view_def)

interpretation armed_stable: trace_blind_predicate e "\<lambda>s. rt_inv e b X s \<and> mt_active (mode_transition s)"
    for e b X
proof
  show "rt_inv e b X s \<and> mt_active (mode_transition s) \<Longrightarrow>
      rt_inv e b X (outside_step e x s) \<and> mt_active (mode_transition (outside_step e x s))" for s x
    by (simp add: rt_inv_outside outside_frame)
qed (auto elim!: rt_inv_same simp: view_def)

lemma rt_inv_record [simp]: "rt_inv e b X (record_action a s) = rt_inv e b X s"
  by (rule inv_cong) (simp add: view_def record_action_def)

lemma rt_inv_upd [simp]:
  "rt_inv e b X (s\<lparr>last_sent_nonzero := x\<rparr>) = rt_inv e b X s"
  "rt_inv e b X (s\<lparr>iteration_now := k\<rparr>) = rt_inv e b X s"
  "rt_inv e b X (s\<lparr>motion_refresh_due := x\<rparr>) = rt_inv e b X s"
  "rt_inv e b X (s\<lparr>heartbeat_failures := n\<rparr>) = rt_inv e b X s"
  "rt_inv e b X (s\<lparr>next_heartbeat := k\<rparr>) = rt_inv e b X s"
  "rt_inv e b X (s\<lparr>next_state_poll := k\<rparr>) = rt_inv e b X s"
  "rt_inv e b X (s\<lparr>next_motion_refresh := k\<rparr>) = rt_inv e b X s"
  "rt_inv e b X (s\<lparr>driver_ready_armed := x\<rparr>) = rt_inv e b X s"
  "rt_inv e b X (s\<lparr>link_drop_latched := x\<rparr>) = rt_inv e b X s"
  "rt_inv e b X (s\<lparr>worker := w\<rparr>) = rt_inv e b X s"
  "rt_inv e b X (s\<lparr>backoff := k\<rparr>) = rt_inv e b X s"
  "rt_inv e b X (s\<lparr>sdk_linked := x\<rparr>) = rt_inv e b X s"
  "rt_inv e b X (s\<lparr>control_authority := x\<rparr>) = rt_inv e b X s"
  "rt_inv e b X (s\<lparr>last_snapshot_sport_status := y\<rparr>) = rt_inv e b X s"
  "rt_inv e b X (s\<lparr>last_snapshot_error_code := z\<rparr>) = rt_inv e b X s"
  by (rule inv_cong, simp add: view_def)+

lemma send_zero_keeps [keeping]: "keeps (rt_inv e b X) (send_zero_and_damping e)"
  unfolding send_zero_and_damping_def by (intro keeping keeps_act) simp_all

lemma actuate_stop_keeps [keeping]: "keeps (rt_inv e b X) (actuate_stop_if_authorized e)"
  unfolding actuate_stop_if_authorized_def by (intro keeping)

lemma leave_keeps [keeping]: "keeps (rt_inv e b X) (leave_if_ended e)"
  unfolding leave_if_ended_def by (intro keeping)

lemma abort_keeps [keeping]: "keeps (rt_inv e b X) (abort_for_estop e)"
  unfolding abort_for_estop_def
  by (intro keeping keeps_act) (simp_all add: inv_fail_queue inv_ctl_do inv_fail_mode_transition)

lemma take_estop_triple:
  "triple (rt_inv e b {}) take_estop
     (\<lambda>taken s. case taken of None \<Rightarrow> rt_inv e b {} s | Some q \<Rightarrow> q \<noteq> None \<and> rt_inv e b (set_option q) s)"
proof (rule tripleI)
  fix s assume "rt_inv e b {} s"
  then show "case run_state take_estop s of (taken, t) \<Rightarrow>
      (case taken of None \<Rightarrow> rt_inv e b {} t | Some q \<Rightarrow> q \<noteq> None \<and> rt_inv e b (set_option q) t)"
    using inv_release_mark [of e b "{}" s] by (auto simp: take_estop_def rt_inv_def)
qed

lemma answer_estop_triple:
  assumes "p \<noteq> None"
  shows "triple (rt_inv e b (set_option p)) (act (answer_estop p r)) (\<lambda>_. rt_inv e b {})"
  using assms by (auto intro!: triple_act simp: answer_estop_def inv_set_promise)

lemma handle_estop_keeps [keeping]: "keeps (rt_inv e b {}) (handle_estop_if_requested e)"
proof -
  have body: "triple (rt_inv e b (set_option p)) (do {
         _ \<leftarrow> interfere e;
         _ \<leftarrow> abort_for_estop e;
         _ \<leftarrow> interfere e;
         may \<leftarrow> ask may_actuate;
         if \<not> may then act (answer_estop p r1)
         else do {
           sent \<leftarrow> send_zero_and_damping e;
           if sent then act (answer_estop p r2) else act (answer_estop p r3)
         }
       }) (\<lambda>_. rt_inv e b {})" if "p \<noteq> None" for p r1 r2 r3
    using that
    by (intro triple_bind [where R = "\<lambda>_. rt_inv e b (set_option p)"] triple_if answer_estop_triple
        keeping [unfolded keeps_def])
  show ?thesis
    unfolding handle_estop_if_requested_def keeps_def
    by (rule triple_bind [OF inv_stable.interfere_keeps [unfolded keeps_def]],
        rule triple_bind [OF take_estop_triple])
      (auto split: option.split intro: triple_ret intro!: triple_pre body)
qed

text \<open>A command's promise starts in a local variable and ends answered or in the armed transition.\<close>

abbreviation idle :: "env \<Rightarrow> promise \<Rightarrow> rt \<Rightarrow> bool" where
  "idle e p s \<equiv> rt_inv e True {p} s \<and> \<not> mt_active (mode_transition s)"

definition after_flow :: "env \<Rightarrow> promise \<Rightarrow> flow \<Rightarrow> rt \<Rightarrow> bool" where
  "after_flow e p f s \<longleftrightarrow> (case f of Returned \<Rightarrow> rt_inv e True {} s | _ \<Rightarrow> idle e p s)"

lemmas idle_call = idle_stable.call_keeps [unfolded keeps_def]

lemma rt_inv_arm:
  assumes "idle e p s" "mt_promise m = p"
  shows "rt_inv e True {} (s\<lparr>mode_transition := m\<lparr>mt_active := True\<rparr>\<rparr>)"
  by (rule inv_transfer [of e True "{p}" s]) (use assms in \<open>auto simp: rt_inv_def held_def\<close>)

lemma zero_before_mode_triple: "triple (idle e p) (zero_before_mode e p) (after_flow e p)"
  unfolding zero_before_mode_def
  by (intro triple_bind [OF triple_ask [where Q = "\<lambda>_. idle e p"]] triple_if
      triple_bind [OF idle_call] triple_option triple_ret
      triple_bind [OF triple_act [where Q = "\<lambda>_. idle e p"]]
      triple_bind [OF triple_act [where Q = "\<lambda>_. rt_inv e True {}"]])
    (auto simp: after_flow_def inv_set_promise inv_ctl_do)

lemma switch_mode_triple: "triple (idle e p) (switch_mode e mode p) (after_flow e p)"
  unfolding switch_mode_def
  by (intro triple_if triple_bind [OF idle_call] triple_option triple_ret
      triple_bind [OF triple_act [where Q = "\<lambda>_. idle e p"]]
      triple_bind [OF triple_act [where Q = "\<lambda>_. rt_inv e True {}"]])
    (use rt_inv_arm [of e p, where m = "\<lparr>mt_active = True, stable_status = x, mt_deadline = y, mt_promise = p\<rparr>" for x y]
      in \<open>auto simp: after_flow_def inv_set_promise inv_ctl_do\<close>)

lemma switch_mode_not_continue:
  "triple (idle e p) (switch_mode e mode p) (\<lambda>f s. f \<noteq> Continue \<and> after_flow e p f s)"
proof (rule tripleI)
  fix s assume s: "idle e p s"
  have "fst (run_state (switch_mode e mode p) s) \<noteq> Continue"
    by (auto simp: switch_mode_def split: prod.splits option.splits)
  with s show "case run_state (switch_mode e mode p) s of (f, t) \<Rightarrow> f \<noteq> Continue \<and> after_flow e p f t"
    using tripleD [OF switch_mode_triple] by (auto split: prod.splits)
qed

lemma fail_mode_transition_inactive [simp]: "\<not> mt_active (mode_transition (fail_mode_transition r c s))"
  by (simp add: fail_mode_transition_def Let_def)

lemma execute_body_triple:
  "triple (rt_inv e True {command_promise cmd}) (execute_body e cmd)
     (\<lambda>f. case f of Threw x \<Rightarrow> rt_inv e True {command_promise cmd} | _ \<Rightarrow> rt_inv e True {})"
proof (cases cmd)
  case (RequestAuthorityCommand sdk p)
  then show ?thesis
    by (auto intro!: triple_bind [OF inv_stable.call_keeps [unfolded keeps_def]] triple_option triple_ret
        triple_bind [OF triple_act [where Q = "\<lambda>_. rt_inv e True {}"]] inv_set_promise)
next
  case (RequestModeCommand mode p)
  have start: "triple (rt_inv e True {p}) (act (fail_mode_transition r c)) (\<lambda>_. idle e p)" for r c
    by (rule triple_act) (simp add: inv_fail_mode_transition)
  have flow: "triple (after_flow e p f) (case f of Continue \<Rightarrow> switch_mode e mode p | _ \<Rightarrow> ret f)
      (\<lambda>f. case f of Threw x \<Rightarrow> rt_inv e True {p} | _ \<Rightarrow> rt_inv e True {})" for f
  proof (cases f)
    case Continue
    have "triple (idle e p) (switch_mode e mode p)
        (\<lambda>f. case f of Threw x \<Rightarrow> rt_inv e True {p} | _ \<Rightarrow> rt_inv e True {})"
      by (rule triple_weaken [OF switch_mode_not_continue]) (auto simp: after_flow_def split: flow.splits)
    then show ?thesis
      using Continue by (simp add: after_flow_def [abs_def])
  qed (auto intro!: triple_ret simp: after_flow_def)
  show ?thesis
    using RequestModeCommand
    by (auto intro!: triple_bind [OF start] triple_bind [OF zero_before_mode_triple] flow)
qed

lemma rt_inv_abort_command:
  assumes "rt_inv e b {command_promise cmd} s"
  shows "rt_inv e b {} (abort_command x cmd s)"
proof -
  let ?r = "failure kSdkResFailed ''mode transition aborted by a command execution exception''"
  have "(if mt_active (mode_transition s)
      then set_promise (mt_promise (mode_transition s)) ?r
        (s\<lparr>mode_transition := (mode_transition s)\<lparr>mt_active := False\<rparr>\<rparr>)
      else s) = fail_mode_transition ?r False s"
    by (simp add: fail_mode_transition_def Let_def)
  then show ?thesis
    using assms by (simp add: abort_command_def Let_def inv_set_promise inv_ctl_do inv_fail_mode_transition)
qed

lemma execute_command_triple:
  "triple (rt_inv e True {command_promise cmd}) (execute_command e cmd) (\<lambda>_. rt_inv e True {})"
  unfolding execute_command_def
proof (rule triple_bind [OF execute_body_triple])
  show "triple (case f of Threw x \<Rightarrow> rt_inv e True {command_promise cmd} | _ \<Rightarrow> rt_inv e True {})
      (case f of Threw x \<Rightarrow> act (abort_command x cmd) | _ \<Rightarrow> ret ()) (\<lambda>_. rt_inv e True {})" for f
    by (cases f) (auto intro!: triple_ret triple_act rt_inv_abort_command)
qed

lemma pop_command_triple:
  "triple (rt_inv e True {}) pop_command
     (\<lambda>cmd. case cmd of None \<Rightarrow> rt_inv e True {} | Some c \<Rightarrow> rt_inv e True {command_promise c})"
proof (rule tripleI)
  fix s assume s: "rt_inv e True {} s"
  let ?q = "command_queue s"
  show "case run_state pop_command s of (cmd, t) \<Rightarrow>
      (case cmd of None \<Rightarrow> rt_inv e True {} | Some c \<Rightarrow> rt_inv e True {command_promise c}) t"
  proof (cases "items ?q")
    case Nil
    then show ?thesis
      using s by (simp add: pop_command_def queue_defs)
  next
    case (Cons c cs)
    have "rt_inv e True {command_promise c} (s\<lparr>command_queue := ?q\<lparr>items := cs\<rparr>\<rparr>)"
      by (rule inv_transfer [OF s])
        (use s Cons in \<open>auto simp: rt_inv_def held_def queue_ok_def tsq_inv_def\<close>)
    then show ?thesis
      using Cons by (simp add: pop_command_def queue_defs)
  qed
qed

lemma settle_orphan_keeps [keeping]: "keeps (rt_inv e b X) (settle_orphan e)"
  unfolding settle_orphan_def by (intro keeping keeps_act) (simp_all add: inv_fail_mode_transition)

lemma check_keeps [keeping]: "keeps (rt_inv e b X) (check_mode_transition e sn)"
proof -
  let ?armed = "\<lambda>s. rt_inv e b X s \<and> mt_active (mode_transition s)"
  have confirm: "triple ?armed (do { _ \<leftarrow> interfere e; act (confirm_mode_transition sn) }) (\<lambda>_. rt_inv e b X)"
    by (rule triple_bind [OF keeps_triple [OF armed_stable.interfere_keeps]], rule triple_act) (simp add: inv_confirm)
  have fails: "triple ?armed (act (fail_mode_transition r c)) (\<lambda>_. rt_inv e b X)" for r c
    by (rule triple_act) (simp add: inv_fail_mode_transition)
  have pending: "triple ?armed (ask f) (\<lambda>_. ?armed)" for f :: "rt \<Rightarrow> bool"
    by (rule triple_ask) simp
  have active: "triple (rt_inv e b X) (ask (\<lambda>s. mt_active (mode_transition s)))
      (\<lambda>a s. rt_inv e b X s \<and> (a \<longrightarrow> mt_active (mode_transition s)))"
    by (rule triple_ask) simp
  have body: "triple (\<lambda>s. rt_inv e b X s \<and> (a \<longrightarrow> mt_active (mode_transition s))) (if \<not> a then ret () else m) (\<lambda>_. rt_inv e b X)"
    if "triple ?armed m (\<lambda>_. rt_inv e b X)" for a m
    using that by (cases a) (auto intro: triple_ret)
  show ?thesis
    unfolding check_mode_transition_def keeps_def
    by (rule triple_bind [OF active], rule body, rule triple_bind [OF pending], rule triple_if [OF fails confirm])
qed

lemma rt_inv_settle_if_due: "rt_inv e b X s \<Longrightarrow> rt_inv e b X (settle_if_due s)"
  by (simp add: settle_if_due_def inv_settle)

lemma rt_inv_apply_snapshot: "rt_inv e b X s \<Longrightarrow> rt_inv e b X (apply_snapshot sn s)"
  by (simp add: apply_snapshot_def Let_def inv_ctl_do)

lemma rt_inv_arm_readiness: "rt_inv e b X s \<Longrightarrow> rt_inv e b X (arm_readiness sn s)"
  by (simp add: arm_readiness_def inv_ctl_do)

lemma take_motion_keeps [keeping]: "keeps (rt_inv e b X) take_motion_request"
  by (rule keepsI) (simp add: take_motion_request_def)

lemma read_tick_keeps [keeping]: "keeps (rt_inv e b X) read_tick"
  by (rule keepsI) (simp add: read_tick_def)

lemma heartbeat_keeps [keeping]: "keeps (rt_inv e b X) (heartbeat_if_due e)"
  unfolding heartbeat_if_due_def by (intro keeping keeps_act) simp_all

lemma motion_keeps [keeping]: "keeps (rt_inv e b X) (motion_if_due e r)"
  unfolding motion_if_due_def Let_def by (intro keeping keeps_act) simp_all

lemma poll_keeps [keeping]: "keeps (rt_inv e b X) (poll_if_due e)"
  unfolding poll_if_due_def
  by (intro keeping keeps_act)
    (simp_all add: rt_inv_apply_snapshot rt_inv_arm_readiness inv_dispatch)

lemma run_next_command_keeps [keeping]: "keeps (rt_inv e True {}) (run_next_command e)"
proof -
  have "triple (case cmd of None \<Rightarrow> rt_inv e True {} | Some c \<Rightarrow> rt_inv e True {command_promise c})
      (case cmd of None \<Rightarrow> ret () | Some c \<Rightarrow> execute_command e c) (\<lambda>_. rt_inv e True {})" for cmd
    by (cases cmd) (auto intro: triple_ret execute_command_triple)
  then show ?thesis
    unfolding run_next_command_def keeps_def by (rule triple_bind [OF pop_command_triple])
qed

lemma iteration_body_keeps [keeping]: "keeps (rt_inv e True {}) (iteration_body e)"
  unfolding iteration_body_def
  by (intro keeping keeps_act) (simp_all add: rt_inv_settle_if_due)

lemma connected_iteration_keeps [keeping]: "keeps (rt_inv e True {}) (connected_iteration e)"
  unfolding connected_iteration_def by (intro keeping keeps_act) simp_all

lemma invalidate_keeps [keeping]: "keeps (rt_inv e b X) (invalidate_session e)"
  unfolding invalidate_session_def
  by (intro keeping keeps_act) (simp_all add: clear_session_caches_def inv_ctl_do)

lemma failed_attempt_keeps [keeping]: "keeps (rt_inv e b X) (failed_attempt e msg)"
  unfolding failed_attempt_def start_backoff_def by (intro keeping keeps_act) simp_all

lemma subscribe_keeps [keeping]: "keeps (rt_inv e b X) (subscribe_telemetry e)"
  unfolding subscribe_telemetry_def by (intro keeping)

lemma exit_keeps [keeping]: "keeps (rt_inv e b X) exit_worker"
  unfolding exit_worker_def by (intro keeping keeps_act) simp_all

lemma wait_backoff_keeps [keeping]: "keeps (rt_inv e b X) (wait_backoff e d)"
  unfolding wait_backoff_def by (intro keeping keeps_act) simp_all

text \<open>The beginning and the end of a session.\<close>

lemma rt_inv_begin: "rt_inv e False X s \<Longrightarrow> rt_inv e True X (s\<lparr>connected := True\<rparr>)"
  by (auto simp: rt_inv_def promises_ok_def held_def control_ok_def)

lemma begin_session_triple: "triple (rt_inv e False {}) (begin_session e) (\<lambda>_ s. rt_inv e True {} s \<and> worker s = InSession)"
  unfolding begin_session_def
  by (rule triple_bind [OF inv_stable.interfere_keeps [unfolded keeps_def]],
      rule triple_bind [where R = "\<lambda>_. rt_inv e True {}"], rule triple_act, simp add: rt_inv_begin,
      rule triple_bind [where R = "\<lambda>_. rt_inv e True {}"], rule triple_act, simp,
      rule triple_bind [where R = "\<lambda>_. rt_inv e True {}"], rule triple_act, simp,
      rule triple_bind [OF inv_stable.interfere_keeps [unfolded keeps_def]], rule triple_act, simp)

lemma fail_queue_empties [simp]:
  "items (command_queue (fail_queue r s)) = []"
  "mode_transition (fail_queue r s) = mode_transition s" "estop_engaged (fail_queue r s) = estop_engaged s"
  "estop_promise (fail_queue r s) = estop_promise s"
proof -
  have f: "command_queue (fold (fail_command r) cmds s) = command_queue s"
    "mode_transition (fold (fail_command r) cmds s) = mode_transition s"
    "estop_engaged (fold (fail_command r) cmds s) = estop_engaged s"
    "estop_promise (fold (fail_command r) cmds s) = estop_promise s" for cmds s
    by (induction cmds arbitrary: s) (simp_all add: fail_command_def)
  show "items (command_queue (fail_queue r s)) = []"
    "mode_transition (fail_queue r s) = mode_transition s" "estop_engaged (fail_queue r s) = estop_engaged s"
    "estop_promise (fail_queue r s) = estop_promise s"
    by (simp_all add: fail_queue_def drain_eq f)
qed

lemma fail_mode_transition_frame [simp]:
  "command_queue (fail_mode_transition r c s) = command_queue s"
  "estop_engaged (fail_mode_transition r c s) = estop_engaged s"
  "estop_promise (fail_mode_transition r c s) = estop_promise s"
  "connected (fail_mode_transition r c s) = connected s"
  by (simp_all add: fail_mode_transition_def Let_def)

lemma rt_inv_drop_estop_mark:
  assumes "rt_inv e b X s"
  shows "rt_inv e b X (drop_estop_mark s) \<and> \<not> estop_engaged (drop_estop_mark s)"
proof (cases "estop_promise s")
  case None
  then show ?thesis
    using assms by (auto simp: drop_estop_mark_def rt_inv_def)
next
  case (Some p)
  then have "estop_engaged s"
    using assms by (simp add: rt_inv_def)
  then have "drop_estop_mark s = set_promise p (failure kSdkResNotInit
         ''connection lost during the emergency stop; the software latch remains set'')
        (s\<lparr>estop_engaged := False, estop_promise := None\<rparr>)"
    using Some by (simp add: drop_estop_mark_def set_promise_def Let_def)
  then show ?thesis
    using inv_set_promise inv_release_mark [OF assms] Some by simp
qed

lemma rt_inv_fail_all:
  assumes "rt_inv e b X s"
  shows "rt_inv e b X (fail_all_pending_locked s) \<and> quiet (fail_all_pending_locked s)"
  using rt_inv_drop_estop_mark [OF assms]
  by (simp add: fail_all_pending_locked_def Let_def quiet_def inv_fail_queue inv_fail_mode_transition)

lemma connected_commutes:
  "set_promise p r (s\<lparr>connected := b\<rparr>) = (set_promise p r s)\<lparr>connected := b\<rparr>"
  "ctl_do f (s\<lparr>connected := b\<rparr>) = (ctl_do f s)\<lparr>connected := b\<rparr>"
  "fail_mode_transition r c (s\<lparr>connected := b\<rparr>) = (fail_mode_transition r c s)\<lparr>connected := b\<rparr>"
  by (simp_all add: set_promise_def ctl_do_def fail_mode_transition_def Let_def)

lemma fail_queue_commutes: "fail_queue r (s\<lparr>connected := b\<rparr>) = (fail_queue r s)\<lparr>connected := b\<rparr>"
proof -
  have c: "fold (fail_command r) cmds (s\<lparr>connected := b\<rparr>) = (fold (fail_command r) cmds s)\<lparr>connected := b\<rparr>" for cmds s
    by (induction cmds arbitrary: s) (simp_all add: fail_command_def connected_commutes)
  let ?f = "fold (fail_command r) (items (command_queue s))"
  let ?q = "(command_queue s)\<lparr>items := []\<rparr>"
  have "fail_queue r (s\<lparr>connected := b\<rparr>) = ?f (s\<lparr>connected := b, command_queue := ?q\<rparr>)"
    by (simp add: fail_queue_def drain_eq)
  also have "\<dots> = ?f (s\<lparr>command_queue := ?q, connected := b\<rparr>)"
    by (rule arg_cong [where f = ?f]) simp
  also have "\<dots> = (?f (s\<lparr>command_queue := ?q\<rparr>))\<lparr>connected := b\<rparr>"
    by (rule c)
  finally show ?thesis
    by (simp add: fail_queue_def drain_eq)
qed

lemma drop_estop_mark_commutes: "drop_estop_mark (s\<lparr>connected := b\<rparr>) = (drop_estop_mark s)\<lparr>connected := b\<rparr>"
  by (simp add: drop_estop_mark_def set_promise_def Let_def split: option.split)

lemma fail_all_disconnect:
  "fail_all_pending_locked (s\<lparr>connected := b\<rparr>) = (fail_all_pending_locked s)\<lparr>connected := b\<rparr>"
  by (simp add: fail_all_pending_locked_def Let_def drop_estop_mark_commutes connected_commutes fail_queue_commutes)

lemma rt_inv_disconnect:
  assumes "rt_inv e True X s"
  shows "rt_inv e False X (fail_all_pending_locked (s\<lparr>connected := False\<rparr>))"
  using rt_inv_fail_all [OF assms]
  by (auto simp: fail_all_disconnect rt_inv_def promises_ok_def held_def quiet_def control_ok_def)

text \<open>The state of the program counter and the connection flag agree between steps.\<close>

definition session_inv :: "env \<Rightarrow> rt \<Rightarrow> bool" where
  "session_inv e s \<longleftrightarrow> rt_inv e (worker s = InSession) {} s"

lemma start_backoff_pc [simp]: "worker (start_backoff s) \<noteq> InSession" 
  by (simp add: start_backoff_def)

lemma triple_settle:
  assumes "keeps (rt_inv e False {}) m" "\<And>s. worker (f s) \<noteq> InSession" "\<And>s. rt_inv e False {} s \<Longrightarrow> rt_inv e False {} (f s)"
  shows "triple (rt_inv e False {}) (m \<bind> (\<lambda>_. act f)) (\<lambda>_. session_inv e)"
  by (rule triple_bind [OF keeps_triple [OF assms(1)]], rule triple_act) (simp add: session_inv_def assms)

lemma failed_attempt_triple: "triple (rt_inv e False {}) (failed_attempt e msg) (\<lambda>_. session_inv e)"
  unfolding failed_attempt_def
  by (rule triple_bind [where R = "\<lambda>_. rt_inv e False {}"], rule triple_act, simp,
      rule triple_bind [OF keeps_triple [OF invalidate_keeps]],
      rule triple_settle [OF inv_stable.call_keeps]) (simp_all add: start_backoff_def)

lemma exit_triple: "triple (rt_inv e False {}) exit_worker (\<lambda>_. session_inv e)"
  unfolding exit_worker_def by (rule triple_act) (simp add: session_inv_def)

lemmas call_triple = keeps_triple [OF inv_stable.call_keeps]
lemmas interfere_triple = keeps_triple [OF inv_stable.interfere_keeps]
lemmas ask_triple = keeps_triple [OF keeps_ask]

lemma begin_triple: "triple (rt_inv e False {}) (begin_session e) (\<lambda>_. session_inv e)"
  by (rule triple_weaken [OF begin_session_triple]) (simp_all add: session_inv_def)

lemma attempt_init_triple: "triple (rt_inv e False {}) (attempt_init e) (\<lambda>_. session_inv e)"
  unfolding attempt_init_def
  by (rule triple_bind [where R = "\<lambda>_. rt_inv e False {}"], rule triple_act, simp,
      intro triple_bind [OF call_triple] triple_bind [OF ask_triple] triple_if failed_attempt_triple
      exit_triple begin_triple triple_bind [OF keeps_triple [OF subscribe_keeps]])

lemma connect_triple: "triple (rt_inv e False {}) (connect_iteration e) (\<lambda>_. session_inv e)"
  unfolding connect_iteration_def
  by (intro triple_bind [OF call_triple] triple_bind [OF interfere_triple] triple_bind [OF ask_triple]
      triple_if failed_attempt_triple exit_triple attempt_init_triple)

lemma end_session_triple: "triple (rt_inv e True {}) (end_session e) (\<lambda>_. session_inv e)"
proof -
  have notify: "triple (rt_inv e False {}) (act (notify_event e sev msg)) (\<lambda>_. rt_inv e False {})" for sev msg
    by (rule triple_act) simp
  have backoff: "triple (rt_inv e False {}) (act start_backoff) (\<lambda>_. session_inv e)"
    by (rule triple_act) (simp add: session_inv_def start_backoff_def)
  have drop: "triple (rt_inv e True {}) (act (\<lambda>s. record_action SessionEnd (fail_all_pending_locked (s\<lparr>connected := False\<rparr>))))
      (\<lambda>_. rt_inv e False {})"
    by (rule triple_act) (simp add: rt_inv_disconnect)
  show ?thesis
    unfolding end_session_def
    by (rule triple_bind [OF interfere_triple], rule triple_bind [OF drop],
        intro triple_bind [OF keeps_triple [OF invalidate_keeps]] triple_bind [OF call_triple]
        triple_bind [OF ask_triple] triple_if exit_triple triple_bind [OF notify] backoff)
qed

section \<open>Predicates the worker's blocks keep\<close>

text \<open>
  Predicates that do not depend on what the worker's bookkeeping holds. Every pure part of the
  worker keeps such a predicate.
\<close>

fun requested_op :: "ctl_op \<Rightarrow> bool" where
  "requested_op (AcceptVelocity v) = True"
| "requested_op (RequestMode name) = True"
| "requested_op TriggerEstop = True"
| "requested_op ClearEstop = True"
| "requested_op _ = False"

locale oblivious = stable_predicate +
  assumes set_promise_ok: "P s \<Longrightarrow> P (set_promise p r s)"
    and ctl_do_ok: "P s \<Longrightarrow> \<not> requested_op f \<Longrightarrow> P (ctl_do f s)"
    and dispatch_ok: "P s \<Longrightarrow> P (dispatch_observer_safely e ob s)"
    and queue_upd: "P s \<Longrightarrow> set (items q) \<subseteq> set (items (command_queue s)) \<Longrightarrow> P (s\<lparr>command_queue := q\<rparr>)"
    and transition_upd: "P s \<Longrightarrow> P (s\<lparr>mode_transition := m\<rparr>)"
    and estop_upd: "P s \<Longrightarrow> P (s\<lparr>estop_engaged := x\<rparr>)" "P s \<Longrightarrow> P (s\<lparr>estop_promise := y\<rparr>)"
    and sent_upd: "P s \<Longrightarrow> P (s\<lparr>last_sent_nonzero := x\<rparr>)"
    and armed_upd: "P s \<Longrightarrow> P (s\<lparr>driver_ready_armed := x\<rparr>)"
    and times_upd: "P s \<Longrightarrow> P (s\<lparr>heartbeat_failures := n\<rparr>)" "P s \<Longrightarrow> P (s\<lparr>next_heartbeat := k\<rparr>)"
      "P s \<Longrightarrow> P (s\<lparr>next_state_poll := k\<rparr>)" "P s \<Longrightarrow> P (s\<lparr>next_motion_refresh := k\<rparr>)"
      "P s \<Longrightarrow> P (s\<lparr>iteration_now := k\<rparr>)"
    and shared_upd: "P s \<Longrightarrow> P (s\<lparr>motion_refresh_due := x\<rparr>)" "P s \<Longrightarrow> P (s\<lparr>link_drop_latched := x\<rparr>)"
      "P s \<Longrightarrow> P (s\<lparr>sdk_linked := x\<rparr>)" "P s \<Longrightarrow> P (s\<lparr>control_authority := x\<rparr>)"
      "P s \<Longrightarrow> P (s\<lparr>last_snapshot_sport_status := u\<rparr>)" "P s \<Longrightarrow> P (s\<lparr>last_snapshot_error_code := v\<rparr>)"
begin

lemmas upds = set_promise_ok ctl_do_ok dispatch_ok queue_upd transition_upd estop_upd sent_upd armed_upd
  times_upd shared_upd

lemma notify_ok: "P s \<Longrightarrow> P (notify_event e sev msg s)"
  by (simp add: notify_event_def dispatch_ok)

lemma fail_mode_transition_ok: "P s \<Longrightarrow> P (fail_mode_transition r c s)"
  by (simp add: fail_mode_transition_def Let_def upds)

lemma settle_ok: "P s \<Longrightarrow> P (settle_mode_transition_timeout s)"
  by (simp add: settle_mode_transition_timeout_def Let_def upds)

lemma fail_queue_ok: "P s \<Longrightarrow> P (fail_queue r s)"
proof -
  have "P s \<Longrightarrow> P (fold (fail_command r) cmds s)" for cmds s
    by (induction cmds arbitrary: s) (simp_all add: fail_command_def upds)
  then show "P s \<Longrightarrow> P (fail_queue r s)"
    by (simp add: fail_queue_def drain_eq upds)
qed

lemmas pure_ok = upds notify_ok fail_mode_transition_ok settle_ok fail_queue_ok

lemma blocks_ok:
  assumes "P s"
  shows "P (settle_if_due s)" "P (confirm_mode_transition sn s)"
    "P (apply_snapshot sn s)" "P (arm_readiness sn s)"
    "P (abort_command x cmd s)" "P (answer_estop po r s)" "P (drop_estop_mark s)"
    "P (fail_all_pending_locked s)" "P (clear_session_caches s)"
  using assms
  by (auto simp: settle_if_due_def confirm_mode_transition_def apply_snapshot_def
      arm_readiness_def abort_command_def answer_estop_def drop_estop_mark_def
      fail_all_pending_locked_def clear_session_caches_def Let_def pure_ok split: option.split)

lemma take_ok: "keeps P take_estop" "keeps P take_motion_request"
  using pure_ok by (auto intro!: keepsI simp: take_estop_def take_motion_request_def)

end

text \<open>
  The contract of the blocks that talk to the SDK: given these, the whole connected loop keeps the
  predicate.
\<close>

fun needs_warrant :: "action \<Rightarrow> bool" where
  "needs_warrant (RequestAuthority b t) = True"
| "needs_warrant (Move v t) = True"
| "needs_warrant (SetMode m t) = True"
| "needs_warrant (Tick now c h) = True"
| "needs_warrant (Popped cmd) = True"
| "needs_warrant _ = False"

locale worker_blocks = oblivious +
  assumes harmless_call: "\<not> needs_warrant a \<Longrightarrow> keeps P (call e a)"
    and stop_block: "keeps P (send_zero_and_damping e)"
    and command_block: "keeps P (run_next_command e)"
    and motion_block: "keeps P (motion_if_due e requested)"
begin

lemmas loop_rules = keeping keeps_act interfere_keeps take_ok stop_block command_block motion_block
  harmless_call

lemma leave_ok: "keeps P (leave_if_ended e)"
  unfolding leave_if_ended_def actuate_stop_if_authorized_def by (intro loop_rules)

lemma transition_ok: "keeps P (settle_orphan e)" "keeps P (check_mode_transition e sn)" "keeps P (abort_for_estop e)"
  unfolding settle_orphan_def check_mode_transition_def abort_for_estop_def
  by (intro loop_rules; simp add: pure_ok blocks_ok)+

lemma estop_ok: "keeps P (handle_estop_if_requested e)"
  unfolding handle_estop_if_requested_def by (intro loop_rules transition_ok) (simp_all add: blocks_ok)

lemma heartbeat_ok: "keeps P (heartbeat_if_due e)"
  unfolding heartbeat_if_due_def by (intro loop_rules) (simp_all add: pure_ok)

lemma poll_ok: "keeps P (poll_if_due e)"
  unfolding poll_if_due_def by (intro loop_rules transition_ok) (simp_all add: pure_ok blocks_ok)

lemma iteration_ok: "keeps P (connected_iteration e)"
  unfolding connected_iteration_def iteration_body_def
  by (intro loop_rules leave_ok estop_ok transition_ok heartbeat_ok poll_ok) (simp_all add: pure_ok blocks_ok)

lemma invalidate_ok: "keeps P (invalidate_session e)"
  unfolding invalidate_session_def by (intro loop_rules) (simp_all add: pure_ok blocks_ok)

lemma subscribe_ok: "keeps P (subscribe_telemetry e)"
  unfolding subscribe_telemetry_def by (intro loop_rules) simp_all

end

text \<open>With the program counter and the session markers, the whole worker.\<close>

locale worker_predicate = worker_blocks +
  assumes pc_upd: "P s \<Longrightarrow> P (s\<lparr>worker := w\<rparr>)" "P s \<Longrightarrow> P (s\<lparr>connected := b\<rparr>)"
    and backoff_reset: "P s \<Longrightarrow> P (s\<lparr>backoff := reconnect_initial_delay_ms (config e)\<rparr>)"
    and backoff_grow: "P s \<Longrightarrow> P (s\<lparr>backoff := next_backoff (config e) (backoff s)\<rparr>)"
    and marker_ok: "P s \<Longrightarrow> P (record_action SessionStart s)" "P s \<Longrightarrow> P (record_action SessionEnd s)"
begin

lemma start_backoff_ok: "P s \<Longrightarrow> P (start_backoff s)"
  by (simp add: start_backoff_def pc_upd)

lemma failed_ok: "keeps P (failed_attempt e msg)"
  unfolding failed_attempt_def by (intro loop_rules invalidate_ok) (simp_all add: pure_ok start_backoff_ok)

lemma exit_ok: "keeps P exit_worker"
  unfolding exit_worker_def by (intro loop_rules) (simp add: pc_upd)

lemma begin_ok: "keeps P (begin_session e)"
  unfolding begin_session_def by (intro loop_rules) (simp_all add: pure_ok pc_upd backoff_reset marker_ok)

lemma end_ok: "keeps P (end_session e)"
  unfolding end_session_def
  by (intro loop_rules invalidate_ok exit_ok) (simp_all add: pure_ok pc_upd marker_ok blocks_ok start_backoff_ok)

lemma connect_ok: "keeps P (connect_iteration e)"
  unfolding connect_iteration_def attempt_init_def
  by (intro loop_rules failed_ok exit_ok begin_ok subscribe_ok) (simp_all add: pure_ok)

lemma step_ok: "P s \<Longrightarrow> (\<And>x. l = Outside x \<Longrightarrow> P (outside_step e x s)) \<Longrightarrow> P (rt_next e l s)"
proof (cases l)
  case Worker
  have "keeps P (worker_step e (worker s))"
    unfolding worker_step_def
    by (cases "worker s") (auto intro!: loop_rules connect_ok iteration_ok end_ok simp: wait_backoff_def pc_upd pure_ok backoff_grow)
  then show "P s \<Longrightarrow> ?thesis"
    using Worker keepsD by simp
qed (simp_all add: rt_start_def pc_upd)

end

lemma keeps_flow [keeping]:
  "keeps P m \<Longrightarrow> (\<And>x. keeps P (g x)) \<Longrightarrow> keeps P n \<Longrightarrow>
     keeps P (case f of Continue \<Rightarrow> m | Returned \<Rightarrow> n | Threw x \<Rightarrow> g x)"
  by (cases f) simp_all

text \<open>
  A predicate that further actions cannot falsify meets the contract of every block. A tick is recorded with the
  history of the controller, a popped command comes from the queue.
\<close>

fun recordable :: "rt \<Rightarrow> action \<Rightarrow> bool" where
  "recordable s (Tick now c h) \<longleftrightarrow> h = ctl_history s"
| "recordable s (Popped cmd) \<longleftrightarrow> cmd \<in> set (items (command_queue s))"
| "recordable s _ \<longleftrightarrow> True"

lemma harmless_recordable: "\<not> needs_warrant a \<Longrightarrow> recordable s a"
  by (cases a) simp_all

locale trace_oblivious = oblivious +
  assumes record_ok: "P s \<Longrightarrow> recordable s a \<Longrightarrow> P (record_action a s)"
begin

lemma call_ok: "(\<And>s. recordable s a) \<Longrightarrow> keeps P (call e a)"
  unfolding call_def by (intro keeping interfere_keeps keeps_act record_ok)

lemma send_zero_ok: "keeps P (send_zero_and_damping e)"
  unfolding send_zero_and_damping_def by (intro keeping keeps_act call_ok) (simp_all add: record_ok pure_ok)

lemma execute_ok: "keeps P (execute_command e cmd)"
proof -
  have "keeps P (execute_body e cmd)"
    by (cases cmd) (auto intro!: keeping keeps_act call_ok simp: zero_before_mode_def switch_mode_def pure_ok)
  then show ?thesis
    unfolding execute_command_def by (intro keeping keeps_act) (simp_all add: blocks_ok)
qed

lemma pop_ok: "keeps P pop_command"
proof (rule keepsI)
  fix s assume s: "P s"
  show "P (snd (run_state pop_command s))"
  proof (cases "items (command_queue s)")
    case Nil
    then show ?thesis
      using s queue_upd [of s "command_queue s"] by (simp add: pop_command_def queue_defs)
  next
    case (Cons cmd cmds)
    have "P (record_action (Popped cmd) s)"
      using s Cons by (simp add: record_ok)
    then have "P ((record_action (Popped cmd) s)\<lparr>command_queue := (command_queue s)\<lparr>items := cmds\<rparr>\<rparr>)"
      using Cons by (intro queue_upd) (auto simp: record_action_def)
    moreover have "(record_action (Popped cmd) s)\<lparr>command_queue := q\<rparr> = record_action (Popped cmd) (s\<lparr>command_queue := q\<rparr>)" for q
      by (simp add: record_action_def)
    ultimately show ?thesis
      using Cons by (simp add: pop_command_def queue_defs)
  qed
qed

lemma run_next_ok: "keeps P (run_next_command e)"
  unfolding run_next_command_def by (intro keeping pop_ok execute_ok)

lemma motion_ok: "keeps P (motion_if_due e requested)"
proof -
  have "keeps P read_tick"
    by (rule keepsI) (simp add: read_tick_def record_ok)
  then show ?thesis
    unfolding motion_if_due_def Let_def by (intro keeping interfere_keeps keeps_act call_ok) (simp_all add: pure_ok)
qed

end

sublocale trace_oblivious \<subseteq> worker_blocks
proof unfold_locales
  show "keeps P (call e a)" if "\<not> needs_warrant a" for a
    by (rule call_ok) (use that harmless_recordable in blast)
qed (rule send_zero_ok run_next_ok motion_ok)+

interpretation pc: trace_oblivious e "\<lambda>s. worker s = w" for e w
  by unfold_locales (simp_all add: outside_frame set_promise_def ctl_do_def dispatch_observer_safely_def
      record_action_def split: option.split)

lemmas pc_iteration = pc.iteration_ok

lemma session_triple:
  "triple (\<lambda>s. rt_inv e True {} s \<and> worker s = InSession) (worker_step e InSession) (\<lambda>_. session_inv e)"
proof -
  have "triple (\<lambda>s. rt_inv e True {} s \<and> worker s = InSession) (if alive then ret () else end_session e)
      (\<lambda>_. session_inv e)" for alive
    by (rule triple_if, rule triple_ret, simp add: session_inv_def, rule triple_weaken [OF end_session_triple]) simp_all
  then show ?thesis
    unfolding worker_step_def worker_pc.case
    by (rule triple_bind [OF keeps_triple [OF keeps_conj [OF connected_iteration_keeps pc_iteration]]])
qed

lemma session_inv_worker:
  assumes s: "session_inv e s"
  shows "session_inv e (snd (run_state (worker_step e (worker s)) s))"
proof (cases "worker s")
  case Connecting
  then show ?thesis
    using triple_snd [OF connect_triple] s by (simp add: session_inv_def worker_step_def)
next
  case (BackingOff d)
  then have "rt_inv e False {} (snd (run_state (wait_backoff e d) s))"
    using s by (intro keepsD [OF wait_backoff_keeps]) (simp add: session_inv_def)
  moreover have "worker (snd (run_state (wait_backoff e d) s)) \<noteq> InSession"
    using BackingOff by (simp add: wait_backoff_def case_prod_beta)
  ultimately show ?thesis
    using BackingOff by (simp add: worker_step_def session_inv_def)
next
  case InSession
  then show ?thesis
    using triple_snd [OF session_triple] s by (simp add: session_inv_def)
qed (use s in \<open>simp_all add: worker_step_def\<close>)

lemma session_inv_next: "session_inv e s \<Longrightarrow> session_inv e (rt_next e l s)"
proof (cases l)
  case (Outside x)
  then show "session_inv e s \<Longrightarrow> ?thesis"
    using rt_inv_outside by (simp add: session_inv_def outside_frame)
next
  case Start
  then show "session_inv e s \<Longrightarrow> ?thesis"
    by (auto simp: session_inv_def rt_start_def)
qed (simp add: session_inv_worker)

lemma session_inv_start: "rt_start_state e s \<Longrightarrow> session_inv e s"
  by (auto simp: rt_start_state_def DirectDriverRuntime_def session_inv_def rt_inv_def promises_ok_def
      held_def queue_ok_def quiet_def control_ok_def ThreadSafeQueue_def tsq_inv_def split: sum.splits if_splits)

interpretation runtime: invariant_system "rt_start_state e" "rt_step e" "session_inv e" for e
  by unfold_locales (auto simp: session_inv_start session_inv_next rt_step_def)

end
