(* ===== verification/Runtime_Warrants.thy ===== *)
theory Runtime_Warrants
  imports Runtime_Invariant
begin

text \<open>
  What the worker sends to the robot, and why: every call that moves the robot, changes its mode or
  asks for authority has its reason directly before it in the trace of the worker.
\<close>

section \<open>Every needs_warrant call is warranted\<close>

text \<open>
  The trace is newest first. An needs_warrant call needs its warrant directly before it: a nonzero
  velocity the tick that accepted it, an authority or mode call the command taken from the queue
  (with at most the zero move in between), the damping of a stop its zero move.
\<close>

fun warranted :: "env \<Rightarrow> action \<Rightarrow> action list \<Rightarrow> bool" where
  "warranted e (Move v t) tr \<longleftrightarrow> (velocity_nonzero v \<longrightarrow> (\<exists>now c h tr'. tr = Tick now c h # tr' \<and>
     vd_accepted (velocity_for_tick now c) \<and> v = vd_value (velocity_for_tick now c)))"
| "warranted e (RequestAuthority sdk t) tr \<longleftrightarrow> (\<exists>p tr'. tr = Popped (RequestAuthorityCommand sdk p) # tr')"
| "warranted e (SetMode m t) tr \<longleftrightarrow>
     (\<exists>p tr'. tr = Popped (RequestModeCommand m p) # tr') \<or>
     (\<exists>p u tr'. tr = Move zero_velocity u # Popped (RequestModeCommand m p) # tr') \<or>
     (m = 0xA101 \<and> (\<exists>u tr'. tr = Move zero_velocity u # StopSequence # tr'))"
| "warranted e (Tick now c h) tr \<longleftrightarrow>
     (\<exists>c0. RobotController (deadman_ms (config e)) = Inr c0 \<and> c = ctl_run h c0)"
| "warranted e _ tr \<longleftrightarrow> True"

fun all_warranted :: "env \<Rightarrow> action list \<Rightarrow> bool" where
  "all_warranted e [] = True"
| "all_warranted e (a # tr) \<longleftrightarrow> warranted e a tr \<and> all_warranted e tr"

definition warrant_inv :: "env \<Rightarrow> rt \<Rightarrow> bool" where
  "warrant_inv e s \<longleftrightarrow> control_ok e s \<and> all_warranted e (trace s)"

lemma warrant_frame: "ctrl t = ctrl s \<Longrightarrow> ctl_history t = ctl_history s \<Longrightarrow> trace t = trace s \<Longrightarrow>
    warrant_inv e s \<Longrightarrow> warrant_inv e t"
  by (simp add: warrant_inv_def control_ok_def)

text \<open>What other threads do to the controller goes through its operations.\<close>

lemma control_ok_frame: "ctrl t = ctrl s \<Longrightarrow> ctl_history t = ctl_history s \<Longrightarrow> control_ok e t = control_ok e s"
  by (simp add: control_ok_def)

lemma control_ok_more [simp]:
  "control_ok e (dispatch_observer_safely e' ob s) = control_ok e s"
  "control_ok e (notify_event e' sev msg s) = control_ok e s"
  by (auto intro!: control_ok_frame simp: dispatch_observer_safely_def notify_event_def split: option.split)

lemma control_ok_make: "make_promise s = (p, t) \<Longrightarrow> control_ok e t = control_ok e s"
  by (auto intro!: control_ok_frame simp: make_promise_def)

lemma control_ok_upd [simp]:
  "control_ok e (s\<lparr>clients := c\<rparr>) = control_ok e s" "control_ok e (s\<lparr>command_queue := q\<rparr>) = control_ok e s"
  "control_ok e (s\<lparr>estop_engaged := x\<rparr>) = control_ok e s" "control_ok e (s\<lparr>estop_promise := y\<rparr>) = control_ok e s"
  "control_ok e (s\<lparr>sdk_linked := x\<rparr>) = control_ok e s" "control_ok e (s\<lparr>control_authority := x\<rparr>) = control_ok e s"
  "control_ok e (s\<lparr>link_drop_latched := x\<rparr>) = control_ok e s"
  "control_ok e (s\<lparr>motion_refresh_due := x\<rparr>) = control_ok e s"
  "control_ok e (s\<lparr>latest_imu := i\<rparr>) = control_ok e s" "control_ok e (s\<lparr>latest_sport := j\<rparr>) = control_ok e s"
  "control_ok e (s\<lparr>clk := k\<rparr>) = control_ok e s" "control_ok e (s\<lparr>stop_requested := x\<rparr>) = control_ok e s"
  by (rule control_ok_frame; simp)+

lemma control_ok_resume: "control_ok e s \<Longrightarrow> control_ok e (resume p s)"
  by (auto simp: resume_def estop_mark_def mode_gate_def mode_enqueue_def Let_def control_ok_do
      split: option.split client.split prod.split)

lemma control_ok_outside: "control_ok e s \<Longrightarrow> control_ok e (outside_step e' x s)"
  by (cases x)
    (auto simp: control_ok_resume handle_status_def handle_imu_def handle_sport_def rt_submit_velocity_def
      rt_stop_def rt_release_estop_def rt_trigger_estop_def rt_request_authority_def rt_request_mode_def
      Let_def control_ok_do control_ok_make split: prod.split dest!: control_ok_make)

abbreviation at_trace :: "env \<Rightarrow> action list \<Rightarrow> rt \<Rightarrow> bool" where
  "at_trace e tr s \<equiv> warrant_inv e s \<and> trace s = tr"

lemma warrant_outside: "at_trace e tr s \<Longrightarrow> at_trace e tr (outside_step e' x s)"
  by (auto simp: warrant_inv_def control_ok_outside outside_frame)

interpretation at_trace: oblivious e "at_trace e tr" for e tr
proof
  show "at_trace e tr s \<Longrightarrow> at_trace e tr (outside_step e x s)" for s x
    by (rule warrant_outside)
  show "at_trace e tr s \<Longrightarrow> at_trace e tr (ctl_do f s)" for s f
    by (auto simp: warrant_inv_def control_ok_do)
qed (auto simp: set_promise_def dispatch_observer_safely_def elim!: warrant_frame [rotated -1] split: option.split)

interpretation warranted: oblivious e "warrant_inv e" for e
proof
  show "warrant_inv e s \<Longrightarrow> warrant_inv e (outside_step e x s)" for s x
    using warrant_outside by blast
  show "warrant_inv e s \<Longrightarrow> warrant_inv e (ctl_do f s)" for s f
    by (auto simp: warrant_inv_def control_ok_do)
qed (auto simp: set_promise_def dispatch_observer_safely_def elim!: warrant_frame [rotated -1] split: option.split)

lemma warrant_record:
  "warrant_inv e s \<Longrightarrow> warranted e a (trace s) \<Longrightarrow> warrant_inv e (record_action a s)"
  by (simp add: warrant_inv_def record_action_def control_ok_def)

lemma call_at:
  assumes "warranted e a tr"
  shows "triple (at_trace e tr) (call e a) (\<lambda>_. at_trace e (a # tr))"
proof -
  have "triple (at_trace e tr) (act (record_action a)) (\<lambda>_. at_trace e (a # tr))"
    by (rule triple_act) (use assms warrant_record in \<open>auto simp: record_action_def\<close>)
  then show ?thesis
    unfolding call_def
    by (intro triple_bind [OF keeps_triple [OF at_trace.interfere_keeps]] triple_bind [OF ask_triple] triple_ret
        triple_bind [where R = "\<lambda>_. at_trace e (a # tr)" and m = "act (record_action a)"])
qed

lemma warrant_from: "(\<And>tr. triple (at_trace e tr) m (\<lambda>_. warrant_inv e)) \<Longrightarrow> keeps (warrant_inv e) m"
  by (auto simp: keeps_def triple_def)

lemma not_nonzero_zero [simp]: "\<not> velocity_nonzero zero_velocity"
  by (simp add: velocity_nonzero_def zero_velocity_def)

lemma harmless_warranted: "\<not> needs_warrant a \<Longrightarrow> warranted e a tr"
  by (cases a) auto

lemma send_zero_warranted: "keeps (warrant_inv e) (send_zero_and_damping e)"
proof (rule warrant_from)
  fix tr
  let ?t = "sdk_call_timeout_ms (config e)"
  let ?m = "Move zero_velocity ?t # StopSequence # tr"
  have notify: "triple (at_trace e q) (if b then act (notify_event e sev msg) else ret ()) (\<lambda>_. at_trace e q)"
    for q b sev msg
    using at_trace.notify_ok by (intro triple_if triple_act triple_ret) simp_all
  have start: "triple (at_trace e tr) (act (record_action StopSequence)) (\<lambda>_. at_trace e (StopSequence # tr))"
    by (rule triple_act) (use warrant_record in \<open>auto simp: record_action_def\<close>)
  have sent: "triple (at_trace e q) (if b then act (last_sent_nonzero_update f) else ret ()) (\<lambda>_. at_trace e q)"
    for q b f
    by (intro triple_if triple_act triple_ret) (auto elim!: warrant_frame [rotated -1])
  show "triple (at_trace e tr) (send_zero_and_damping e) (\<lambda>_. warrant_inv e)"
    unfolding send_zero_and_damping_def
    by (intro triple_bind [OF start] triple_bind [OF call_at] triple_bind [OF notify] triple_bind [OF sent] triple_ret)
      auto
qed

lemma act_at: "(\<And>s. at_trace e tr s \<Longrightarrow> at_trace e tr (f s)) \<Longrightarrow> triple (at_trace e tr) (act f) (\<lambda>_. at_trace e tr)"
  by (rule triple_act)

lemma triple_at:
  assumes "\<And>tr. A tr \<Longrightarrow> triple (at_trace e tr) m Q"
  shows "triple (\<lambda>s. warrant_inv e s \<and> A (trace s)) m Q"
proof (rule tripleI)
  fix s assume s: "warrant_inv e s \<and> A (trace s)"
  then have "triple (at_trace e (trace s)) m Q"
    using assms by blast
  then show "case run_state m s of (x, t) \<Rightarrow> Q x t"
    using s by (simp add: triple_def)
qed

lemma zero_before_mode_at:
  assumes "tr = Popped (RequestModeCommand m p) # tr0"
  shows "triple (at_trace e tr) (zero_before_mode e p)
    (\<lambda>f s. warrant_inv e s \<and> (f = Continue \<longrightarrow>
       trace s = tr \<or> trace s = Move zero_velocity (sdk_call_timeout_ms (config e)) # tr))"
proof -
  let ?m = "Move zero_velocity (sdk_call_timeout_ms (config e)) # tr"
  have a: "triple (at_trace e ?m) (act (ctl_do (CompleteModeTransition f))) (\<lambda>_. at_trace e ?m)"
      "triple (at_trace e ?m) (act (set_promise q r)) (\<lambda>_. at_trace e ?m)"
      "triple (at_trace e ?m) (act (\<lambda>s. s\<lparr>last_sent_nonzero := g\<rparr>)) (\<lambda>_. at_trace e ?m)" for f q r g
    by (rule act_at, erule at_trace.pure_ok, simp?)+
  show ?thesis
    unfolding zero_before_mode_def
    by (intro triple_bind [OF keeps_triple [OF keeps_ask]] triple_if triple_bind [OF call_at]
        triple_option triple_ret triple_bind [OF a(1)] triple_bind [OF a(2)] triple_bind [OF a(3)]) auto
qed

lemma switch_mode_warranted:
  assumes "warranted e (SetMode m (sdk_call_timeout_ms (config e))) tr"
  shows "triple (at_trace e tr) (switch_mode e m p) (\<lambda>_. warrant_inv e)"
proof -
  let ?m = "SetMode m (sdk_call_timeout_ms (config e)) # tr"
  have a: "triple (at_trace e ?m) (act (ctl_do (CompleteModeTransition f))) (\<lambda>_. at_trace e ?m)"
      "triple (at_trace e ?m) (act (set_promise q r)) (\<lambda>_. at_trace e ?m)" for f q r
    by (rule act_at, erule at_trace.pure_ok, simp?)+
  have arm: "triple (at_trace e ?m) (act (\<lambda>s. s\<lparr>mode_transition := g s\<rparr>)) (\<lambda>_. at_trace e ?m)" for g
    by (rule act_at, rule at_trace.pure_ok, assumption)
  show ?thesis
    unfolding switch_mode_def
    by (intro triple_bind [OF call_at [OF assms]] triple_if
        triple_option triple_ret triple_bind [OF a(1)] triple_bind [OF a(2)] triple_bind [OF arm]) auto
qed

lemma execute_body_warranted:
  assumes "tr = Popped cmd # tr0"
  shows "triple (at_trace e tr) (execute_body e cmd) (\<lambda>_. warrant_inv e)"
proof (cases cmd)
  case (RequestAuthorityCommand sdk p)
  let ?m = "RequestAuthority sdk (sdk_call_timeout_ms (config e)) # tr"
  have a: "triple (at_trace e ?m) (act (set_promise q r)) (\<lambda>_. at_trace e ?m)" for q r
    by (rule act_at, rule at_trace.pure_ok, assumption)
  show ?thesis
    unfolding RequestAuthorityCommand execute_body.simps
    by (intro triple_bind [OF call_at] triple_option triple_ret triple_bind [OF a])
      (use assms RequestAuthorityCommand in auto)
next
  case (RequestModeCommand m p)
  have a: "triple (at_trace e tr) (act (fail_mode_transition r c)) (\<lambda>_. at_trace e tr)" for r c
    by (rule act_at, rule at_trace.pure_ok, assumption)
  have zero: "triple (at_trace e tr) (zero_before_mode e p)
    (\<lambda>f s. warrant_inv e s \<and> (f = Continue \<longrightarrow>
       trace s = tr \<or> trace s = Move zero_velocity (sdk_call_timeout_ms (config e)) # tr))"
    using assms RequestModeCommand by (intro zero_before_mode_at) simp
  have w: "warranted e (SetMode m (sdk_call_timeout_ms (config e))) tr"
      "warranted e (SetMode m (sdk_call_timeout_ms (config e))) (Move zero_velocity (sdk_call_timeout_ms (config e)) # tr)"
    using assms RequestModeCommand by auto
  have flow: "triple (\<lambda>s. warrant_inv e s \<and> (f = Continue \<longrightarrow>
       trace s = tr \<or> trace s = Move zero_velocity (sdk_call_timeout_ms (config e)) # tr))
      (case f of Continue \<Rightarrow> switch_mode e m p | _ \<Rightarrow> ret f) (\<lambda>_. warrant_inv e)" for f
  proof (cases f)
    case Continue
    have "triple (\<lambda>s. warrant_inv e s \<and>
        (trace s = tr \<or> trace s = Move zero_velocity (sdk_call_timeout_ms (config e)) # tr))
      (switch_mode e m p) (\<lambda>_. warrant_inv e)"
      by (rule triple_at) (use w switch_mode_warranted in blast)
    then show ?thesis
      using Continue by simp
  qed (auto intro!: triple_ret)
  show ?thesis
    unfolding RequestModeCommand execute_body.simps
    by (rule triple_bind [OF a], rule triple_bind [OF zero], rule flow)
qed

lemma run_next_warranted: "keeps (warrant_inv e) (run_next_command e)"
proof -
  have pop: "triple (warrant_inv e) pop_command (\<lambda>cmd s. warrant_inv e s \<and>
      (\<forall>c. cmd = Some c \<longrightarrow> (\<exists>tr. trace s = Popped c # tr)))"
    by (auto simp: triple_def pop_command_def queue_defs record_action_def warrant_inv_def control_ok_def
        split: prod.splits list.splits option.splits)
  have exec: "triple (\<lambda>s. warrant_inv e s \<and> (\<exists>tr. trace s = Popped c # tr)) (execute_command e c) (\<lambda>_. warrant_inv e)" for c
  proof -
    have "triple (\<lambda>s. warrant_inv e s \<and> (\<exists>tr. trace s = Popped c # tr)) (execute_body e c) (\<lambda>_. warrant_inv e)"
      by (rule triple_at) (use execute_body_warranted in blast)
    moreover have "triple (warrant_inv e) (case f of Threw x \<Rightarrow> act (abort_command x c) | _ \<Rightarrow> ret ()) (\<lambda>_. warrant_inv e)" for f
      by (cases f) (auto intro!: triple_ret triple_act warranted.blocks_ok)
    ultimately show ?thesis
      unfolding execute_command_def by (rule triple_bind)
  qed
  have "triple (\<lambda>s. warrant_inv e s \<and> (\<forall>c. cmd = Some c \<longrightarrow> (\<exists>tr. trace s = Popped c # tr)))
      (case cmd of None \<Rightarrow> ret () | Some c \<Rightarrow> execute_command e c) (\<lambda>_. warrant_inv e)" for cmd
    by (cases cmd) (auto intro: triple_ret exec)
  then show ?thesis
    unfolding run_next_command_def keeps_def by (rule triple_bind [OF pop])
qed

lemma motion_warranted: "keeps (warrant_inv e) (motion_if_due e requested)"
proof -
  have tick: "triple (warrant_inv e) read_tick (\<lambda>d s. warrant_inv e s \<and>
      (\<exists>now c h tr. trace s = Tick now c h # tr \<and> d = velocity_for_tick now c))"
    by (auto simp: triple_def read_tick_def record_action_def warrant_inv_def control_ok_def)
  have send: "triple (\<lambda>s. warrant_inv e s \<and> (\<exists>now c h tr. trace s = Tick now c h # tr \<and> d = velocity_for_tick now c))
      (call e (Move (if vd_accepted d then vd_value d else zero_velocity) t)) (\<lambda>_. warrant_inv e)" for d t
    by (rule triple_at, rule triple_weaken [OF call_at]) auto
  have rest: "keeps (warrant_inv e) (if b then act (notify_event e sev msg) else act (\<lambda>s. s\<lparr>last_sent_nonzero := x\<rparr>))"
      "keeps (warrant_inv e) (act (\<lambda>s. s\<lparr>next_motion_refresh := g s\<rparr>))" for b sev msg x g
    using warranted.pure_ok by (auto intro!: keeps_act)
  have body: "triple (\<lambda>s. warrant_inv e s \<and> (\<exists>now c h tr. trace s = Tick now c h # tr \<and> d = velocity_for_tick now c))
      (if b then do { t \<leftarrow> call e (Move (if vd_accepted d then vd_value d else zero_velocity) k);
          if g t then act (notify_event e sev (msg t)) else act (\<lambda>s. s\<lparr>last_sent_nonzero := x\<rparr>) }
       else ret ()) (\<lambda>_. warrant_inv e)" for d b k g sev msg x
    by (intro triple_if triple_bind [OF send] keeps_triple [OF rest(1)] triple_ret) simp
  show ?thesis
    unfolding motion_if_due_def Let_def keeps_def
    by (intro triple_bind [OF keeps_triple [OF keeps_ask]] triple_if triple_ret
        triple_bind [OF keeps_triple [OF warranted.interfere_keeps]] triple_bind [OF tick]
        triple_bind [OF body] keeps_triple [OF rest(2)]) assumption
qed

interpretation warrants: worker_predicate e "warrant_inv e" for e
proof
  show "keeps (warrant_inv e) (call e a)" if "\<not> needs_warrant a" for a
    by (rule warrant_from, rule triple_weaken [OF call_at]) (use that harmless_warranted in auto)
qed (use send_zero_warranted run_next_warranted motion_warranted in
    \<open>auto simp: record_action_def warrant_inv_def control_ok_def\<close>)

end
