(* ===== verification/Runtime_Example.thy ===== *)
theory Runtime_Example
  imports Runtime_Warrants
begin

text \<open>
  A concrete run of the runtime against an SDK that always succeeds: connect, poll, accept a velocity,
  send it. It shows that the hypotheses of the runtime's properties can be met.
\<close>

section \<open>An example run\<close>

definition ex_config :: RuntimeConfig where
  "ex_config = \<lparr>rc_interface = ''eno1'', rc_host_address = ''10.18.0.200/24'', rc_robot_address = ''10.18.0.100'',
     init_timeout_ms = 60000, sdk_call_timeout_ms = 5000, heartbeat_call_timeout_ms = 500,
     heartbeat_max_failures = 1, queue_capacity = 16, heartbeat_period = 100,
     motion_refresh_period = 20, deadman_ms = 100, mode_timeout_ms = 5000, state_poll_period = 500,
     imu_freq = Hz50, sport_freq = Hz50, lidar_freq = Hz1, enable_lidar_stream = True,
     reconnect_initial_delay_ms = 1000, reconnect_max_delay_ms = 30000\<rparr>"

definition ex_snapshot :: SdkSnapshot where
  "ex_snapshot = \<lparr>sn_sdk_linked = True, sn_control_authority = True, sn_system_status = 0, sn_error_code = 0,
     sn_warning_code = 0, sn_sport_status = 0xB104, sn_battery_percentage = Fin 90,
     sn_battery_temperature = Fin 30, sn_battery_voltage = Fin 48, sn_battery_cycle_count = 3,
     sn_charge_status = 0, sn_wheel_speed = []\<rparr>"

text \<open>An SDK that always succeeds, with no outside event during a worker step.\<close>

definition ex_turn :: turn where
  "ex_turn = \<lparr>tn_outside = [], tn_result = ok ''success'', tn_exception = None, tn_snapshot = ex_snapshot,
     tn_decision = \<lparr>nd_ready = True, nd_message = ''ok''\<rparr>\<rparr>"

definition ex_env :: env where
  "ex_env = \<lparr>world = (\<lambda>n. ex_turn), observer = None, config = ex_config\<rparr>"

definition ex_start :: rt where
  "ex_start = projr (DirectDriverRuntime ex_config)"

definition ex_elapse :: "int \<Rightarrow> rt_label" where
  "ex_elapse n = Outside (Elapse (n * 1000000))"

text \<open>Connect, receive link and authority, poll the state; then drive.\<close>

definition ex_labels :: "rt_label list" where
  "ex_labels = [Start, Worker, Outside (StatusReport True True), ex_elapse 500, Worker]"

definition ex_drive_labels :: "rat \<Rightarrow> rt_label list" where
  "ex_drive_labels x = [Outside (SubmitVelocity \<lparr>vx = Fin x, vy = Fin 0, vyaw = Fin 0\<rparr>), ex_elapse 20, Worker]"

definition ex_run :: "rt_label list \<Rightarrow> rt \<Rightarrow> rt" where
  "ex_run ls s = fold (rt_next ex_env) ls s"

lemma ex_interfere [simp]: "run_state (interfere ex_env) s = ((), s\<lparr>turn_no := turn_no s + 1\<rparr>)"
  by (simp add: interfere_def run_outside_def ex_env_def ex_turn_def)

lemma ex_call [simp]: "run_state (call ex_env a) s = (ex_turn, s\<lparr>turn_no := turn_no s + 2, trace := a # trace s\<rparr>)"
  by (simp add: call_def record_action_def) (simp add: ex_env_def)

lemma ex_env_simps [simp]: "config ex_env = ex_config" "notify_event ex_env sev msg s = s"
    "dispatch_observer_safely ex_env ob s = s"
  by (simp_all add: ex_env_def notify_event_def dispatch_observer_safely_def)

lemma ex_turn_simps [simp]: "success (tn_result ex_turn)" "tn_exception ex_turn = None"
    "tn_snapshot ex_turn = ex_snapshot" "nd_ready (tn_decision ex_turn)"
  by (simp_all add: ex_turn_def ok_def success_def)

lemma ex_start_eq: "DirectDriverRuntime ex_config = Inr ex_start"
  by (simp add: ex_start_def DirectDriverRuntime_def ex_config_def RobotController_def ThreadSafeQueue_def)

lemma success_ok [simp]: "success (ok m)"
  by (simp add: success_def ok_def)

text \<open>The blocks of the worker under this environment, as functions of the state.\<close>

lemma ex_connect:
  assumes "\<not> stop_requested s"
  shows "snd (run_state (connect_iteration ex_env) s) =
    s\<lparr>turn_no := turn_no s + 15, link_drop_latched := False, connected := True, backoff := 1000,
      heartbeat_failures := 0, next_heartbeat := clk s + ms 100, next_state_poll := clk s + ms 500,
      next_motion_refresh := clk s + ms 20, last_sent_nonzero := False, worker := InSession,
      trace := [SessionStart, SubscribeLidar Hz1 5000, SubscribeSport Hz50 5000, SubscribeImu Hz50 5000,
        Init 60000, Preflight \<lparr>ex_interface = ''eno1'', ex_host_address = ''10.18.0.200/24'',
          ex_robot_address = ''10.18.0.100''\<rparr>] @ trace s\<rparr>"
  using assms
  by (simp add: connect_iteration_def attempt_init_def subscribe_telemetry_def begin_session_def
      record_action_def ex_config_def eval_nat_numeral)

lemma ex_leave: "\<not> stop_requested s \<Longrightarrow> \<not> link_drop_latched s \<Longrightarrow> run_state (leave_if_ended ex_env) s = (False, s)"
  by (simp add: leave_if_ended_def)

lemma ex_estop: "\<not> estop_engaged s \<Longrightarrow>
    run_state (handle_estop_if_requested ex_env) s = ((), s\<lparr>turn_no := turn_no s + 1\<rparr>)"
  by (simp add: handle_estop_if_requested_def take_estop_def)

lemma ex_heartbeat: "run_state (heartbeat_if_due ex_env) s =
    (True, if iteration_now s \<ge> next_heartbeat s
       then s\<lparr>turn_no := turn_no s + 2, heartbeat_failures := 0, trace := Heartbeat 500 # trace s,
         next_heartbeat := iteration_now s + ms 100\<rparr> else s)"
  by (simp add: heartbeat_if_due_def ex_config_def)

lemma ex_motion: "run_state (motion_if_due ex_env r) s =
    ((), if r \<or> iteration_now s \<ge> next_motion_refresh s
       then (let d = velocity_for_tick (clk s) (ctrl s);
                 v = (if vd_accepted d then vd_value d else zero_velocity);
                 tr = Tick (clk s) (ctrl s) (ctl_history s) # trace s
             in if velocity_nonzero v \<or> last_sent_nonzero s
                then s\<lparr>turn_no := turn_no s + 3, trace := Move v 5000 # tr, last_sent_nonzero := velocity_nonzero v,
                       next_motion_refresh := iteration_now s + ms 20\<rparr>
                else s\<lparr>turn_no := turn_no s + 1, trace := tr, next_motion_refresh := iteration_now s + ms 20\<rparr>)
       else s)"
  by (simp add: motion_if_due_def read_tick_def record_action_def ex_config_def Let_def eval_nat_numeral)

definition ex_pass :: "rt \<Rightarrow> rt" where
  "ex_pass s = s\<lparr>turn_no := turn_no s + 1\<rparr>"

lemma ex_settle_orphan: "run_state (settle_orphan ex_env) s =
    ((), if mt_active (mode_transition s) \<and> \<not> mode_transition_pending (ctrl s)
       then fail_mode_transition (failure kSdkResFailed ''mode transition aborted by the safety gate'') True (ex_pass s)
       else s)"
  by (simp add: settle_orphan_def ex_pass_def)

lemma ex_check: "run_state (check_mode_transition ex_env sn) s =
    ((), if \<not> mt_active (mode_transition s) then s
       else if \<not> mode_transition_pending (ctrl s)
       then fail_mode_transition (failure kSdkResFailed ''mode transition aborted by the safety gate'') False s
       else confirm_mode_transition sn (ex_pass s))"
  by (simp add: check_mode_transition_def ex_pass_def)

lemma ex_poll: "run_state (poll_if_due ex_env) s =
    ((), if iteration_now s \<ge> next_state_poll s
       then (let t = snd (run_state (check_mode_transition ex_env ex_snapshot) (ex_pass (arm_readiness ex_snapshot (ex_pass
               (snd (run_state (settle_orphan ex_env) (ex_pass (apply_snapshot ex_snapshot
                  (s\<lparr>turn_no := turn_no s + 2, trace := Snapshot # trace s\<rparr>)))))))))
             in t\<lparr>next_state_poll := iteration_now t + ms 500\<rparr>)
       else s)"
  by (simp add: poll_if_due_def ex_config_def ex_pass_def case_prod_beta Let_def)

lemma ex_no_command: "items (command_queue s) = [] \<Longrightarrow> run_state (run_next_command ex_env) s = ((), s)"
  by (simp add: run_next_command_def pop_command_def queue_defs)

lemma ex_mode_command:
  assumes "items (command_queue s) = RequestModeCommand m p # cs" "\<not> mt_active (mode_transition s)"
    and "\<not> last_sent_nonzero s" "stable_status_for m \<noteq> 0"
  shows "run_state (run_next_command ex_env) s = ((), s\<lparr>command_queue := (command_queue s)\<lparr>items := cs\<rparr>,
    turn_no := turn_no s + 2, trace := SetMode m 5000 # Popped (RequestModeCommand m p) # trace s,
    mode_transition := \<lparr>mt_active = True, stable_status = stable_status_for m,
      mt_deadline = clk s + ms 5000, mt_promise = p\<rparr>\<rparr>)"
  using assms
  by (simp add: run_next_command_def pop_command_def queue_defs execute_command_def zero_before_mode_def
      switch_mode_def fail_mode_transition_def record_action_def ex_config_def)

definition ex_after_command :: "rt \<Rightarrow> rt" where
  "ex_after_command s =
     (let r = motion_refresh_due s;
          s = snd (run_state (heartbeat_if_due ex_env) ((ex_pass s)\<lparr>motion_refresh_due := False\<rparr>));
          s = settle_if_due (ex_pass (snd (run_state (motion_if_due ex_env r) s)))
      in snd (run_state (poll_if_due ex_env) s))"

lemma ex_alive: "fst (run_state (heartbeat_if_due ex_env) s)"
  by (simp add: ex_heartbeat)

lemma ex_body:
  assumes "\<not> estop_engaged s"
  shows "run_state (iteration_body ex_env) s =
    (True, ex_after_command (snd (run_state (run_next_command ex_env)
      (ex_pass (snd (run_state (settle_orphan ex_env) (s\<lparr>turn_no := turn_no s + 2\<rparr>)))))))"
  using assms
  by (simp add: iteration_body_def ex_estop ex_pass_def ex_after_command_def take_motion_request_def
      case_prod_beta ex_alive Let_def)

lemma ex_iteration:
  assumes "\<not> stop_requested s" "\<not> link_drop_latched s" "\<not> estop_engaged s"
    and "motion_refresh_due s \<or> items (command_queue s) \<noteq> [] \<or> clk s \<ge> next_motion_refresh s"
  shows "snd (run_state (worker_step ex_env InSession) s) =
    ex_after_command (snd (run_state (run_next_command ex_env)
      (ex_pass (snd (run_state (settle_orphan ex_env) (s\<lparr>iteration_now := clk s, turn_no := turn_no s + 4\<rparr>))))))"
proof -
  have "wake_predicate (ex_pass s) \<or> wait_deadline (ex_pass s) \<le> clk s"
    using assms(4) by (auto simp: wake_predicate_def wait_deadline_def ex_pass_def Let_def size_of_def)
  then show ?thesis
    using assms(1-3)
    by (auto simp: worker_step_def connected_iteration_def ex_leave ex_body ex_pass_def eval_nat_numeral)
qed

lemmas ex_effects = handle_status_def rt_request_mode_def resume_def mode_gate_def
  mode_enqueue_def rt_submit_velocity_def unavailable_def make_promise_def set_promise_def ctl_do_def
  ctl_ops Let_def kSportStateMove_def push_def clamp_velocity_def zero_velocity_def velocity_for_tick_def
  velocity_nonzero_def ms_def ex_snapshot_def ex_settle_orphan fail_mode_transition_def
  apply_snapshot_def arm_readiness_def ex_check confirm_mode_transition_def settle_if_due_def ex_pass_def
  stable_status_for_def kModes_def rt_start_def ex_elapse_def

definition ex_ready :: ctl where
  "ex_ready = \<lparr>command_deadman = 100,
     status = \<lparr>st_linked = True, st_authority = True, st_sport = 0xB104, st_error = 0\<rparr>,
     latest_velocity = \<lparr>vx = Fin 0, vy = Fin 0, vyaw = Fin 0\<rparr>, last_velocity_time = 500000000,
     has_velocity = False, estop_latched = False, driver_ready = True, motion_transition_gate = False,
     mode_transition_pending = False, pending_mode = 0\<rparr>"

definition ex_trace :: "action list" where
  "ex_trace = [Snapshot,
     Tick 500000000 \<lparr>command_deadman = 100,
       status = \<lparr>st_linked = True, st_authority = True, st_sport = 0, st_error = 0\<rparr>,
       latest_velocity = \<lparr>vx = Fin 0, vy = Fin 0, vyaw = Fin 0\<rparr>, last_velocity_time = 0,
       has_velocity = False, estop_latched = False, driver_ready = False, motion_transition_gate = False,
       mode_transition_pending = False, pending_mode = 0\<rparr>
       [(0, UpdateRobotState \<lparr>st_linked = True, st_authority = True, st_sport = 0, st_error = 0\<rparr>)],
     Heartbeat 500, SessionStart, SubscribeLidar Hz1 5000, SubscribeSport Hz50 5000,
     SubscribeImu Hz50 5000, Init 60000,
     Preflight \<lparr>ex_interface = ''eno1'', ex_host_address = ''10.18.0.200/24'',
       ex_robot_address = ''10.18.0.100''\<rparr>]"

definition ex_history :: "(time \<times> ctl_op) list" where
  "ex_history = [
     (0, UpdateRobotState \<lparr>st_linked = True, st_authority = True, st_sport = 0, st_error = 0\<rparr>),
     (500000000, UpdateRobotState \<lparr>st_linked = True, st_authority = True, st_sport = 0xB104, st_error = 0\<rparr>),
     (500000000, SetDriverReady True)]"

text \<open>The state after the first poll: connected, linked, with authority, ready.\<close>

definition ex_polled :: rt where
  "ex_polled = \<lparr>ctrl = ex_ready, stop_requested = False, sdk_linked = True, connected = True,
     link_drop_latched = False, control_authority = True, last_snapshot_sport_status = 0xB104,
     last_snapshot_error_code = 0, motion_refresh_due = False, estop_engaged = False,
     estop_promise = None, command_queue = \<lparr>capacity = 16, policy = RejectNew, items = [], closed = False\<rparr>,
     mode_transition = \<lparr>mt_active = False, stable_status = 0, mt_deadline = 0, mt_promise = 0\<rparr>,
     last_sent_nonzero = False, driver_ready_armed = True, latest_imu = None, latest_sport = None,
     observer_errors = 0, observed = [], next_promise = 0, answers = Map.empty, clients = [],
     worker = InSession, backoff = 1000, heartbeat_failures = 0, next_heartbeat = 600000000,
     next_state_poll = 1000000000, next_motion_refresh = 520000000, iteration_now = 500000000,
     clk = 500000000, turn_no = 30, trace = ex_trace, ctl_history = ex_history\<rparr>"

lemma ex_labels_run: "ex_run ex_labels ex_start = ex_polled"
  by (simp add: ex_run_def ex_labels_def ex_start_def DirectDriverRuntime_def RobotController_def
      ThreadSafeQueue_def ex_config_def ex_connect worker_step_def [of _ Connecting] ex_iteration ex_no_command
      ex_effects ex_after_command_def ex_heartbeat ex_motion ex_poll ex_polled_def ex_trace_def
      ex_history_def ex_ready_def)

lemma ex_reach: "reach (rt_start_state ex_env) (rt_step ex_env) (ex_run ls ex_start)"
proof -
  have "run (rt_step e) s ls (fold (rt_next e) ls s)" for e s
    by (induction ls arbitrary: s) (auto simp: rt_step_def intro: run.intros)
  moreover have "reach (rt_start_state ex_env) (rt_step ex_env) ex_start"
    by (rule reach_start) (simp add: rt_start_state_def ex_start_eq)
  ultimately show ?thesis
    unfolding ex_run_def by (rule reach_run)
qed

lemma ex_run_append: "ex_run (ls @ ks) s = ex_run ks (ex_run ls s)"
  by (simp add: ex_run_def)

lemma ex_reach_polled: "reach (rt_start_state ex_env) (rt_step ex_env) (ex_run ls ex_polled)"
  using ex_reach [of "ex_labels @ ls"] by (simp add: ex_run_append ex_labels_run)

definition ex_moving :: ctl where
  "ex_moving = ex_ready\<lparr>latest_velocity := \<lparr>vx = Fin 1, vy = Fin 0, vyaw = Fin 0\<rparr>, has_velocity := True\<rparr>"

text \<open>An iteration with nothing to do but the motion tick.\<close>

lemma ex_motion_only:
  assumes "\<not> stop_requested s" "\<not> link_drop_latched s" "\<not> estop_engaged s"
    and "\<not> mt_active (mode_transition s)" "items (command_queue s) = []"
    and "clk s < next_heartbeat s" "clk s < next_state_poll s" "next_motion_refresh s \<le> clk s"
    and "velocity_for_tick (clk s) (ctrl s) = d" "vd_accepted d" "velocity_nonzero (vd_value d)"
  shows "trace (snd (run_state (worker_step ex_env InSession) s)) =
    Move (vd_value d) 5000 # Tick (clk s) (ctrl s) (ctl_history s) # trace s"
  using assms
  by (simp add: ex_iteration ex_no_command ex_settle_orphan settle_if_due_def ex_pass_def
      ex_after_command_def ex_heartbeat ex_motion ex_poll Let_def)

lemma ex_submitted:
  "1 \<le> x \<Longrightarrow> ex_run [Outside (SubmitVelocity \<lparr>vx = Fin x, vy = Fin 0, vyaw = Fin 0\<rparr>), ex_elapse 20] ex_polled =
     ex_polled\<lparr>ctrl := ex_moving, clk := 520000000,
       ctl_history := ex_history @ [(500000000, AcceptVelocity \<lparr>vx = Fin x, vy = Fin 0, vyaw = Fin 0\<rparr>)]\<rparr>"
  by (simp add: ex_run_def ex_elapse_def ex_polled_def rt_submit_velocity_def ctl_do_def ctl_ops Let_def
      ex_ready_def ex_moving_def clamp_velocity_def std_clamp_def kSportStateMove_def)

lemma ex_moving_tick: "velocity_for_tick 520000000 ex_moving =
    \<lparr>vd_accepted = True, vd_value = \<lparr>vx = Fin 1, vy = Fin 0, vyaw = Fin 0\<rparr>, vd_error = Protocol, vd_reason = []\<rparr>"
  by (simp add: velocity_for_tick_def ex_moving_def ex_ready_def movement_ready_locked_def kSportStateMove_def ms_def)

lemma ex_drive_trace:
  assumes "1 \<le> x"
  shows "trace (ex_run (ex_drive_labels x) ex_polled) =
     Move \<lparr>vx = Fin 1, vy = Fin 0, vyaw = Fin 0\<rparr> 5000 #
     Tick 520000000 ex_moving (ex_history @ [(500000000, AcceptVelocity \<lparr>vx = Fin x, vy = Fin 0, vyaw = Fin 0\<rparr>)]) #
     ex_trace"
proof -
  let ?s = "ex_polled\<lparr>ctrl := ex_moving, clk := 520000000,
       ctl_history := ex_history @ [(500000000, AcceptVelocity \<lparr>vx = Fin x, vy = Fin 0, vyaw = Fin 0\<rparr>)]\<rparr>"
  have "ex_run (ex_drive_labels x) ex_polled = rt_next ex_env Worker
      (ex_run [Outside (SubmitVelocity \<lparr>vx = Fin x, vy = Fin 0, vyaw = Fin 0\<rparr>), ex_elapse 20] ex_polled)"
    by (simp add: ex_drive_labels_def ex_run_def)
  also have "\<dots> = snd (run_state (worker_step ex_env InSession) ?s)"
    unfolding ex_submitted [OF assms] by (simp add: ex_polled_def)
  finally show ?thesis
    using ex_motion_only [of ?s, OF _ _ _ _ _ _ _ _ refl] ex_moving_tick
    by (simp add: ex_polled_def velocity_nonzero_def)
qed

end
