(* ===== verification/Runtime_Properties.thy ===== *)
theory Runtime_Properties
  imports Runtime_Example
begin

text \<open>
  The properties of the driver runtime: no future is lost and no answer changes, the robot moves
  only on an accepted command and changes mode or authority only on request, the emergency stop and
  the shutdown are answered, a link drop ends the session without touching the robot, and the
  reconnect delay is bounded.
\<close>

section \<open>Futures\<close>

text \<open>
  C4. No future is lost: in every reachable state, under every interleaving, an allocated promise
  that has no answer yet is held by the command queue, by the armed mode transition, by the emergency-stop
  mark or by a caller that is still inside its call; outside a session only such a caller
  holds one, so every future a caller waits for is answered by the end of the session.\<close>

theorem no_future_lost:
  assumes "reach (rt_start_state e) (rt_step e) s" "p < next_promise s" "answers s p = None"
  shows "p \<in> held s \<and> (worker s \<noteq> InSession \<longrightarrow> p \<in> client_promise ` set (clients s))"
proof -
  have "session_inv e s"
    by (rule runtime.inv_reach [OF assms(1)])
  then have i: "rt_inv e (worker s = InSession) {} s"
    by (simp add: session_inv_def)
  then have "p \<in> held s"
    using assms(2,3) by (auto simp: rt_inv_def promises_ok_def)
  then show ?thesis
    using i by (auto simp: rt_inv_def quiet_def held_def)
qed

lemma ex_authority_pending:
  "next_promise (ex_run [Outside (AuthorityRequest True)] ex_polled) = 1"
  "answers (ex_run [Outside (AuthorityRequest True)] ex_polled) = Map.empty"
  by (simp_all add: ex_run_def ex_polled_def rt_request_authority_def make_promise_def unavailable_def push_def)

theorem no_future_lost_witness:
  "0 \<in> held (ex_run [Outside (AuthorityRequest True)] ex_polled)"
  using no_future_lost [OF ex_reach_polled, of 0 "[Outside (AuthorityRequest True)]"]
  by (simp add: ex_authority_pending)

text \<open>An answer that was given is never changed.\<close>

lemma answered_prims:
  assumes "answers s p = Some r"
  shows "answers (set_promise q r' s) p = Some r"
  using assms by (auto simp: set_promise_def)

lemma answers_make: "make_promise s = (p, t) \<Longrightarrow> answers t = answers s"
  by (auto simp: make_promise_def)

lemma answers_dispatch [simp]: "answers (dispatch_observer_safely e ob s) = answers s"
  by (simp add: dispatch_observer_safely_def split: option.split)

lemma answers_notify [simp]: "answers (notify_event e sev msg s) = answers s"
  by (simp add: notify_event_def)

lemma answered_resume: "answers s p = Some r \<Longrightarrow> answers (resume q s) p = Some r"
  by (auto simp: resume_def estop_mark_def mode_gate_def mode_enqueue_def Let_def answered_prims
      split: option.split client.split prod.split)

lemma answered_outside: "answers s p = Some r \<Longrightarrow> answers (outside_step e x s) p = Some r"
  by (cases x)
    (auto simp: answered_resume handle_status_def handle_imu_def handle_sport_def rt_submit_velocity_def
      rt_stop_def rt_release_estop_def rt_trigger_estop_def rt_request_authority_def rt_request_mode_def
      Let_def answers_make intro!: answered_prims split: prod.split dest!: answers_make)

interpretation answered_trace: trace_oblivious e "\<lambda>s. answers s p = Some r" for e p r
  by unfold_locales (simp_all add: answered_outside answered_prims record_action_def)

interpretation answered: worker_predicate e "\<lambda>s. answers s p = Some r" for e p r
  by unfold_locales (simp_all add: record_action_def)

text \<open>
  The first answer is final: whatever every thread does afterwards, a future that was answered
  keeps its result.\<close>

theorem answer_is_final:
  assumes "answers s p = Some r" "run (rt_step e) s ls t"
  shows "answers t p = Some r"
  using assms(2,1) by (induction rule: run.induct) (simp_all add: rt_step_def answered.step_ok answered_outside)

lemma ex_authority_done: "answers (ex_run [Outside EstopRelease] ex_polled) 0 = Some (ok ''software emergency stop cleared'')"
  by (simp add: ex_run_def ex_polled_def rt_release_estop_def make_promise_def set_promise_def ctl_do_def Let_def)

lemma ex_run_steps: "run (rt_step ex_env) s ls (ex_run ls s)"
  unfolding ex_run_def by (induction ls arbitrary: s) (auto simp: rt_step_def intro: run.intros)

theorem answer_is_final_witness:
  "answers (ex_run [Outside StopRequest, Worker] (ex_run [Outside EstopRelease] ex_polled)) 0 =
     Some (ok ''software emergency stop cleared'')"
  by (rule answer_is_final [OF ex_authority_done ex_run_steps])

section \<open>What reaches the robot\<close>

lemma all_warranted_at: "all_warranted e (post @ a # tr) \<Longrightarrow> warranted e a tr"
  by (induction post) auto

lemma warrant_inv_start: "rt_start_state e s \<Longrightarrow> warrant_inv e s"
  by (auto simp: rt_start_state_def DirectDriverRuntime_def warrant_inv_def control_ok_def
      split: sum.splits)

interpretation warranted_runs: invariant_system "rt_start_state e" "rt_step e" "warrant_inv e" for e
  by unfold_locales (auto simp: warrant_inv_start warrant_outside rt_step_def intro!: warrants.step_ok)

lemma reachable_warrant:
  assumes "reach (rt_start_state e) (rt_step e) s" "trace s = post @ a # tr"
  shows "warranted e a tr" "all_warranted e tr"
proof -
  have "all_warranted e (post @ a # tr)"
    using warranted_runs.inv_reach [OF assms(1)] assms(2) by (simp add: warrant_inv_def)
  then show "warranted e a tr" "all_warranted e tr"
    by (induction post) auto
qed

text \<open>
  C2. The robot is driven only by a fresh, accepted command: in every run, under every
  interleaving, whatever the SDK answers, a \<^verbatim>\<open>move\<close> call with a nonzero velocity is directly
  preceded by a motion tick that accepted it. At that tick every gate of the controller was open and
  the velocity is the clamped value, finite and within [-1, 1], of a command that \<^verbatim>\<open>submit_velocity\<close> had
  accepted no longer than the deadman time before, with no stop, mode completion, disconnect or
  loss of link or authority in between.\<close>

theorem robot_driven_only_on_command:
  assumes "reach (rt_start_state e) (rt_step e) s" "trace s = post @ Move v t # tr" "velocity_nonzero v"
  shows "\<exists>now c h before u0 w since rest. tr = Tick now c h # rest \<and>
    vd_accepted (velocity_for_tick now c) \<and> driver_ready c \<and> \<not> motion_transition_gate c \<and>
    \<not> mode_transition_pending c \<and> motion_status (status c) \<and> \<not> estop_latched c \<and> velocity_in_unit v \<and>
    h = before @ (u0, AcceptVelocity w) # since \<and> v = clamp_velocity w \<and>
    now - u0 \<le> ms (deadman_ms (config e)) \<and> (\<forall>(u, f) \<in> set since. keeps_velocity f)"
proof -
  obtain now c h rest where tr: "tr = Tick now c h # rest" and acc: "vd_accepted (velocity_for_tick now c)"
    and v: "v = vd_value (velocity_for_tick now c)"
    using reachable_warrant(1) [OF assms(1,2)] assms(3) by auto
  have "all_warranted e (Tick now c h # rest)"
    using reachable_warrant(2) [OF assms(1,2)] tr by simp
  then obtain c0 where c0: "RobotController (deadman_ms (config e)) = Inr c0" and c: "c = ctl_run h c0"
    by auto
  obtain before u0 w since where o: "h = before @ (u0, AcceptVelocity w) # since"
    "vd_value (velocity_for_tick now c) = clamp_velocity w" "now - u0 \<le> ms (deadman_ms (config e))"
    "\<forall>(u, f) \<in> set since. keeps_velocity f"
    by (rule accepted_tick_origin [OF c0, of now h]) (use acc c in auto)
  show ?thesis
    using accepted_tick_gates [OF c0, of now h] c tr acc v o
    by (intro exI [of _ now] exI [of _ c] exI [of _ h] exI [of _ before] exI [of _ u0] exI [of _ w]
        exI [of _ since] exI [of _ rest]) simp
qed

theorem robot_driven_only_on_command_witness:
  "\<exists>now c h before u0 w since rest. trace (ex_run (ex_drive_labels 2) ex_polled) =
      Move \<lparr>vx = Fin 1, vy = Fin 0, vyaw = Fin 0\<rparr> 5000 # Tick now c h # rest \<and>
    h = before @ (u0, AcceptVelocity w) # since \<and> \<lparr>vx = Fin 1, vy = Fin 0, vyaw = Fin 0\<rparr> = clamp_velocity w"
proof -
  have "trace (ex_run (ex_drive_labels 2) ex_polled) =
      [] @ Move \<lparr>vx = Fin 1, vy = Fin 0, vyaw = Fin 0\<rparr> 5000 # tl (trace (ex_run (ex_drive_labels 2) ex_polled))"
    by (simp add: ex_drive_trace)
  from robot_driven_only_on_command [OF ex_reach_polled this] show ?thesis
    by (simp add: ex_drive_trace velocity_nonzero_def) blast
qed

text \<open>
  C5. Nothing is actuated that was not asked for: in every run, an authority call is directly
  preceded by the authority command taken from the queue, and a mode call by the mode command taken from
  the queue, with at most the zero velocity between them, or it is the damping of the stop
  sequence, after its zero velocity. So startup and reconnection never change authority or mode.\<close>

theorem modes_and_authority_only_on_request:
  assumes "reach (rt_start_state e) (rt_step e) s" "trace s = post @ a # tr"
    and "a = RequestAuthority sdk t \<or> a = SetMode m t"
  shows "(a = RequestAuthority sdk t \<longrightarrow> (\<exists>p rest. tr = Popped (RequestAuthorityCommand sdk p) # rest)) \<and>
    (a = SetMode m t \<longrightarrow> (\<exists>p rest. tr = Popped (RequestModeCommand m p) # rest) \<or>
       (\<exists>p u rest. tr = Move zero_velocity u # Popped (RequestModeCommand m p) # rest) \<or>
       (m = 0xA101 \<and> (\<exists>u rest. tr = Move zero_velocity u # StopSequence # rest)))"
  using reachable_warrant(1) [OF assms(1,2)] assms(3) by auto

lemma ex_authority_command:
  assumes "items (command_queue s) = RequestAuthorityCommand b p # cs" "answers s p = None"
  shows "run_state (run_next_command ex_env) s = ((), s\<lparr>command_queue := (command_queue s)\<lparr>items := cs\<rparr>,
    turn_no := turn_no s + 2, trace := RequestAuthority b 5000 # Popped (RequestAuthorityCommand b p) # trace s,
    answers := (answers s)(p \<mapsto> tn_result ex_turn)\<rparr>)"
  using assms
  by (simp add: run_next_command_def pop_command_def queue_defs execute_command_def record_action_def
      ex_config_def set_promise_def)

lemma ex_command_only:
  assumes "\<not> stop_requested s" "\<not> link_drop_latched s" "\<not> estop_engaged s" "\<not> motion_refresh_due s"
    and "\<not> mt_active (mode_transition s)" "items (command_queue s) = [RequestAuthorityCommand b p]" "answers s p = None"
    and "clk s < next_heartbeat s" "clk s < next_state_poll s" "clk s < next_motion_refresh s"
  shows "trace (snd (run_state (worker_step ex_env InSession) s)) =
    RequestAuthority b 5000 # Popped (RequestAuthorityCommand b p) # trace s"
  using assms
  by (simp add: ex_iteration ex_authority_command ex_settle_orphan settle_if_due_def ex_pass_def
      ex_after_command_def ex_heartbeat ex_motion ex_poll Let_def)

lemma ex_authority_trace:
  "trace (ex_run [Outside (AuthorityRequest True), Worker] ex_polled) =
     RequestAuthority True 5000 # Popped (RequestAuthorityCommand True 0) # ex_trace"
proof -
  let ?s = "ex_run [Outside (AuthorityRequest True)] ex_polled"
  have s: "?s = ex_polled\<lparr>next_promise := 1, command_queue := (command_queue ex_polled)\<lparr>items := [RequestAuthorityCommand True 0]\<rparr>\<rparr>"
    by (simp add: ex_run_def ex_polled_def rt_request_authority_def make_promise_def unavailable_def push_def)
  have "ex_run [Outside (AuthorityRequest True), Worker] ex_polled = rt_next ex_env Worker ?s"
    by (simp add: ex_run_def)
  also have "\<dots> = snd (run_state (worker_step ex_env InSession) ?s)"
    unfolding s by (simp add: ex_polled_def)
  finally show ?thesis
    using ex_command_only [of ?s True 0] unfolding s by (simp add: ex_polled_def)
qed

theorem modes_and_authority_only_on_request_witness:
  "\<exists>p rest. trace (ex_run [Outside (AuthorityRequest True), Worker] ex_polled) =
     RequestAuthority True 5000 # Popped (RequestAuthorityCommand True p) # rest"
proof -
  have "trace (ex_run [Outside (AuthorityRequest True), Worker] ex_polled) =
      [] @ RequestAuthority True 5000 # tl (trace (ex_run [Outside (AuthorityRequest True), Worker] ex_polled))"
    by (simp add: ex_authority_trace)
  from modes_and_authority_only_on_request [OF ex_reach_polled this, of True 5000] show ?thesis
    by (simp add: ex_authority_trace)
qed

section \<open>The end of a session\<close>

text \<open>A latched link drop stays latched, whatever other threads do.\<close>

lemma latched_resume: "link_drop_latched s \<Longrightarrow> link_drop_latched (resume p s)"
  by (auto simp: resume_def estop_mark_def mode_gate_def mode_enqueue_def Let_def
      split: option.split client.split prod.split)

lemma latched_frame [simp]: "link_drop_latched (dispatch_observer_safely e ob s) = link_drop_latched s"
    "link_drop_latched (notify_event e sev msg s) = link_drop_latched s"
  by (simp_all add: notify_event_def dispatch_observer_safely_def split: option.split)

lemma latched_make: "make_promise s = (p, t) \<Longrightarrow> link_drop_latched t = link_drop_latched s"
  by (auto simp: make_promise_def)

lemma latched_outside: "link_drop_latched s \<Longrightarrow> link_drop_latched (outside_step e x s)"
  by (cases x)
    (auto simp: latched_resume handle_status_def handle_imu_def handle_sport_def rt_submit_velocity_def
      rt_stop_def rt_release_estop_def rt_trigger_estop_def rt_request_authority_def rt_request_mode_def
      Let_def latched_make split: prod.split dest!: latched_make)

interpretation dropped: stable_predicate e "\<lambda>s. link_drop_latched s \<and> trace s = tr" for e tr
  by unfold_locales (simp_all add: latched_outside outside_frame)

interpretation calm: oblivious e "\<lambda>s. trace s = tr \<and> connected s = b" for e tr b
  by unfold_locales (simp_all add: outside_frame set_promise_def ctl_do_def dispatch_observer_safely_def
      split: option.split)

lemma call_calm: "triple (\<lambda>s. trace s = tr \<and> connected s = b) (call e a) (\<lambda>_ s. trace s = a # tr \<and> connected s = b)"
  by (auto simp: triple_def split: prod.split) (metis call_frame(1,7) snd_conv)+

lemma invalidate_calm: "keeps (\<lambda>s. trace s = tr \<and> connected s = b) (invalidate_session e)"
  unfolding invalidate_session_def
  by (intro keeping calm.interfere_keeps keeps_act) (simp_all add: clear_session_caches_def)

lemma dropped_leaves:
  "triple (\<lambda>s. link_drop_latched s \<and> trace s = tr) (leave_if_ended e)
     (\<lambda>left s. left \<and> link_drop_latched s \<and> trace s = tr)"
proof -
  have "triple (\<lambda>s. link_drop_latched s \<and> trace s = tr) (actuate_stop_if_authorized e)
      (\<lambda>_ s. link_drop_latched s \<and> trace s = tr)"
    unfolding actuate_stop_if_authorized_def
    by (rule triple_bind [OF keeps_triple [OF dropped.interfere_keeps]],
        rule triple_bind [where R = "\<lambda>may s. \<not> may \<and> link_drop_latched s \<and> trace s = tr"], rule triple_ask)
      (auto simp: may_actuate_def intro!: triple_pre triple_ret)
  then show ?thesis
    unfolding leave_if_ended_def
    by (intro triple_bind [where R = "\<lambda>f s. snd f \<and> link_drop_latched s \<and> trace s = tr" and
          m = "ask (\<lambda>s. (stop_requested s, link_drop_latched s))"] triple_ask triple_pre)
      (auto intro!: triple_bind [where R = "\<lambda>_ s. link_drop_latched s \<and> trace s = tr"] triple_ret)
qed

lemma dropped_iteration:
  "triple (\<lambda>s. link_drop_latched s \<and> trace s = tr) (connected_iteration e)
     (\<lambda>alive s. \<not> alive \<and> trace s = tr)"
  unfolding connected_iteration_def
  by (rule triple_bind [OF keeps_triple [OF dropped.interfere_keeps]],
      rule triple_bind [where R = "\<lambda>awake s. awake \<and> link_drop_latched s \<and> trace s = tr"], rule triple_ask,
      simp add: wake_predicate_def, rule triple_pre)
    (auto intro!: triple_bind [OF dropped_leaves] triple_pre triple_ret)

lemma worker_not_in_session:
  "triple (\<lambda>s. trace s = tr) (end_session e)
     (\<lambda>_ s. trace s = Deinit # SessionEnd # tr \<and> \<not> connected s \<and> worker s \<noteq> InSession)"
proof -
  let ?P = "\<lambda>s. trace s = SessionEnd # tr \<and> connected s = False"
  let ?Q = "\<lambda>s. trace s = Deinit # SessionEnd # tr \<and> connected s = False"
  have leave: "triple (\<lambda>s. trace s = tr) (act (\<lambda>s. record_action SessionEnd (fail_all_pending_locked (s\<lparr>connected := False\<rparr>))))
      (\<lambda>_. ?P)"
    by (rule triple_act) (use calm.blocks_ok(8) [of _ tr False] in \<open>auto simp: record_action_def\<close>)
  have interf: "triple (\<lambda>s. trace s = tr) (interfere e) (\<lambda>_ s. trace s = tr)"
    by (auto simp: triple_def split: prod.split) (metis interfere_frame(7) snd_conv)
  have notify: "triple ?Q (act (notify_event e sev msg)) (\<lambda>_. ?Q)" for sev msg
    using calm.notify_ok by (intro triple_act) blast
  show ?thesis
    unfolding end_session_def exit_worker_def
    by (rule triple_bind [OF interf], rule triple_bind [OF leave],
        rule triple_bind [OF keeps_triple [OF invalidate_calm]], rule triple_bind [OF call_calm],
        rule triple_bind [OF ask_triple], intro triple_if triple_bind [OF notify] triple_act)
      (simp_all add: start_backoff_def)
qed

text \<open>
  C6. A link drop ends the session without touching the robot: once a status report with no link
  was latched, the next pass of the worker leaves the session, whatever happens meanwhile, even
  if the link comes back or a stop is requested. It answers all pending work, deinitializes the SDK
  and makes no other SDK call.\<close>

theorem link_drop_ends_session:
  assumes "worker s = InSession" "link_drop_latched s"
  shows "trace (rt_next e Worker s) = Deinit # SessionEnd # trace s \<and> \<not> connected (rt_next e Worker s) \<and>
    worker (rt_next e Worker s) \<noteq> InSession"
proof -
  have "triple (\<lambda>s'. link_drop_latched s' \<and> trace s' = trace s) (worker_step e InSession)
      (\<lambda>_ t. trace t = Deinit # SessionEnd # trace s \<and> \<not> connected t \<and> worker t \<noteq> InSession)"
    unfolding worker_step_def worker_pc.case
    by (rule triple_bind [OF dropped_iteration], rule triple_pre) (simp add: worker_not_in_session)
  from triple_snd [OF this] show ?thesis
    using assms by simp
qed

theorem link_drop_ends_session_witness:
  "trace (rt_next ex_env Worker (ex_run [Outside (StatusReport False False), Outside (StatusReport True True)] ex_polled)) =
     Deinit # SessionEnd # ex_trace"
  using link_drop_ends_session [of "ex_run [Outside (StatusReport False False), Outside (StatusReport True True)] ex_polled" ex_env]
  by (simp add: ex_run_def ex_polled_def handle_status_def ctl_do_def Let_def)

section \<open>The emergency stop\<close>

text \<open>A promise that was not answered with success.\<close>

definition unconfirmed :: "promise \<Rightarrow> rt \<Rightarrow> bool" where
  "unconfirmed p s \<longleftrightarrow> (\<forall>r. answers s p = Some r \<longrightarrow> \<not> success r) \<and> p < next_promise s"

lemma unconfirmed_cong: "answers t = answers s \<Longrightarrow> next_promise t = next_promise s \<Longrightarrow> unconfirmed p t = unconfirmed p s"
  by (simp add: unconfirmed_def)

lemma unconfirmed_set: "unconfirmed p s \<Longrightarrow> \<not> success r \<or> q \<noteq> p \<Longrightarrow> unconfirmed p (set_promise q r s)"
  by (auto simp: unconfirmed_def set_promise_def)

lemma unconfirmed_make: "unconfirmed p s \<Longrightarrow> make_promise s = (q, t) \<Longrightarrow> unconfirmed p t \<and> q \<noteq> p"
  by (auto simp: unconfirmed_def make_promise_def)

lemma unconfirmed_frame [simp]:
  "unconfirmed p (ctl_do f s) = unconfirmed p s" "unconfirmed p (record_action a s) = unconfirmed p s"
  "unconfirmed p (dispatch_observer_safely e ob s) = unconfirmed p s"
  "unconfirmed p (notify_event e sev msg s) = unconfirmed p s"
  by (auto intro!: unconfirmed_cong simp: ctl_do_def record_action_def dispatch_observer_safely_def
      notify_event_def split: option.split)

lemma unconfirmed_upd [simp]:
  "unconfirmed p (s\<lparr>clients := c\<rparr>) = unconfirmed p s" "unconfirmed p (s\<lparr>command_queue := q\<rparr>) = unconfirmed p s"
  "unconfirmed p (s\<lparr>estop_engaged := x\<rparr>) = unconfirmed p s" "unconfirmed p (s\<lparr>estop_promise := y\<rparr>) = unconfirmed p s"
  "unconfirmed p (s\<lparr>sdk_linked := x\<rparr>) = unconfirmed p s" "unconfirmed p (s\<lparr>control_authority := x\<rparr>) = unconfirmed p s"
  "unconfirmed p (s\<lparr>link_drop_latched := x\<rparr>) = unconfirmed p s" "unconfirmed p (s\<lparr>motion_refresh_due := x\<rparr>) = unconfirmed p s"
  "unconfirmed p (s\<lparr>latest_imu := i\<rparr>) = unconfirmed p s" "unconfirmed p (s\<lparr>latest_sport := j\<rparr>) = unconfirmed p s"
  "unconfirmed p (s\<lparr>clk := k\<rparr>) = unconfirmed p s" "unconfirmed p (s\<lparr>stop_requested := x\<rparr>) = unconfirmed p s"
  "unconfirmed p (s\<lparr>turn_no := n\<rparr>) = unconfirmed p s" "unconfirmed p (s\<lparr>mode_transition := m\<rparr>) = unconfirmed p s"
  "unconfirmed p (s\<lparr>last_sent_nonzero := x\<rparr>) = unconfirmed p s" "unconfirmed p (s\<lparr>iteration_now := k\<rparr>) = unconfirmed p s"
  "unconfirmed p (s\<lparr>connected := x\<rparr>) = unconfirmed p s"
  by (rule unconfirmed_cong; simp)+

lemma unconfirmed_make_do: "make_promise (ctl_do f s) = (q, t) \<Longrightarrow> unconfirmed p s \<Longrightarrow> unconfirmed p t \<and> q \<noteq> p"
  using unconfirmed_make [of p "ctl_do f s"] by simp

lemma failure_codes [simp]:
  "\<not> success (failure kSdkResFailed m)" "\<not> success (failure kSdkResTimeout m)" "\<not> success (failure kSdkResRunning m)"
  "\<not> success (failure kSdkResInvalidParam m)" "\<not> success (failure kSdkResNotInit m)" "\<not> success (failure kSdkResWithoutAuth m)"
  by (simp_all add: success_def failure_def kSdkResFailed_def kSdkResTimeout_def kSdkResRunning_def
      kSdkResInvalidParam_def kSdkResNotInit_def kSdkResWithoutAuth_def kSdkResSuccess_def)

lemma rejection_fails [simp]: "\<not> success (map_mode_rejection d)"
  by (simp add: map_mode_rejection_def split: BridgeError.split)

lemma unconfirmed_resume: "unconfirmed p s \<Longrightarrow> unconfirmed p (resume q s)"
  by (auto simp: resume_def estop_mark_def mode_gate_def mode_enqueue_def Let_def unconfirmed_set
      split: option.split client.split prod.split)

lemma unconfirmed_outside: "unconfirmed p s \<Longrightarrow> unconfirmed p (outside_step e x s)"
  by (cases x)
    (auto simp: unconfirmed_resume handle_status_def handle_imu_def handle_sport_def rt_submit_velocity_def
      rt_stop_def rt_release_estop_def rt_trigger_estop_def rt_request_authority_def rt_request_mode_def Let_def
      split: prod.split dest: unconfirmed_make unconfirmed_make_do intro!: unconfirmed_set)

text \<open>The emergency-stop mark of a promise goes away only with an answer.\<close>

definition marked :: "promise \<Rightarrow> rt \<Rightarrow> bool" where
  "marked p s \<longleftrightarrow> estop_promise s = Some p \<or> answers s p \<noteq> None"

lemma marked_estop_mark: "marked p s \<Longrightarrow> marked p (estop_mark q s)"
  by (auto simp: marked_def estop_mark_def Let_def set_promise_def split: option.split)

lemma marked_frame:
  "marked p (set_promise q r s) \<longleftrightarrow> marked p s \<or> q = p" "marked p (ctl_do f s) = marked p s"
  "marked p (record_action a s) = marked p s"
  "marked p (dispatch_observer_safely e ob s) = marked p s" "marked p (notify_event e sev msg s) = marked p s"
  by (auto simp: marked_def set_promise_def ctl_do_def record_action_def dispatch_observer_safely_def
      notify_event_def split: option.split)

lemma marked_cong: "answers t = answers s \<Longrightarrow> estop_promise t = estop_promise s \<Longrightarrow> marked p t = marked p s"
  by (simp add: marked_def)

lemma marked_make: "make_promise s = (q, t) \<Longrightarrow> marked p t = marked p s"
  by (rule marked_cong) (auto simp: make_promise_def)

lemma marked_upd [simp]:
  "marked p (s\<lparr>clients := c\<rparr>) = marked p s" "marked p (s\<lparr>command_queue := q\<rparr>) = marked p s"
  "marked p (s\<lparr>sdk_linked := x\<rparr>) = marked p s" "marked p (s\<lparr>control_authority := x\<rparr>) = marked p s"
  "marked p (s\<lparr>link_drop_latched := x\<rparr>) = marked p s" "marked p (s\<lparr>motion_refresh_due := x\<rparr>) = marked p s"
  "marked p (s\<lparr>latest_imu := i\<rparr>) = marked p s" "marked p (s\<lparr>latest_sport := j\<rparr>) = marked p s"
  "marked p (s\<lparr>clk := k\<rparr>) = marked p s" "marked p (s\<lparr>stop_requested := x\<rparr>) = marked p s"
  "marked p (s\<lparr>turn_no := n\<rparr>) = marked p s" "marked p (s\<lparr>last_sent_nonzero := x\<rparr>) = marked p s"
  "marked p (s\<lparr>iteration_now := k\<rparr>) = marked p s" "marked p (s\<lparr>connected := x\<rparr>) = marked p s"
  by (rule marked_cong; simp)+

lemma marked_resume: "marked p s \<Longrightarrow> marked p (resume q s)"
  by (auto simp: resume_def marked_estop_mark mode_gate_def mode_enqueue_def Let_def marked_frame
      split: option.split client.split prod.split)

lemma marked_outside: "marked p s \<Longrightarrow> marked p (outside_step e x s)"
  by (cases x)
    (auto simp: marked_resume handle_status_def handle_imu_def handle_sport_def rt_submit_velocity_def
      rt_stop_def rt_release_estop_def rt_trigger_estop_def rt_request_authority_def rt_request_mode_def Let_def
      marked_frame marked_make split: prod.split dest!: marked_make)

text \<open>
  The stages of a pass with a pending emergency stop: before it is taken, on the way out of the
  session, and after it was answered.
\<close>

definition stop_sequence :: "env \<Rightarrow> action list" where
  "stop_sequence e = [SetMode 0xA101 (sdk_call_timeout_ms (config e)),
     Move zero_velocity (sdk_call_timeout_ms (config e)), StopSequence]"

definition leaving :: "env \<Rightarrow> promise \<Rightarrow> rt \<Rightarrow> bool" where
  "leaving e p s \<longleftrightarrow> rt_inv e True {} s \<and> unconfirmed p s \<and> marked p s"

definition settled :: "env \<Rightarrow> promise \<Rightarrow> action list \<Rightarrow> rt \<Rightarrow> bool" where
  "settled e p tr s \<longleftrightarrow> (\<exists>r. answers s p = Some r \<and>
     (success r \<longrightarrow> (\<exists>post. trace s = post @ stop_sequence e @ tr)))"

lemma settled_unconfirmed: "unconfirmed p s \<Longrightarrow> answers s p \<noteq> None \<Longrightarrow> settled e p tr s"
  by (auto simp: unconfirmed_def settled_def)

lemma settled_prims: "settled e p tr s \<Longrightarrow> settled e p tr (set_promise q r s)"
    "settled e p tr s \<Longrightarrow> settled e p tr (record_action a s)"
  by (auto simp: settled_def set_promise_def record_action_def)

interpretation settled_trace: trace_oblivious e "settled e p tr" for e p tr
proof
  show "settled e p tr s \<Longrightarrow> settled e p tr (outside_step e x s)" for s x
    using answered_outside by (auto simp: settled_def outside_frame)
qed (simp_all add: settled_prims, simp_all add: settled_def dispatch_observer_safely_def split: option.split)

interpretation settled_worker: worker_predicate e "settled e p tr" for e p tr
  by unfold_locales (simp_all add: settled_prims, simp_all add: settled_def)

interpretation leaving_stable: trace_blind_predicate e "leaving e p" for e p
proof
  show "leaving e p s \<Longrightarrow> leaving e p (outside_step e x s)" for s x
    by (simp add: leaving_def rt_inv_outside unconfirmed_outside marked_outside)
qed (auto simp: leaving_def elim!: rt_inv_same simp: view_def unconfirmed_def marked_def)

interpretation before_stable: stable_predicate e "\<lambda>s. leaving e p s \<and> trace s = tr" for e p tr
  by unfold_locales (simp_all add: leaving_stable.outside_stable leaving_stable.turn_stable outside_frame)

lemma leaving_frame [simp]:
  "leaving e p (record_action a s) = leaving e p s" "leaving e p (notify_event e' sev msg s) = leaving e p s"
  "leaving e p (s\<lparr>last_sent_nonzero := x\<rparr>) = leaving e p s" "leaving e p (s\<lparr>iteration_now := k\<rparr>) = leaving e p s"
  by (simp_all add: leaving_def marked_frame)

lemma leave_keeps_leaving: "keeps (leaving e p) (actuate_stop_if_authorized e)"
  unfolding actuate_stop_if_authorized_def send_zero_and_damping_def
  by (intro keeping keeps_act leaving_stable.interfere_keeps leaving_stable.call_keeps) simp_all

lemma leave_before:
  "triple (\<lambda>s. leaving e p s \<and> trace s = tr) (leave_if_ended e)
     (\<lambda>left s. leaving e p s \<and> (\<not> left \<longrightarrow> trace s = tr))"
proof -
  have stop: "triple (\<lambda>s. leaving e p s \<and> trace s = tr) (if b then actuate_stop_if_authorized e else ret ())
      (\<lambda>_. leaving e p)" for b
    by (rule triple_weaken [where P = "leaving e p" and Q = "\<lambda>_. leaving e p"])
      (auto intro!: keeps_triple keeping leave_keeps_leaving)
  show ?thesis
    unfolding leave_if_ended_def
    by (rule triple_bind [OF ask_triple], intro triple_if triple_bind [OF stop] triple_ret) simp_all
qed

lemma settled_drop_mark:
  assumes "leaving e p s"
  shows "settled e p tr (drop_estop_mark (s\<lparr>connected := b\<rparr>))"
proof -
  have i: "estop_engaged s \<longleftrightarrow> estop_promise s \<noteq> None" "unconfirmed p s" "marked p s"
    using assms by (simp_all add: leaving_def rt_inv_def)
  have u: "unconfirmed p (drop_estop_mark s)"
    using i(2) by (auto simp: drop_estop_mark_def Let_def unconfirmed_set split: option.split)
  have "answers (drop_estop_mark s) p \<noteq> None"
    using i by (auto simp: drop_estop_mark_def marked_def set_promise_def Let_def split: option.split)
  with u have "settled e p tr (drop_estop_mark s)"
    by (rule settled_unconfirmed)
  then show ?thesis
    by (simp add: drop_estop_mark_commutes settled_def)
qed

lemma end_settles: "triple (leaving e p) (end_session e) (\<lambda>_. settled e p tr)"
proof -
  have drop: "triple (leaving e p) (act (\<lambda>s. record_action SessionEnd (fail_all_pending_locked (s\<lparr>connected := False\<rparr>))))
      (\<lambda>_. settled e p tr)"
    by (rule triple_act) (simp add: fail_all_pending_locked_def Let_def settled_prims settled_trace.pure_ok settled_drop_mark)
  have rest: "keeps (settled e p tr) (do {
      _ \<leftarrow> invalidate_session e; _ \<leftarrow> call e Deinit; stopping \<leftarrow> ask stop_requested;
      if stopping then exit_worker
      else do { _ \<leftarrow> act (notify_event e Error ''connection lost; reconnecting''); act start_backoff } })"
    unfolding exit_worker_def
    by (intro keeping settled_trace.invalidate_ok settled_trace.call_ok keeps_act)
      (simp_all add: settled_trace.notify_ok, simp_all add: settled_def start_backoff_def)
  show ?thesis
    unfolding end_session_def
    by (rule triple_bind [OF keeps_triple [OF leaving_stable.interfere_keeps]], rule triple_bind [OF drop],
        rule keeps_triple [OF rest])
qed

definition taken :: "promise option \<Rightarrow> promise \<Rightarrow> action list \<Rightarrow> rt \<Rightarrow> bool" where
  "taken q p tr s \<longleftrightarrow> unconfirmed p s \<and> trace s = tr \<and> (q = Some p \<or> answers s p \<noteq> None)"

interpretation taken_stable: stable_predicate e "taken q p tr" for e q p tr
proof
  show "taken q p tr s \<Longrightarrow> taken q p tr (outside_step e x s)" for s x
    using answered_outside unfolding taken_def by (auto simp: outside_frame unconfirmed_outside)
qed (simp add: taken_def)

lemma taken_frame [simp]:
  "taken q p tr (notify_event e sev msg s) = taken q p tr s" "taken q p tr (s\<lparr>last_sent_nonzero := x\<rparr>) = taken q p tr s"
  "taken q p tr (ctl_do f s) = taken q p tr s" "taken q p tr (s\<lparr>mode_transition := m\<rparr>) = taken q p tr s"
  "taken q p tr (s\<lparr>command_queue := k\<rparr>) = taken q p tr s"
  by (simp_all add: taken_def) (simp add: notify_event_def dispatch_observer_safely_def split: option.split)

lemma taken_fail: "taken q p tr s \<Longrightarrow> \<not> success r \<Longrightarrow> taken q p tr (set_promise x r s)"
  by (auto simp: taken_def unconfirmed_set answers_set_promise)

lemma taken_abort: "triple (taken q p tr) (abort_for_estop e) (\<lambda>_. taken q p tr)"
proof -
  have q: "taken q p tr s \<Longrightarrow> \<not> success r \<Longrightarrow> taken q p tr (fold (fail_command r) cmds s)" for r cmds s
    by (induction cmds arbitrary: s) (simp_all add: fail_command_def taken_fail)
  have f: "taken q p tr s \<Longrightarrow> \<not> success r \<Longrightarrow> taken q p tr (fail_mode_transition r c s)"
    "taken q p tr s \<Longrightarrow> \<not> success r \<Longrightarrow> taken q p tr (fail_queue r s)" for r c s
    by (simp_all add: fail_mode_transition_def fail_queue_def drain_eq Let_def taken_fail q)
  show ?thesis
    unfolding abort_for_estop_def
    by (intro triple_bind [where R = "\<lambda>_. taken q p tr"] keeps_triple [OF taken_stable.interfere_keeps] triple_act)
      (simp_all add: f)
qed

lemma taken_call: "triple (taken q p tr) (call e a) (\<lambda>_. taken q p (a # tr))"
proof -
  have "triple (taken q p tr) (act (record_action a)) (\<lambda>_. taken q p (a # tr))"
    by (rule triple_act) (simp add: taken_def, simp add: record_action_def)
  then show ?thesis
    unfolding call_def
    by (intro triple_bind [OF keeps_triple [OF taken_stable.interfere_keeps]] triple_bind [OF ask_triple] triple_ret
        triple_bind [where R = "\<lambda>_. taken q p (a # tr)" and m = "act (record_action a)"])
qed

lemma taken_send_zero: "triple (taken q p tr) (send_zero_and_damping e) (\<lambda>_. taken q p (stop_sequence e @ tr))"
proof -
  have start: "triple (taken q p tr) (act (record_action StopSequence)) (\<lambda>_. taken q p (StopSequence # tr))"
    by (rule triple_act) (simp add: taken_def, simp add: record_action_def)
  have notify: "triple (taken q p tr) (if b then act (notify_event e sev msg) else ret ()) (\<lambda>_. taken q p tr)" for b sev msg tr
    by (intro triple_if triple_act triple_ret) simp_all
  have sent: "triple (taken q p tr) (if b then act (\<lambda>s. s\<lparr>last_sent_nonzero := False\<rparr>) else ret ()) (\<lambda>_. taken q p tr)" for b tr
    by (intro triple_if triple_act triple_ret) simp_all
  show ?thesis
    unfolding send_zero_and_damping_def
    by (intro triple_bind [OF start] triple_bind [OF taken_call] triple_bind [OF notify] triple_bind [OF sent] triple_ret)
      (simp add: stop_sequence_def)
qed

lemma taken_answer:
  "taken q p tr s \<Longrightarrow> (success r \<longrightarrow> tr = stop_sequence e @ tr') \<Longrightarrow> settled e p tr' (answer_estop q r s)"
  by (auto simp: taken_def answer_estop_def settled_def unconfirmed_def answers_set_promise split: option.split)

lemma estop_settles: "triple (\<lambda>s. leaving e p s \<and> trace s = tr) (handle_estop_if_requested e) (\<lambda>_. settled e p tr)"
proof -
  have take: "triple (\<lambda>s. leaving e p s \<and> trace s = tr) take_estop
      (\<lambda>t s. case t of None \<Rightarrow> settled e p tr s | Some q \<Rightarrow> taken q p tr s)"
    by (rule tripleI) (auto simp: take_estop_def leaving_def marked_def rt_inv_def taken_def intro: settled_unconfirmed)
  have answer: "triple (taken q p tr') (act (answer_estop q r)) (\<lambda>_. settled e p tr)"
    if "success r \<longrightarrow> tr' = stop_sequence e @ tr" for q tr' r
    by (rule triple_act) (use that taken_answer in blast)
  have go: "triple (case t of None \<Rightarrow> settled e p tr | Some q \<Rightarrow> taken q p tr)
      (case t of None \<Rightarrow> ret () | Some q \<Rightarrow> m q) (\<lambda>_. settled e p tr)"
    if "\<And>q. triple (taken q p tr) (m q) (\<lambda>_. settled e p tr)" for t m
    using that by (cases t) (auto intro: triple_ret)
  have take': "triple (\<lambda>s. leaving e p s \<and> trace s = tr) take_estop
      (\<lambda>t. case t of None \<Rightarrow> settled e p tr | Some q \<Rightarrow> taken q p tr)"
    by (rule triple_weaken [OF take]) (auto split: option.splits)
  show ?thesis
    unfolding handle_estop_if_requested_def
    by (rule triple_bind [OF keeps_triple [OF before_stable.interfere_keeps]], rule triple_bind [OF take'], rule go)
      (intro triple_bind [OF keeps_triple [OF taken_stable.interfere_keeps]] triple_bind [OF taken_abort]
        triple_bind [OF ask_triple] triple_if triple_bind [OF taken_send_zero] answer; simp)
qed

lemma pass_settles:
  "triple (\<lambda>s. leaving e p s \<and> trace s = tr) (connected_iteration e)
     (\<lambda>alive s. if alive then settled e p tr s else leaving e p s \<or> settled e p tr s)"
proof -
  have rest: "keeps (settled e p tr) (do {
      _ \<leftarrow> interfere e; _ \<leftarrow> settle_orphan e; _ \<leftarrow> interfere e; _ \<leftarrow> run_next_command e; _ \<leftarrow> interfere e;
      requested \<leftarrow> take_motion_request; alive \<leftarrow> heartbeat_if_due e;
      if \<not> alive then ret False
      else do { _ \<leftarrow> motion_if_due e requested; _ \<leftarrow> interfere e; _ \<leftarrow> act settle_if_due; _ \<leftarrow> poll_if_due e; ret True } })"
    by (intro settled_trace.loop_rules settled_trace.transition_ok settled_trace.heartbeat_ok settled_trace.poll_ok)
      (simp_all add: settled_trace.blocks_ok)
  have body: "triple (\<lambda>s. leaving e p s \<and> trace s = tr) (iteration_body e) (\<lambda>_. settled e p tr)"
    unfolding iteration_body_def by (rule triple_bind [OF estop_settles], rule keeps_triple [OF rest])
  have gone: "triple (\<lambda>s. leaving e p s \<and> (\<not> left \<longrightarrow> trace s = tr)) (if left then ret False else m)
      (\<lambda>alive s. if alive then settled e p tr s else leaving e p s \<or> settled e p tr s)"
    if "triple (\<lambda>s. leaving e p s \<and> trace s = tr) m
        (\<lambda>alive s. if alive then settled e p tr s else leaving e p s \<or> settled e p tr s)" for left m
    using that by (cases left) (simp_all add: triple_ret)
  have awake: "triple (\<lambda>s. leaving e p s \<and> trace s = tr) (ask (\<lambda>s. wake_predicate s \<or> clk s \<ge> wait_deadline s))
      (\<lambda>awake s. leaving e p s \<and> trace s = tr \<and> (\<not> awake \<longrightarrow> answers s p \<noteq> None))"
    by (rule triple_ask) (auto simp: leaving_def marked_def rt_inv_def wake_predicate_def)
  have set_now: "triple (\<lambda>s. leaving e p s \<and> trace s = tr) (act (\<lambda>s. s\<lparr>iteration_now := clk s\<rparr>))
      (\<lambda>_ s. leaving e p s \<and> trace s = tr)"
    by (rule triple_act) simp
  have sleep: "triple (\<lambda>s. leaving e p s \<and> trace s = tr \<and> (\<not> awake \<longrightarrow> answers s p \<noteq> None))
      (if \<not> awake then ret True else m)
      (\<lambda>alive s. if alive then settled e p tr s else leaving e p s \<or> settled e p tr s)"
    if "triple (\<lambda>s. leaving e p s \<and> trace s = tr) m
        (\<lambda>alive s. if alive then settled e p tr s else leaving e p s \<or> settled e p tr s)" for awake m
    using that by (cases awake) (auto intro!: triple_ret settled_unconfirmed simp: leaving_def)
  show ?thesis
    unfolding connected_iteration_def
    by (rule triple_bind [OF keeps_triple [OF before_stable.interfere_keeps]], rule triple_bind [OF awake], rule sleep,
        rule triple_bind [OF leave_before], rule gone, rule triple_bind [OF set_now],
        rule triple_bind [OF keeps_triple [OF before_stable.interfere_keeps]],
        rule triple_bind [OF leave_before], rule gone)
      (rule triple_weaken [OF body], simp_all)
qed

text \<open>
  C3. An emergency stop is answered within one pass of the worker, and a positive answer is true:
  if the stop's promise is pending when the worker takes its next step, it is answered after
  that step, whatever other threads and the SDK do; and if the answer is success, the first things
  the worker did in that step were the zero velocity and the damping mode, before any queued command.\<close>

theorem estop_answered_and_executed:
  assumes "reach (rt_start_state e) (rt_step e) s" "estop_promise s = Some p" "answers s p = None"
  shows "\<exists>r. answers (rt_next e Worker s) p = Some r \<and>
    (success r \<longrightarrow> (\<exists>post. trace (rt_next e Worker s) = post @ stop_sequence e @ trace s))"
proof -
  have "session_inv e s"
    by (rule runtime.inv_reach [OF assms(1)])
  then have i: "rt_inv e (worker s = InSession) {} s"
    by (simp add: session_inv_def)
  then have w: "worker s = InSession"
    using assms(2) by (auto simp: rt_inv_def quiet_def)
  have "p < next_promise s"
    using i assms(2) by (auto simp: rt_inv_def promises_ok_def held_def)
  then have l: "leaving e p s \<and> trace s = trace s"
    using i w assms(2,3) by (simp add: leaving_def unconfirmed_def marked_def)
  have finish: "triple (\<lambda>t. if alive then settled e p tr t else leaving e p t \<or> settled e p tr t)
      (if alive then ret () else end_session e) (\<lambda>_. settled e p tr)" for alive tr
  proof (cases alive)
    case False
    then show ?thesis
      using settled_worker.end_ok [of e p tr] end_settles [of e p tr] by (auto simp: triple_def keeps_def)
  qed (auto intro: triple_ret)
  have "triple (\<lambda>t. leaving e p t \<and> trace t = trace s) (worker_step e InSession) (\<lambda>_. settled e p (trace s))"
    unfolding worker_step_def worker_pc.case by (rule triple_bind [OF pass_settles], rule finish)
  from triple_snd [OF this l] show ?thesis
    using w by (simp add: settled_def)
qed

lemma ex_estop_pending:
  "estop_promise (ex_run [Outside EstopBegin, Outside (Resume 0)] ex_polled) = Some 0"
  "answers (ex_run [Outside EstopBegin, Outside (Resume 0)] ex_polled) = Map.empty"
  by (simp_all add: ex_run_def ex_polled_def rt_trigger_estop_def make_promise_def resume_def estop_mark_def
      unavailable_def ctl_do_def Let_def)

theorem estop_answered_and_executed_witness:
  "\<exists>r. answers (rt_next ex_env Worker (ex_run [Outside EstopBegin, Outside (Resume 0)] ex_polled)) 0 = Some r"
  using estop_answered_and_executed [OF ex_reach_polled, of "[Outside EstopBegin, Outside (Resume 0)]" 0]
  by (auto simp: ex_estop_pending)

section \<open>Shutdown\<close>

lemma stop_resume: "stop_requested (resume p s) = stop_requested s"
  by (auto simp: resume_def estop_mark_def mode_gate_def mode_enqueue_def Let_def
      split: option.split client.split prod.split)

lemma stop_frame [simp]: "stop_requested (dispatch_observer_safely e ob s) = stop_requested s"
    "stop_requested (notify_event e sev msg s) = stop_requested s"
  by (simp_all add: notify_event_def dispatch_observer_safely_def split: option.split)

lemma stop_make: "make_promise s = (p, t) \<Longrightarrow> stop_requested t = stop_requested s"
  by (auto simp: make_promise_def)

lemma stop_outside: "stop_requested s \<Longrightarrow> stop_requested (outside_step e x s)"
  by (cases x)
    (auto simp: stop_resume handle_status_def handle_imu_def handle_sport_def rt_submit_velocity_def
      rt_stop_def rt_release_estop_def rt_trigger_estop_def rt_request_authority_def rt_request_mode_def
      Let_def stop_make split: prod.split dest!: stop_make)

interpretation stopping_trace: trace_oblivious e stop_requested for e
  by unfold_locales (simp_all add: stop_outside record_action_def)

interpretation stopping: worker_predicate e stop_requested for e
  by unfold_locales (simp_all add: record_action_def)

text \<open>How many steps of the worker are left until it exits.\<close>

fun steps_left :: "worker_pc \<Rightarrow> nat" where
  "steps_left Exited = 0"
| "steps_left Connecting = 1"
| "steps_left InSession = 1"
| "steps_left (BackingOff d) = 2"
| "steps_left NotStarted = 0"

lemma stop_leaves: "triple stop_requested (leave_if_ended e) (\<lambda>left s. left \<and> stop_requested s)"
  unfolding leave_if_ended_def
  by (intro triple_bind [where R = "\<lambda>f s. fst f \<and> stop_requested s" and
        m = "ask (\<lambda>s. (stop_requested s, link_drop_latched s))"] triple_ask triple_pre)
    (auto intro!: triple_bind [OF keeps_triple] triple_ret keeping stopping_trace.loop_rules
      simp: actuate_stop_if_authorized_def)

lemma stop_iteration: "triple stop_requested (connected_iteration e) (\<lambda>alive s. \<not> alive \<and> stop_requested s)"
  unfolding connected_iteration_def
  by (rule triple_bind [OF keeps_triple [OF stopping_trace.interfere_keeps]],
      rule triple_bind [where R = "\<lambda>awake s. awake \<and> stop_requested s"], rule triple_ask,
      simp add: wake_predicate_def, rule triple_pre)
    (auto intro!: triple_bind [OF stop_leaves] triple_pre triple_ret)

lemma stop_end: "triple stop_requested (end_session e) (\<lambda>_ s. worker s = Exited)"
proof -
  have drop: "triple stop_requested (act (\<lambda>s. record_action SessionEnd (fail_all_pending_locked (s\<lparr>connected := False\<rparr>))))
      (\<lambda>_. stop_requested)"
    by (rule triple_act) (simp add: stopping.marker_ok stopping_trace.blocks_ok)
  show ?thesis
    unfolding end_session_def exit_worker_def
    by (rule triple_bind [OF keeps_triple [OF stopping_trace.interfere_keeps]], rule triple_bind [OF drop],
        rule triple_bind [OF keeps_triple [OF stopping_trace.invalidate_ok]],
        rule triple_bind [OF keeps_triple [OF stopping_trace.call_ok]], simp,
        rule triple_bind [where R = "\<lambda>b s. b \<and> stop_requested s"], rule triple_ask, simp, rule triple_pre)
      (auto intro!: triple_act)
qed

lemma stop_connect: "triple stop_requested (connect_iteration e) (\<lambda>_ s. worker s = Exited)"
  unfolding connect_iteration_def exit_worker_def
  by (rule triple_bind [OF keeps_triple [OF stopping_trace.interfere_keeps]],
      rule triple_bind [where R = "\<lambda>b s. b \<and> stop_requested s"], rule triple_ask, simp, rule triple_pre)
    (auto intro!: triple_act)

lemma stop_backoff: "triple stop_requested (wait_backoff e d) (\<lambda>_ s. worker s = Connecting)"
  unfolding wait_backoff_def
  by (rule triple_bind [OF keeps_triple [OF stopping_trace.interfere_keeps]], rule triple_act) simp

lemma stop_step:
  assumes "stop_requested s" "worker s \<noteq> NotStarted"
  shows "steps_left (worker (rt_next e Worker s)) = steps_left (worker s) - 1 \<and> worker (rt_next e Worker s) \<noteq> NotStarted"
proof (cases "worker s")
  case Connecting
  then show ?thesis
    using triple_snd [OF stop_connect assms(1)] by (simp add: worker_step_def)
next
  case (BackingOff d)
  then show ?thesis
    using triple_snd [OF stop_backoff assms(1)] by (simp add: worker_step_def)
next
  case InSession
  have "triple stop_requested (worker_step e InSession) (\<lambda>_ s. worker s = Exited)"
    unfolding worker_step_def worker_pc.case
    by (rule triple_bind [OF stop_iteration], rule triple_pre) (simp add: stop_end)
  from triple_snd [OF this assms(1)] show ?thesis
    using InSession by simp
qed (use assms in \<open>simp_all add: worker_step_def\<close>)

lemma stop_other: "l \<noteq> Worker \<Longrightarrow> worker s \<noteq> NotStarted \<Longrightarrow> worker (rt_next e l s) = worker s"
  by (cases l) (simp_all add: rt_start_def outside_frame)

lemma stop_counts_down:
  assumes "run (rt_step e) s ls t" "stop_requested s" "worker s \<noteq> NotStarted"
  shows "steps_left (worker t) \<le> steps_left (worker s) - count_list ls Worker \<and> worker t \<noteq> NotStarted"
  using assms
proof (induction rule: run.induct)
  case (run_cons s l t ls u)
  have t: "t = rt_next e l s"
    using run_cons by (simp add: rt_step_def)
  have "stop_requested t"
    using run_cons t by (simp add: stopping.step_ok stop_outside)
  moreover have "steps_left (worker t) \<le> steps_left (worker s) - (if l = Worker then 1 else 0) \<and> worker t \<noteq> NotStarted"
    using stop_step [of s e] stop_other [of l s e] run_cons.prems t by (cases "l = Worker") auto
  ultimately show ?case
    using run_cons.IH by (auto split: if_splits)
qed simp

text \<open>
  C22. Shutdown always completes: after \<^verbatim>\<open>stop()\<close>, whatever the other threads, the SDK and the network
  do, two steps of a started worker are enough for it to exit: a wait is cut short, a
  connection attempt is not begun, and a session is left with all pending work answered.\<close>

theorem stop_terminates_worker:
  assumes "stop_requested s" "worker s \<noteq> NotStarted" "run (rt_step e) s ls t" "2 \<le> count_list ls Worker"
  shows "worker t = Exited"
proof -
  have "steps_left (worker s) \<le> 2"
    by (cases "worker s") simp_all
  then have "steps_left (worker t) = 0 \<and> worker t \<noteq> NotStarted"
    using stop_counts_down [OF assms(3,1,2)] assms(4) by linarith
  then show ?thesis
    by (cases "worker t") simp_all
qed

theorem stop_terminates_worker_witness:
  "worker (ex_run [Worker, Worker] (ex_run [Outside StopRequest] ex_polled)) = Exited"
  by (rule stop_terminates_worker [OF _ _ ex_run_steps])
    (simp_all add: ex_run_def rt_stop_def ex_polled_def)

section \<open>Reconnecting\<close>

lemma next_backoff_capped:
  "0 \<le> d \<Longrightarrow> d \<le> x \<Longrightarrow> next_backoff c (max d (min x (reconnect_max_delay_ms c))) =
     max d (min (2 * x) (reconnect_max_delay_ms c))"
  by (auto simp: next_backoff_def Let_def min_def max_def)

lemma backoff_power:
  assumes "0 \<le> d"
  shows "(next_backoff c ^^ n) d = max d (min (2 ^ n * d) (reconnect_max_delay_ms c))"
proof (induction n)
  case (Suc n)
  have "(1 :: int) \<le> 2 ^ n"
    by simp
  then have "d \<le> 2 ^ n * d"
    using assms mult_right_mono [of 1 "2 ^ n" d] by simp
  then have "next_backoff c (max d (min (2 ^ n * d) (reconnect_max_delay_ms c))) =
      max d (min (2 * (2 ^ n * d)) (reconnect_max_delay_ms c))"
    using assms by (intro next_backoff_capped)
  then show ?case
    using Suc by (simp add: mult.assoc)
qed (use assms in auto)

definition backoff_ok :: "env \<Rightarrow> rt \<Rightarrow> bool" where
  "backoff_ok e s \<longleftrightarrow> (\<exists>n. backoff s = (next_backoff (config e) ^^ n) (reconnect_initial_delay_ms (config e)))"

interpretation backoff_trace: trace_oblivious e "backoff_ok e" for e
  by unfold_locales (simp_all add: backoff_ok_def outside_frame set_promise_def ctl_do_def
      dispatch_observer_safely_def record_action_def split: option.split)

lemma backoff_ok_grow: "backoff_ok e s \<Longrightarrow> backoff_ok e (s\<lparr>backoff := next_backoff (config e) (backoff s)\<rparr>)"
  by (auto simp: backoff_ok_def intro: exI [of _ "Suc n" for n])

lemma backoff_ok_reset: "backoff_ok e (s\<lparr>backoff := reconnect_initial_delay_ms (config e)\<rparr>)"
  by (auto simp: backoff_ok_def intro: exI [of _ 0])

interpretation backoff_steps: worker_predicate e "backoff_ok e" for e
  by unfold_locales (simp_all add: backoff_ok_grow backoff_ok_reset, simp_all add: backoff_ok_def record_action_def)

lemma backoff_ok_start: "rt_start_state e s \<Longrightarrow> backoff_ok e s"
  by (auto simp: rt_start_state_def DirectDriverRuntime_def backoff_ok_def intro: exI [of _ 0] split: sum.splits)

interpretation backoff_runs: invariant_system "rt_start_state e" "rt_step e" "backoff_ok e" for e
  by unfold_locales (auto simp: backoff_ok_start rt_step_def intro!: backoff_steps.step_ok, simp add: backoff_ok_def outside_frame)

text \<open>
  The reconnect delay doubles and stays bounded: in every reachable state it is the initial
  delay doubled some number of times and cut off at the configured maximum (or the initial delay
  itself, when that is larger), so it is never below the initial delay and never grows past the limit.\<close>

theorem reconnect_delay_bounded:
  assumes "reach (rt_start_state e) (rt_step e) s" "0 \<le> reconnect_initial_delay_ms (config e)"
  shows "\<exists>n. backoff s = max (reconnect_initial_delay_ms (config e))
    (min (2 ^ n * reconnect_initial_delay_ms (config e)) (reconnect_max_delay_ms (config e)))"
  using backoff_runs.inv_reach [OF assms(1)] backoff_power [OF assms(2)] by (auto simp: backoff_ok_def)

theorem reconnect_delay_bounded_witness:
  "\<exists>n. backoff ex_polled = max 1000 (min (2 ^ n * 1000) 30000)"
  using reconnect_delay_bounded [OF ex_reach_polled, of "[]"] by (simp add: ex_run_def ex_config_def)

end
