(* ===== verification/Direct_Sdk.thy ===== *)
theory Direct_Sdk
  imports Sdk_Types
begin

text \<open>
  The adapter \<^verbatim>\<open>DirectAstrallSdk\<close> of \<^verbatim>\<open>direct_astrall_sdk.cpp\<close>: a small state machine behind a
  callback gate, used by any number of threads. Every public method is cut at the boundaries of its
  critical sections: the sections of the gate mutex are the functions of the first part, each one
  atomic, and a thread of the second part carries a program counter that says between which two of
  them it is. The lifecycle mutex and the teardown mutex are held across several steps, so they are
  part of the state; a step that acquires a mutex is enabled when the mutex is free.

  The vendor library is the environment: it returns a code, throws, or delivers callbacks, on a thread
  that is inside a vendor call (a synchronous callback) or on a thread of its own. Which entries of the
  function table are bound, and the sizes of the vendor structures, are the parameter \<open>backend\<close>. A
  callback of the project is a number; while one runs it may call any public method of the adapter.

  Ghost state: \<open>vendor_up\<close>, true from a successful vendor initialisation to the vendor's deinit.
\<close>

section \<open>Data\<close>

datatype State = Uninitialized | Initializing | Initialized | ShuttingDown

datatype SubscriptionTopic = Imu | Sport | Lidar

type_synonym callback = nat

record impl =
  im_state :: State
  im_callbacks :: "callback option"
  imu_callback :: "callback option"
  sport_callback :: "callback option"
  lidar_callback :: "callback option"
  status_linked :: bool
  status_authority :: bool
  latest_sport :: SportSample
  in_flight :: nat
  deferred_teardown :: bool

definition zero_sport :: SportSample where
  "zero_sport = \<lparr>sport_timestamp = 0, wheel_speed = [Fin 0, Fin 0, Fin 0, Fin 0]\<rparr>"

definition DirectAstrallSdk :: impl where
  "DirectAstrallSdk = \<lparr>im_state = Uninitialized, im_callbacks = None, imu_callback = None, sport_callback = None,
     lidar_callback = None, status_linked = False, status_authority = False, latest_sport = zero_sport,
     in_flight = 0, deferred_teardown = False\<rparr>"

text \<open>Which functions of \<^verbatim>\<open>AstrallVendorApi\<close> are bound, and the sizes of the vendor structures.\<close>

record backend =
  bk_init :: bool
  bk_deinit :: bool
  bk_heartbeat :: bool
  bk_request_authority :: bool
  bk_subscribe :: bool
  bk_set_mode :: bool
  bk_move :: bool
  bk_get_system_status :: bool
  bk_get_power_status :: bool
  bk_get_sport_status :: bool
  size_sdk_status :: nat
  size_imu_data :: nat
  size_sport_data :: nat

record RawSystemStatus =
  sys_status :: u8
  raw_error_code :: u32
  raw_warn_code :: u32

record RawPowerStatus =
  soc :: fl
  temp :: fl
  voltage :: fl
  cycle_count :: u16
  charged :: u16

text \<open>The vendor's reply: the result code of a call, or the three getters of \<^verbatim>\<open>snapshot\<close>.\<close>

record vendor_reply =
  vr_code :: u16
  vr_system :: "u16 \<times> RawSystemStatus"
  vr_power :: "u16 \<times> RawPowerStatus"
  vr_sport :: u16

text \<open>
  A vendor buffer: a null pointer, or its length and the structure its bytes hold when it is long enough.
\<close>

type_synonym 'a raw_buffer = "(u16 \<times> 'a) option"

record AstrallSdkStatus =
  vs_link :: nat
  vs_ctrlAuthority :: nat

record AstrallImuData =
  ai_timestamp :: int
  ai_accelerometer :: "nat \<Rightarrow> fl"
  ai_gyroscope :: "nat \<Rightarrow> fl"
  ai_quaternion :: "nat \<Rightarrow> fl"
  ai_pitch :: fl
  ai_roll :: fl
  ai_yaw :: fl
  ai_odomX :: fl
  ai_odomY :: fl

record AstrallSportData =
  as_timestamp :: int
  as_wheelSpeed :: "nat \<Rightarrow> fl"

datatype sdk_call =
  Init "callback option" u32
| Heartbeat u32
| RequestAuthority bool u32
| SubscribeImu SubscriptionFrequency "callback option" u32
| SubscribeSport SubscriptionFrequency "callback option" u32
| SubscribeLidar SubscriptionFrequency u32
| Move velocity u32
| SetMode u16 u32
| Snapshot

datatype sdk_return = ReturnResult Result | ReturnSnapshot SdkSnapshot | ReturnVoid

section \<open>Results\<close>

definition map_vendor_result :: "u16 \<Rightarrow> Result" where
  "map_vendor_result c = (if c = kSdkResSuccess then ok ''success'' else failure c (describe_sdk_result_code c))"

definition not_initialized :: Result where
  "not_initialized = failure kSdkResNotInit (describe_sdk_result_code kSdkResNotInit)"

definition backend_unbound :: Result where
  "backend_unbound = failure kSdkResFailed ''vendor backend not bound''"

definition reentrant_failure :: Result where
  "reentrant_failure = failure kSdkResRunning ''reentrant call from SDK callback not allowed''"

definition deinit_requested :: Result where
  "deinit_requested = failure kSdkResRunning ''deinit requested from SDK callback''"

section \<open>The sections of the gate mutex\<close>

definition gate_open :: "impl \<Rightarrow> bool" where
  "gate_open i \<longleftrightarrow> im_state i \<noteq> Uninitialized \<and> im_state i \<noteq> ShuttingDown"

definition map_imu :: "AstrallImuData \<Rightarrow> ImuSample" where
  "map_imu d = \<lparr>imu_timestamp = ai_timestamp d,
     accelerometer = [ai_accelerometer d 0, ai_accelerometer d 1, ai_accelerometer d 2],
     gyroscope = [ai_gyroscope d 0, ai_gyroscope d 1, ai_gyroscope d 2],
     quaternion = [ai_quaternion d 0, ai_quaternion d 1, ai_quaternion d 2, ai_quaternion d 3],
     imu_pitch = ai_pitch d, imu_roll = ai_roll d, imu_yaw = ai_yaw d, odom_x = ai_odomX d, odom_y = ai_odomY d\<rparr>"

definition map_sport :: "AstrallSportData \<Rightarrow> SportSample" where
  "map_sport d = \<lparr>sport_timestamp = as_timestamp d,
     wheel_speed = [as_wheelSpeed d 0, as_wheelSpeed d 1, as_wheelSpeed d 2, as_wheelSpeed d 3]\<rparr>"

text \<open>
  The delivery of a vendor callback up to the point where the project callback starts: the callback to
  run (\<open>Some None\<close> when none is installed), or \<open>None\<close> when the delivery is dropped.
\<close>

definition deliver_status :: "bool \<Rightarrow> bool \<Rightarrow> impl \<Rightarrow> callback option option \<times> impl" where
  "deliver_status linked authority i =
     (if \<not> gate_open i then (None, i)
      else (Some (im_callbacks i),
            i\<lparr>status_linked := linked, status_authority := authority, in_flight := in_flight i + 1\<rparr>))"

definition deliver_imu :: "ImuSample \<Rightarrow> impl \<Rightarrow> callback option option \<times> impl" where
  "deliver_imu sample i =
     (if \<not> gate_open i then (None, i) else (Some (imu_callback i), i\<lparr>in_flight := in_flight i + 1\<rparr>))"

definition deliver_sport :: "SportSample \<Rightarrow> impl \<Rightarrow> callback option option \<times> impl" where
  "deliver_sport sample i =
     (if \<not> gate_open i then (None, i)
      else (Some (sport_callback i), i\<lparr>latest_sport := sample, in_flight := in_flight i + 1\<rparr>))"

definition deliver_lidar_discard :: "impl \<Rightarrow> callback option option \<times> impl" where
  "deliver_lidar_discard i =
     (if \<not> gate_open i then (None, i) else (Some (lidar_callback i), i\<lparr>in_flight := in_flight i + 1\<rparr>))"

text \<open>The callbacks handed to the vendor; a null or short buffer is dropped before any copy.\<close>

datatype vendor_event =
  StatusEvent "AstrallSdkStatus raw_buffer"
| ImuEvent "AstrallImuData raw_buffer"
| SportEvent "AstrallSportData raw_buffer"
| LidarEvent
| HeartbeatEvent

fun vendor_callback :: "backend \<Rightarrow> vendor_event \<Rightarrow> impl \<Rightarrow> callback option option \<times> impl" where
  "vendor_callback bk (StatusEvent buf) i =
     (case buf of None \<Rightarrow> (None, i)
      | Some (len, d) \<Rightarrow> if unat len < size_sdk_status bk then (None, i)
          else deliver_status (vs_link d \<noteq> 0) (vs_ctrlAuthority d \<noteq> 0) i)"
| "vendor_callback bk (ImuEvent buf) i =
     (case buf of None \<Rightarrow> (None, i)
      | Some (len, d) \<Rightarrow> if unat len < size_imu_data bk then (None, i) else deliver_imu (map_imu d) i)"
| "vendor_callback bk (SportEvent buf) i =
     (case buf of None \<Rightarrow> (None, i)
      | Some (len, d) \<Rightarrow> if unat len < size_sport_data bk then (None, i) else deliver_sport (map_sport d) i)"
| "vendor_callback bk LidarEvent i = deliver_lidar_discard i"
| "vendor_callback bk HeartbeatEvent i = (None, i)"

text \<open>The end of a delivery: \<^verbatim>\<open>InFlightGuard\<close>. A deferred teardown is only kept.\<close>

definition end_delivery :: "impl \<Rightarrow> impl" where
  "end_delivery i = i\<lparr>in_flight := in_flight i - 1\<rparr>"

definition init_enter :: "callback option \<Rightarrow> impl \<Rightarrow> Result + impl" where
  "init_enter cbs i =
     (if im_state i = ShuttingDown then Inl (failure kSdkResFailed ''deinit in progress'')
      else if im_state i \<noteq> Uninitialized then Inl (failure kSdkResFailed ''SDK already initialized'')
      else Inr (i\<lparr>im_callbacks := cbs, status_linked := False, status_authority := False,
                  latest_sport := zero_sport, im_state := Initializing\<rparr>))"

definition init_unbound :: "impl \<Rightarrow> impl" where
  "init_unbound i = i\<lparr>im_state := Uninitialized, im_callbacks := None\<rparr>"

definition init_failed :: "impl \<Rightarrow> impl" where
  "init_failed i = i\<lparr>im_state := Uninitialized, im_callbacks := None, status_linked := False, status_authority := False\<rparr>"

definition init_commit :: "impl \<Rightarrow> impl" where
  "init_commit i = i\<lparr>im_state := Initialized\<rparr>"

text \<open>The swap of a subscription callback: the previous one is kept for the rollback.\<close>

definition discard_callback :: callback where
  "discard_callback = 0"

fun topic_callback :: "SubscriptionTopic \<Rightarrow> impl \<Rightarrow> callback option" where
  "topic_callback Imu i = imu_callback i"
| "topic_callback Sport i = sport_callback i"
| "topic_callback Lidar i = lidar_callback i"

fun set_topic_callback :: "SubscriptionTopic \<Rightarrow> callback option \<Rightarrow> impl \<Rightarrow> impl" where
  "set_topic_callback Imu cb i = i\<lparr>imu_callback := cb\<rparr>"
| "set_topic_callback Sport cb i = i\<lparr>sport_callback := cb\<rparr>"
| "set_topic_callback Lidar cb i = i\<lparr>lidar_callback := cb\<rparr>"

definition snapshot_cached :: "impl \<Rightarrow> SdkSnapshot \<Rightarrow> SdkSnapshot" where
  "snapshot_cached i out = out\<lparr>sn_sdk_linked := status_linked i, sn_control_authority := status_authority i,
     sn_wheel_speed := wheel_speed (latest_sport i)\<rparr>"

definition default_snapshot :: SdkSnapshot where
  "default_snapshot = \<lparr>sn_sdk_linked = False, sn_control_authority = False, sn_system_status = 0, sn_error_code = 0,
     sn_warning_code = 0, sn_sport_status = 0, sn_battery_percentage = Fin 0, sn_battery_temperature = Fin 0,
     sn_battery_voltage = Fin 0, sn_battery_cycle_count = 0, sn_charge_status = 0,
     sn_wheel_speed = [Fin 0, Fin 0, Fin 0, Fin 0]\<rparr>"

text \<open>What \<^verbatim>\<open>snapshot\<close> stores of the vendor's getters.\<close>

definition store_system :: "backend \<Rightarrow> vendor_reply \<Rightarrow> SdkSnapshot \<Rightarrow> SdkSnapshot" where
  "store_system bk r out =
     (if bk_get_system_status bk \<and> fst (vr_system r) = kSdkResSuccess
      then out\<lparr>sn_system_status := sys_status (snd (vr_system r)), sn_error_code := raw_error_code (snd (vr_system r)),
               sn_warning_code := raw_warn_code (snd (vr_system r))\<rparr>
      else out)"

definition store_power :: "backend \<Rightarrow> vendor_reply \<Rightarrow> SdkSnapshot \<Rightarrow> SdkSnapshot" where
  "store_power bk r out =
     (if bk_get_power_status bk \<and> fst (vr_power r) = kSdkResSuccess
      then out\<lparr>sn_battery_percentage := soc (snd (vr_power r)), sn_battery_temperature := temp (snd (vr_power r)),
               sn_battery_voltage := voltage (snd (vr_power r)),
               sn_battery_cycle_count := cycle_count (snd (vr_power r)), sn_charge_status := charged (snd (vr_power r))\<rparr>
      else out)"

definition store_sport :: "backend \<Rightarrow> vendor_reply \<Rightarrow> SdkSnapshot \<Rightarrow> SdkSnapshot" where
  "store_sport bk r out =
     (if bk_get_sport_status bk \<and> and (vr_sport r) 0xF000 \<noteq> 0x8000 then out\<lparr>sn_sport_status := vr_sport r\<rparr> else out)"

definition store_getters :: "backend \<Rightarrow> vendor_reply \<Rightarrow> SdkSnapshot \<Rightarrow> SdkSnapshot" where
  "store_getters bk r out = store_sport bk r (store_power bk r (store_system bk r out))"

text \<open>The parts of the teardown.\<close>

definition teardown_close :: "backend \<Rightarrow> impl \<Rightarrow> bool \<times> bool \<times> impl" where
  "teardown_close bk i =
     (let i = i\<lparr>deferred_teardown := False\<rparr>; already_shutting_down = (im_state i = ShuttingDown) in
      if im_state i \<noteq> Uninitialized
      then (True, \<not> already_shutting_down \<and> bk_deinit bk,
            i\<lparr>im_state := ShuttingDown, im_callbacks := None, imu_callback := None, sport_callback := None,
              lidar_callback := None, status_linked := False, status_authority := False\<rparr>)
      else if in_flight i > 0 then (True, False, i\<lparr>im_state := ShuttingDown\<rparr>)
      else (False, False, i))"

definition teardown_publish :: "impl \<Rightarrow> impl" where
  "teardown_publish i = i\<lparr>im_state := Uninitialized\<rparr>"

definition ensure_check :: "impl \<Rightarrow> bool \<times> impl" where
  "ensure_check i =
     (if im_state i = Uninitialized \<and> \<not> deferred_teardown i \<and> in_flight i = 0 then (True, i)
      else (False, i\<lparr>deferred_teardown := False\<rparr>))"

definition finish_with_deferred_teardown :: "impl \<Rightarrow> bool \<times> impl" where
  "finish_with_deferred_teardown i =
     (if deferred_teardown i then (True, i\<lparr>deferred_teardown := False\<rparr>) else (False, i))"

text \<open>The topic and the callback of a subscription.\<close>

fun subscription :: "sdk_call \<Rightarrow> (SubscriptionTopic \<times> callback option) option" where
  "subscription (SubscribeImu f cb timeout) = Some (Imu, cb)"
| "subscription (SubscribeSport f cb timeout) = Some (Sport, cb)"
| "subscription (SubscribeLidar f timeout) = Some (Lidar, Some discard_callback)"
| "subscription _ = None"

fun is_init :: "sdk_call \<Rightarrow> bool" where
  "is_init (Init cbs timeout) = True"
| "is_init _ = False"

section \<open>Public methods\<close>

text \<open>
  A public method that calls the vendor has four parts of its own: what it does under the lifecycle mutex before the
  vendor is called (an early return, or the new state, the callback saved for a rollback and the snapshot
  under construction), whether its vendor function is bound, what it undoes when it is not, and its tail when no
  teardown was requested meanwhile.
\<close>

record sdk_method =
  m_enter :: "impl \<Rightarrow> sdk_return + (impl \<times> callback option \<times> SdkSnapshot)"
  m_bound :: "backend \<Rightarrow> bool"
  m_unbound :: "callback option \<Rightarrow> impl \<Rightarrow> impl"
  m_tail :: "backend \<Rightarrow> callback option \<Rightarrow> SdkSnapshot \<Rightarrow> vendor_reply \<Rightarrow> impl \<Rightarrow> sdk_return \<times> impl"

definition require_initialized :: "impl \<Rightarrow> sdk_return + (impl \<times> callback option \<times> SdkSnapshot)" where
  "require_initialized i =
     (if im_state i \<noteq> Initialized then Inl (ReturnResult not_initialized) else Inr (i, None, default_snapshot))"

definition mapped_reply :: "vendor_reply \<Rightarrow> impl \<Rightarrow> sdk_return \<times> impl" where
  "mapped_reply r i = (ReturnResult (map_vendor_result (vr_code r)), i)"

definition swap_in :: "SubscriptionTopic \<Rightarrow> callback option \<Rightarrow> impl \<Rightarrow> sdk_return + (impl \<times> callback option \<times> SdkSnapshot)" where
  "swap_in topic cb i =
     (if im_state i \<noteq> Initialized then Inl (ReturnResult not_initialized)
      else Inr (set_topic_callback topic cb i, topic_callback topic i, default_snapshot))"

definition keep_or_swap_back :: "SubscriptionTopic \<Rightarrow> callback option \<Rightarrow> vendor_reply \<Rightarrow> impl \<Rightarrow> sdk_return \<times> impl" where
  "keep_or_swap_back topic saved r i =
     (if vr_code r \<noteq> kSdkResSuccess
      then (ReturnResult (map_vendor_result (vr_code r)), set_topic_callback topic saved i)
      else (ReturnResult (ok ''success''), i))"

definition init :: "callback option \<Rightarrow> sdk_method" where
  "init callbacks = \<lparr>
     m_enter = (\<lambda>i. case init_enter callbacks i of
         Inl r \<Rightarrow> Inl (ReturnResult r) | Inr j \<Rightarrow> Inr (j, None, default_snapshot)),
     m_bound = bk_init,
     m_unbound = (\<lambda>saved i. init_unbound i),
     m_tail = (\<lambda>bk saved out r i.
         if vr_code r \<noteq> kSdkResSuccess then (ReturnResult (map_vendor_result (vr_code r)), init_failed i)
         else (ReturnResult (ok ''success''), init_commit i))\<rparr>"

definition heartbeat :: sdk_method where
  "heartbeat = \<lparr>m_enter = require_initialized, m_bound = bk_heartbeat, m_unbound = (\<lambda>saved i. i),
     m_tail = (\<lambda>bk saved out r i. mapped_reply r i)\<rparr>"

definition request_authority :: sdk_method where
  "request_authority = \<lparr>m_enter = require_initialized, m_bound = bk_request_authority, m_unbound = (\<lambda>saved i. i),
     m_tail = (\<lambda>bk saved out r i. mapped_reply r i)\<rparr>"

definition subscribe_imu :: "callback option \<Rightarrow> sdk_method" where
  "subscribe_imu callback = \<lparr>m_enter = swap_in Imu callback, m_bound = bk_subscribe,
     m_unbound = set_topic_callback Imu, m_tail = (\<lambda>bk saved out r i. keep_or_swap_back Imu saved r i)\<rparr>"

definition subscribe_sport :: "callback option \<Rightarrow> sdk_method" where
  "subscribe_sport callback = \<lparr>m_enter = swap_in Sport callback, m_bound = bk_subscribe,
     m_unbound = set_topic_callback Sport, m_tail = (\<lambda>bk saved out r i. keep_or_swap_back Sport saved r i)\<rparr>"

definition subscribe_lidar :: sdk_method where
  "subscribe_lidar = \<lparr>m_enter = swap_in Lidar (Some discard_callback), m_bound = bk_subscribe,
     m_unbound = set_topic_callback Lidar, m_tail = (\<lambda>bk saved out r i. keep_or_swap_back Lidar saved r i)\<rparr>"

definition move :: sdk_method where
  "move = \<lparr>m_enter = require_initialized, m_bound = bk_move, m_unbound = (\<lambda>saved i. i),
     m_tail = (\<lambda>bk saved out r i. mapped_reply r i)\<rparr>"

definition set_mode :: sdk_method where
  "set_mode = \<lparr>m_enter = require_initialized, m_bound = bk_set_mode, m_unbound = (\<lambda>saved i. i),
     m_tail = (\<lambda>bk saved out r i. mapped_reply r i)\<rparr>"

definition snapshot :: sdk_method where
  "snapshot = \<lparr>
     m_enter = (\<lambda>i. if im_state i \<noteq> Initialized then Inl (ReturnSnapshot default_snapshot)
                    else Inr (i, None, snapshot_cached i default_snapshot)),
     m_bound = (\<lambda>bk. True), m_unbound = (\<lambda>saved i. i),
     m_tail = (\<lambda>bk saved out r i. (ReturnSnapshot (store_getters bk r out), i))\<rparr>"

fun method_of :: "sdk_call \<Rightarrow> sdk_method" where
  "method_of (Init callbacks timeout) = init callbacks"
| "method_of (Heartbeat timeout) = heartbeat"
| "method_of (RequestAuthority sdk timeout) = request_authority"
| "method_of (SubscribeImu f callback timeout) = subscribe_imu callback"
| "method_of (SubscribeSport f callback timeout) = subscribe_sport callback"
| "method_of (SubscribeLidar f timeout) = subscribe_lidar"
| "method_of (Move v timeout) = move"
| "method_of (SetMode mode timeout) = set_mode"
| "method_of Snapshot = snapshot"

abbreviation enter :: "sdk_call \<Rightarrow> impl \<Rightarrow> sdk_return + (impl \<times> callback option \<times> SdkSnapshot)" where
  "enter c \<equiv> m_enter (method_of c)"

abbreviation bound :: "backend \<Rightarrow> sdk_call \<Rightarrow> bool" where
  "bound bk c \<equiv> m_bound (method_of c) bk"

abbreviation unbound_exit :: "sdk_call \<Rightarrow> callback option \<Rightarrow> impl \<Rightarrow> impl" where
  "unbound_exit c \<equiv> m_unbound (method_of c)"

abbreviation tail :: "backend \<Rightarrow> sdk_call \<Rightarrow> callback option \<Rightarrow> SdkSnapshot \<Rightarrow> vendor_reply \<Rightarrow> impl \<Rightarrow> sdk_return \<times> impl" where
  "tail bk c saved out r i \<equiv> m_tail (method_of c) bk saved out r i"

lemmas method_defs = init_def heartbeat_def request_authority_def subscribe_imu_def subscribe_sport_def subscribe_lidar_def
  move_def set_mode_def snapshot_def require_initialized_def mapped_reply_def swap_in_def keep_or_swap_back_def

text \<open>The return when the checkpoint ran the teardown.\<close>

definition deferred_return :: "backend \<Rightarrow> sdk_call \<Rightarrow> SdkSnapshot \<Rightarrow> vendor_reply \<Rightarrow> sdk_return" where
  "deferred_return bk c out r =
     (if c = Snapshot then ReturnSnapshot (store_getters bk r out) else ReturnResult deinit_requested)"

text \<open>A public method called from a project callback.\<close>

definition reentrant_call :: "sdk_call \<Rightarrow> impl \<Rightarrow> sdk_return" where
  "reentrant_call c i =
     (if c = Snapshot then ReturnSnapshot (snapshot_cached i default_snapshot) else ReturnResult reentrant_failure)"

definition reentrant_deinit :: "impl \<Rightarrow> impl" where
  "reentrant_deinit i = i\<lparr>deferred_teardown := True\<rparr>"

section \<open>Threads\<close>

text \<open>
  Where a thread is. \<open>Want\<close> and \<open>EnsureWant\<close> wait for a mutex; from \<open>Entered\<close> to \<open>Tail\<close>
  the thread holds the lifecycle mutex; from \<open>Ensure\<close> to \<open>Publish\<close> it holds the teardown mutex, and in
  \<open>Closing\<close> the lifecycle mutex too. The return value travels with the teardown.
\<close>

datatype pc =
  Idle
| Want sdk_call
| Entered sdk_call "callback option" SdkSnapshot
| InVendor sdk_call "callback option" SdkSnapshot
| AfterVendor sdk_call "callback option" SdkSnapshot vendor_reply
| Tail sdk_call "callback option" SdkSnapshot vendor_reply
| EnsureWant sdk_return
| Ensure sdk_return
| TeardownWant sdk_return
| Closing bool bool sdk_return
| Draining bool sdk_return
| Publish sdk_return
| Returned sdk_return
| Threw

type_synonym tid = nat

record world =
  im :: impl
  lifecycle :: "tid option"
  teardown :: "tid option"
  pcs :: "tid \<Rightarrow> pc"
  running_callback :: "tid \<Rightarrow> callback option option"
  vendor_up :: bool

datatype label =
  Call tid sdk_call | CallDeinit tid | Enter tid | CheckBound tid | VendorReturns tid vendor_reply | VendorThrows tid
| Checkpoint tid | Finish tid | TakeTeardown tid | EnsureCheck tid | Close tid | VendorDeinit tid
| Drained tid | PublishState tid | Return tid
| Deliver tid vendor_event | Reenter tid sdk_call | ReenterDeinit tid | EndDelivery tid

definition goto :: "tid \<Rightarrow> pc \<Rightarrow> world \<Rightarrow> world" where
  "goto t p w = w\<lparr>pcs := (pcs w)(t := p)\<rparr>"

definition unlock :: "world \<Rightarrow> world" where
  "unlock w = w\<lparr>lifecycle := None\<rparr>"

text \<open>On which threads the vendor may deliver: its own, and those inside one of its functions.\<close>

fun vendor_runs :: "pc \<Rightarrow> bool" where
  "vendor_runs Idle = True"
| "vendor_runs (InVendor c saved out) = True"
| "vendor_runs (Closing need run_deinit r) = run_deinit"
| "vendor_runs _ = False"

definition step_enter :: "tid \<Rightarrow> sdk_call \<Rightarrow> world \<Rightarrow> world" where
  "step_enter t c w = (case enter c (im w) of
       Inl r \<Rightarrow> goto t (Returned r) w
     | Inr (i, saved, out) \<Rightarrow> goto t (Entered c saved out) (w\<lparr>im := i, lifecycle := Some t\<rparr>))"

definition step_bound :: "backend \<Rightarrow> tid \<Rightarrow> sdk_call \<Rightarrow> callback option \<Rightarrow> SdkSnapshot \<Rightarrow> world \<Rightarrow> world" where
  "step_bound bk t c saved out w =
     (if bound bk c then goto t (InVendor c saved out) w
      else goto t (Returned (ReturnResult backend_unbound)) (unlock (w\<lparr>im := unbound_exit c saved (im w)\<rparr>)))"

definition step_checkpoint :: "backend \<Rightarrow> tid \<Rightarrow> sdk_call \<Rightarrow> callback option \<Rightarrow> SdkSnapshot \<Rightarrow> vendor_reply \<Rightarrow> world \<Rightarrow> world" where
  "step_checkpoint bk t c saved out r w =
     (let (claimed, i) = finish_with_deferred_teardown (im w); w = w\<lparr>im := i\<rparr> in
      if claimed then goto t (EnsureWant (deferred_return bk c out r)) (unlock w)
      else goto t (Tail c saved out r) w)"

definition step_finish :: "backend \<Rightarrow> tid \<Rightarrow> sdk_call \<Rightarrow> callback option \<Rightarrow> SdkSnapshot \<Rightarrow> vendor_reply \<Rightarrow> world \<Rightarrow> world" where
  "step_finish bk t c saved out r w =
     (let (res, i) = tail bk c saved out r (im w) in goto t (Returned res) (unlock (w\<lparr>im := i\<rparr>)))"

definition step_ensure :: "tid \<Rightarrow> sdk_return \<Rightarrow> world \<Rightarrow> world" where
  "step_ensure t r w =
     (let (finished, i) = ensure_check (im w); w = w\<lparr>im := i\<rparr> in
      if finished then goto t (Returned r) (w\<lparr>teardown := None\<rparr>) else goto t (TeardownWant r) w)"

definition step_close :: "backend \<Rightarrow> tid \<Rightarrow> sdk_return \<Rightarrow> world \<Rightarrow> world" where
  "step_close bk t r w =
     (let (need_wait, run_deinit, i) = teardown_close bk (im w)
      in goto t (Closing need_wait run_deinit r) (w\<lparr>im := i, lifecycle := Some t\<rparr>))"

definition step_deliver :: "backend \<Rightarrow> tid \<Rightarrow> vendor_event \<Rightarrow> world \<Rightarrow> world" where
  "step_deliver bk t e w =
     (let (cb, i) = vendor_callback bk e (im w)
      in w\<lparr>im := i, running_callback := (running_callback w)(t := cb)\<rparr>)"

text \<open>The steps; \<open>None\<close> where a step is not enabled.\<close>

fun sdk_next :: "backend \<Rightarrow> label \<Rightarrow> world \<Rightarrow> world option" where
  "sdk_next bk (Call t c) w =
     (if pcs w t = Idle \<and> running_callback w t = None then Some (goto t (Want c) w) else None)"
| "sdk_next bk (CallDeinit t) w =
     (if pcs w t = Idle \<and> running_callback w t = None then Some (goto t (EnsureWant ReturnVoid) w) else None)"
| "sdk_next bk (Enter t) w =
     (case pcs w t of Want c \<Rightarrow> if lifecycle w = None then Some (step_enter t c w) else None | _ \<Rightarrow> None)"
| "sdk_next bk (CheckBound t) w =
     (case pcs w t of Entered c saved out \<Rightarrow> Some (step_bound bk t c saved out w) | _ \<Rightarrow> None)"
| "sdk_next bk (VendorReturns t r) w =
     (case pcs w t of
        InVendor c saved out \<Rightarrow>
          if running_callback w t = None
          then Some (goto t (AfterVendor c saved out r)
                       (w\<lparr>vendor_up := vendor_up w \<or> (is_init c \<and> vr_code r = kSdkResSuccess)\<rparr>))
          else None
      | _ \<Rightarrow> None)"
| "sdk_next bk (VendorThrows t) w =
     (case pcs w t of
        InVendor c saved out \<Rightarrow> if running_callback w t = None then Some (goto t Threw (unlock w)) else None
      | _ \<Rightarrow> None)"
| "sdk_next bk (Checkpoint t) w =
     (case pcs w t of AfterVendor c saved out r \<Rightarrow> Some (step_checkpoint bk t c saved out r w) | _ \<Rightarrow> None)"
| "sdk_next bk (Finish t) w =
     (case pcs w t of Tail c saved out r \<Rightarrow> Some (step_finish bk t c saved out r w) | _ \<Rightarrow> None)"
| "sdk_next bk (TakeTeardown t) w =
     (case pcs w t of
        EnsureWant r \<Rightarrow> if teardown w = None then Some (goto t (Ensure r) (w\<lparr>teardown := Some t\<rparr>)) else None
      | _ \<Rightarrow> None)"
| "sdk_next bk (EnsureCheck t) w = (case pcs w t of Ensure r \<Rightarrow> Some (step_ensure t r w) | _ \<Rightarrow> None)"
| "sdk_next bk (Close t) w =
     (case pcs w t of TeardownWant r \<Rightarrow> if lifecycle w = None then Some (step_close bk t r w) else None | _ \<Rightarrow> None)"
| "sdk_next bk (VendorDeinit t) w =
     (case pcs w t of
        Closing need_wait run_deinit r \<Rightarrow>
          if running_callback w t = None
          then Some (goto t (Draining need_wait r) (unlock (w\<lparr>vendor_up := vendor_up w \<and> \<not> run_deinit\<rparr>)))
          else None
      | _ \<Rightarrow> None)"
| "sdk_next bk (Drained t) w =
     (case pcs w t of
        Draining need_wait r \<Rightarrow> if need_wait \<and> in_flight (im w) \<noteq> 0 then None else Some (goto t (Publish r) w)
      | _ \<Rightarrow> None)"
| "sdk_next bk (PublishState t) w =
     (case pcs w t of Publish r \<Rightarrow> Some (goto t (Ensure r) (w\<lparr>im := teardown_publish (im w)\<rparr>)) | _ \<Rightarrow> None)"
| "sdk_next bk (Return t) w =
     (case pcs w t of Returned r \<Rightarrow> Some (goto t Idle w) | Threw \<Rightarrow> Some (goto t Idle w) | _ \<Rightarrow> None)"
| "sdk_next bk (Deliver t e) w =
     (if running_callback w t = None \<and> vendor_runs (pcs w t) then Some (step_deliver bk t e w) else None)"
| "sdk_next bk (Reenter t c) w = (case running_callback w t of Some (Some cb) \<Rightarrow> Some w | _ \<Rightarrow> None)"
| "sdk_next bk (ReenterDeinit t) w =
     (case running_callback w t of Some (Some cb) \<Rightarrow> Some (w\<lparr>im := reentrant_deinit (im w)\<rparr>) | _ \<Rightarrow> None)"
| "sdk_next bk (EndDelivery t) w =
     (case running_callback w t of
        Some cb \<Rightarrow> Some (w\<lparr>im := end_delivery (im w), running_callback := (running_callback w)(t := None)\<rparr>)
      | None \<Rightarrow> None)"

definition sdk_start :: "world \<Rightarrow> bool" where
  "sdk_start w \<longleftrightarrow> w = \<lparr>im = DirectAstrallSdk, lifecycle = None, teardown = None, pcs = (\<lambda>t. Idle),
     running_callback = (\<lambda>t. None), vendor_up = False\<rparr>"

definition sdk_step :: "backend \<Rightarrow> world \<Rightarrow> label \<Rightarrow> world \<Rightarrow> bool" where
  "sdk_step bk w l v \<longleftrightarrow> sdk_next bk l w = Some v"

end
