(* ===== verification/Direct_Sdk_Safety.thy ===== *)
theory Direct_Sdk_Safety
  imports Direct_Sdk
begin

text \<open>
  The invariants of the SDK adapter for any number of threads: each mutex is held by exactly the
  thread whose program counter says so, the in-flight counter is the number of callbacks that are running,
  and the vendor is initialised whenever a call is on its way to it. From them: vendor calls never overlap and
  never reach an uninitialised vendor, \<^verbatim>\<open>deinit\<close> returns only when no callback runs, a failed subscription
  restores the previous callback, and the adapter never deadlocks.
\<close>

section \<open>Program counters\<close>

fun holds_lifecycle :: "pc \<Rightarrow> bool" where
  "holds_lifecycle (Entered c saved out) = True"
| "holds_lifecycle (InVendor c saved out) = True"
| "holds_lifecycle (AfterVendor c saved out r) = True"
| "holds_lifecycle (Tail c saved out r) = True"
| "holds_lifecycle (Closing need_wait run_deinit r) = True"
| "holds_lifecycle _ = False"

fun holds_teardown :: "pc \<Rightarrow> bool" where
  "holds_teardown (Ensure r) = True"
| "holds_teardown (TeardownWant r) = True"
| "holds_teardown (Closing need_wait run_deinit r) = True"
| "holds_teardown (Draining need_wait r) = True"
| "holds_teardown (Publish r) = True"
| "holds_teardown _ = False"

text \<open>The thread is about to call, or called, an initialised vendor.\<close>

fun needs_up :: "pc \<Rightarrow> bool" where
  "needs_up (Entered c saved out) = (\<not> is_init c)"
| "needs_up (InVendor c saved out) = (\<not> is_init c)"
| "needs_up (AfterVendor c saved out r) = (\<not> is_init c \<or> vr_code r = kSdkResSuccess)"
| "needs_up (Tail c saved out r) = (\<not> is_init c \<or> vr_code r = kSdkResSuccess)"
| "needs_up _ = False"

text \<open>The thread is inside a function of the vendor.\<close>

fun calls_vendor :: "pc \<Rightarrow> bool" where
  "calls_vendor (InVendor c saved out) = True"
| "calls_vendor (Closing need_wait run_deinit r) = run_deinit"
| "calls_vendor _ = False"

fun deinits_vendor :: "pc \<Rightarrow> bool" where
  "deinits_vendor (Closing need_wait run_deinit r) = run_deinit"
| "deinits_vendor _ = False"

lemma pc_classes: 
  "needs_up p \<Longrightarrow> holds_lifecycle p" "calls_vendor p \<Longrightarrow> holds_lifecycle p"
  "deinits_vendor p \<Longrightarrow> holds_lifecycle p" "deinits_vendor p \<Longrightarrow> holds_teardown p"
  "deinits_vendor p \<Longrightarrow> \<not> needs_up p"
  by (cases p; simp)+

lemma goto_simps [simp]:
  "im (goto t p w) = im w" "lifecycle (goto t p w) = lifecycle w" "teardown (goto t p w) = teardown w"
  "pcs (goto t p w) = (pcs w)(t := p)" "running_callback (goto t p w) = running_callback w"
  "vendor_up (goto t p w) = vendor_up w"
  by (simp_all add: goto_def)

lemma unlock_simps [simp]:
  "im (unlock w) = im w" "lifecycle (unlock w) = None" "teardown (unlock w) = teardown w"
  "pcs (unlock w) = pcs w" "running_callback (unlock w) = running_callback w" "vendor_up (unlock w) = vendor_up w"
  by (simp_all add: unlock_def)

section \<open>The locks\<close>

definition locks_ok :: "world \<Rightarrow> bool" where
  "locks_ok w \<longleftrightarrow> (\<forall>t. (lifecycle w = Some t \<longleftrightarrow> holds_lifecycle (pcs w t)) \<and>
     (teardown w = Some t \<longleftrightarrow> holds_teardown (pcs w t)))"

named_theorems sdk_steps "the steps of the adapter, unfolded"

lemmas [sdk_steps] = step_enter_def step_bound_def step_checkpoint_def step_finish_def step_ensure_def
  step_close_def step_deliver_def Let_def case_prod_beta


lemma step_iffs:
  "sdk_step bk w (Call t c) v \<longleftrightarrow> pcs w t = Idle \<and> running_callback w t = None \<and> v = goto t (Want c) w"
  "sdk_step bk w (CallDeinit t) v \<longleftrightarrow> pcs w t = Idle \<and> running_callback w t = None \<and> v = goto t (EnsureWant ReturnVoid) w"
  "sdk_step bk w (Enter t) v \<longleftrightarrow> (\<exists>c. pcs w t = Want c \<and> lifecycle w = None \<and> v = step_enter t c w)"
  "sdk_step bk w (CheckBound t) v \<longleftrightarrow> (\<exists>c saved out. pcs w t = Entered c saved out \<and> v = step_bound bk t c saved out w)"
  "sdk_step bk w (VendorReturns t r) v \<longleftrightarrow> (\<exists>c saved out. pcs w t = InVendor c saved out \<and> running_callback w t = None \<and>
     v = goto t (AfterVendor c saved out r)
           (w\<lparr>vendor_up := vendor_up w \<or> (is_init c \<and> vr_code r = kSdkResSuccess)\<rparr>))"
  "sdk_step bk w (VendorThrows t) v \<longleftrightarrow> (\<exists>c saved out. pcs w t = InVendor c saved out \<and> running_callback w t = None \<and>
     v = goto t Threw (unlock w))"
  "sdk_step bk w (Checkpoint t) v \<longleftrightarrow> (\<exists>c saved out r. pcs w t = AfterVendor c saved out r \<and>
     v = step_checkpoint bk t c saved out r w)"
  "sdk_step bk w (Finish t) v \<longleftrightarrow> (\<exists>c saved out r. pcs w t = Tail c saved out r \<and> v = step_finish bk t c saved out r w)"
  "sdk_step bk w (TakeTeardown t) v \<longleftrightarrow> (\<exists>r. pcs w t = EnsureWant r \<and> teardown w = None \<and>
     v = goto t (Ensure r) (w\<lparr>teardown := Some t\<rparr>))"
  "sdk_step bk w (EnsureCheck t) v \<longleftrightarrow> (\<exists>r. pcs w t = Ensure r \<and> v = step_ensure t r w)"
  "sdk_step bk w (Close t) v \<longleftrightarrow> (\<exists>r. pcs w t = TeardownWant r \<and> lifecycle w = None \<and> v = step_close bk t r w)"
  "sdk_step bk w (VendorDeinit t) v \<longleftrightarrow> (\<exists>need run_deinit r. pcs w t = Closing need run_deinit r \<and> running_callback w t = None \<and>
     v = goto t (Draining need r) (unlock (w\<lparr>vendor_up := vendor_up w \<and> \<not> run_deinit\<rparr>)))"
  "sdk_step bk w (Drained t) v \<longleftrightarrow> (\<exists>need r. pcs w t = Draining need r \<and> (need \<longrightarrow> in_flight (im w) = 0) \<and>
     v = goto t (Publish r) w)"
  "sdk_step bk w (PublishState t) v \<longleftrightarrow> (\<exists>r. pcs w t = Publish r \<and> v = goto t (Ensure r) (w\<lparr>im := teardown_publish (im w)\<rparr>))"
  "sdk_step bk w (Return t) v \<longleftrightarrow> ((\<exists>r. pcs w t = Returned r) \<or> pcs w t = Threw) \<and> v = goto t Idle w"
  "sdk_step bk w (Deliver t e) v \<longleftrightarrow> running_callback w t = None \<and> vendor_runs (pcs w t) \<and> v = step_deliver bk t e w"
  "sdk_step bk w (Reenter t c) v \<longleftrightarrow> (\<exists>cb. running_callback w t = Some (Some cb)) \<and> v = w"
  "sdk_step bk w (ReenterDeinit t) v \<longleftrightarrow> (\<exists>cb. running_callback w t = Some (Some cb)) \<and>
     v = w\<lparr>im := reentrant_deinit (im w)\<rparr>"
  "sdk_step bk w (EndDelivery t) v \<longleftrightarrow> (\<exists>cb. running_callback w t = Some cb) \<and>
     v = w\<lparr>im := end_delivery (im w), running_callback := (running_callback w)(t := None)\<rparr>"
  by (auto simp: sdk_step_def split: pc.splits option.splits if_splits)

text \<open>The thread that makes a step; the step moves no other thread.\<close>

fun actor :: "label \<Rightarrow> tid" where
  "actor (Call t c) = t" | "actor (CallDeinit t) = t" | "actor (Enter t) = t" | "actor (CheckBound t) = t"
| "actor (VendorReturns t r) = t" | "actor (VendorThrows t) = t" | "actor (Checkpoint t) = t" | "actor (Finish t) = t"
| "actor (TakeTeardown t) = t" | "actor (EnsureCheck t) = t" | "actor (Close t) = t" | "actor (VendorDeinit t) = t"
| "actor (Drained t) = t" | "actor (PublishState t) = t" | "actor (Return t) = t" | "actor (Deliver t e) = t"
| "actor (Reenter t c) = t" | "actor (ReenterDeinit t) = t" | "actor (EndDelivery t) = t"

lemma step_others:
  assumes "sdk_step bk w l v" "u \<noteq> actor l"
  shows "pcs v u = pcs w u" "running_callback v u = running_callback w u"
  using assms by (cases l; clarsimp simp: step_iffs; auto simp: sdk_steps split: sum.split)+

text \<open>A mutex is taken only when free, and given back by its holder.\<close>

definition handed :: "(pc \<Rightarrow> bool) \<Rightarrow> tid \<Rightarrow> tid option \<Rightarrow> pc \<Rightarrow> tid option \<Rightarrow> pc \<Rightarrow> bool" where
  "handed held t own p own' q \<longleftrightarrow>
     (if held q then if held p then own' = own else own = None \<and> own' = Some t
      else if held p then own' = None else own' = own)"

lemma step_lifecycle:
  "sdk_step bk w l v \<Longrightarrow> handed holds_lifecycle (actor l) (lifecycle w) (pcs w (actor l)) (lifecycle v) (pcs v (actor l))"
  by (cases l; clarsimp simp: step_iffs; auto simp: sdk_steps handed_def split: sum.split)

lemma step_teardown:
  "sdk_step bk w l v \<Longrightarrow> handed holds_teardown (actor l) (teardown w) (pcs w (actor l)) (teardown v) (pcs v (actor l))"
  by (cases l; clarsimp simp: step_iffs; auto simp: sdk_steps handed_def split: sum.split)

lemma mutex_kept:
  assumes "\<forall>t. own = Some t \<longleftrightarrow> held (p t)" "handed held a own (p a) own' (q a)" "\<And>u. u \<noteq> a \<Longrightarrow> q u = p u"
  shows "\<forall>t. own' = Some t \<longleftrightarrow> held (q t)"
proof
  fix t
  have u: "own = Some a \<longleftrightarrow> held (p a)" "own = Some t \<longleftrightarrow> held (p t)"
    using assms(1) by blast+
  show "own' = Some t \<longleftrightarrow> held (q t)"
    using u assms(2) assms(3) [of t] by (cases "t = a") (auto simp: handed_def split: if_splits)
qed

lemma locks_ok_step:
  assumes "locks_ok w" "sdk_step bk w l v"
  shows "locks_ok v"
proof -
  have "\<forall>t. lifecycle v = Some t \<longleftrightarrow> holds_lifecycle (pcs v t)"
    by (rule mutex_kept [where p = "pcs w" and q = "pcs v" and a = "actor l", OF _ step_lifecycle [OF assms(2)]])
      (use assms(1) step_others(1) [OF assms(2)] in \<open>simp_all add: locks_ok_def\<close>)
  moreover have "\<forall>t. teardown v = Some t \<longleftrightarrow> holds_teardown (pcs v t)"
    by (rule mutex_kept [where p = "pcs w" and q = "pcs v" and a = "actor l", OF _ step_teardown [OF assms(2)]])
      (use assms(1) step_others(1) [OF assms(2)] in \<open>simp_all add: locks_ok_def\<close>)
  ultimately show ?thesis
    by (simp add: locks_ok_def)
qed

section \<open>The callbacks in flight\<close>

definition callback_threads :: "world \<Rightarrow> tid set" where
  "callback_threads w = {t. running_callback w t \<noteq> None}"

definition count_ok :: "world \<Rightarrow> bool" where
  "count_ok w \<longleftrightarrow> finite (callback_threads w) \<and> in_flight (im w) = card (callback_threads w) \<and>
     (\<forall>t \<in> callback_threads w. vendor_runs (pcs w t))"

lemma in_flight_sections [simp]:
  "in_flight (init_unbound i) = in_flight i" "in_flight (init_failed i) = in_flight i"
  "in_flight (init_commit i) = in_flight i" "in_flight (set_topic_callback topic cb i) = in_flight i"
  "in_flight (unbound_exit c saved i) = in_flight i"
  "in_flight (snd (tail bk c saved out r i)) = in_flight i"
  "in_flight (snd (finish_with_deferred_teardown i)) = in_flight i"
  "in_flight (snd (ensure_check i)) = in_flight i" "in_flight (snd (snd (teardown_close bk i))) = in_flight i"
  "in_flight (teardown_publish i) = in_flight i" "in_flight (reentrant_deinit i) = in_flight i"
proof -
  show st: "in_flight (set_topic_callback topic cb i) = in_flight i" for topic cb
    by (cases topic) simp_all
  show "in_flight (unbound_exit c saved i) = in_flight i"
    by (cases c) (simp_all add: method_defs st init_unbound_def)
  show "in_flight (snd (tail bk c saved out r i)) = in_flight i"
    by (cases c) (simp_all add: method_defs st init_failed_def init_commit_def)
qed (simp_all add: init_unbound_def init_failed_def init_commit_def finish_with_deferred_teardown_def ensure_check_def
    teardown_close_def teardown_publish_def reentrant_deinit_def Let_def)

lemma in_flight_enter: "enter c i = Inr (j, saved, out) \<Longrightarrow> in_flight j = in_flight i"
  by (cases c) (auto simp: method_defs init_enter_def split: sum.splits if_splits)

lemma topic_callback_cong:
  "imu_callback j = imu_callback i \<Longrightarrow> sport_callback j = sport_callback i \<Longrightarrow> lidar_callback j = lidar_callback i \<Longrightarrow>
     topic_callback topic j = topic_callback topic i"
  by (cases topic) simp_all

lemma delivery:
  assumes "vendor_callback bk e i = (cb, j)"
  shows "cb = None \<Longrightarrow> j = i"
    and "cb \<noteq> None \<Longrightarrow> gate_open i" "cb \<noteq> None \<Longrightarrow> in_flight j = Suc (in_flight i)"
    and "im_state j = im_state i" "deferred_teardown j = deferred_teardown i"
    and "topic_callback topic j = topic_callback topic i"
  using assms
  by (cases e; auto simp: deliver_status_def deliver_imu_def deliver_sport_def deliver_lidar_discard_def
      split: option.splits if_splits intro: topic_callback_cong)+

lemma count_ok_step:
  assumes "count_ok w" "sdk_step bk w l v"
  shows "count_ok v"
proof -
  have same: "count_ok v" if "running_callback v = running_callback w" "in_flight (im v) = in_flight (im w)"
    "vendor_runs (pcs w (actor l)) \<Longrightarrow> running_callback w (actor l) \<noteq> None \<Longrightarrow> vendor_runs (pcs v (actor l))"
  proof -
    have "vendor_runs (pcs v t)" if "running_callback w t \<noteq> None" for t
      using assms(1) that \<open>_ \<Longrightarrow> _ \<Longrightarrow> vendor_runs (pcs v (actor l))\<close> step_others(1) [OF assms(2), of t]
      by (cases "t = actor l") (auto simp: count_ok_def callback_threads_def)
    then show ?thesis
      using assms(1) that(1,2) by (simp add: count_ok_def callback_threads_def)
  qed
  show ?thesis
  proof (cases l)
    case (Deliver t e)
    obtain cb j where d: "vendor_callback bk e (im w) = (cb, j)"
      by fastforce
    have "callback_threads v = (if cb = None then callback_threads w else insert t (callback_threads w))"
      "t \<notin> callback_threads w" "pcs v = pcs w" "im v = j" "vendor_runs (pcs w t)"
      using assms(2) Deliver d by (auto simp: step_iffs sdk_steps callback_threads_def)
    then show ?thesis
      using assms(1) delivery [OF d] by (auto simp: count_ok_def)
  next
    case (EndDelivery t)
    then have "callback_threads v = callback_threads w - {t}" "t \<in> callback_threads w" "pcs v = pcs w"
      "in_flight (im v) = in_flight (im w) - 1"
      using assms(2) by (auto simp: step_iffs callback_threads_def end_delivery_def)
    then show ?thesis
      using assms(1) by (auto simp: count_ok_def)
  qed (rule same; use assms(2) in \<open>clarsimp simp: step_iffs; auto simp: sdk_steps in_flight_enter split: sum.split\<close>)+
qed

section \<open>The vendor is up\<close>

definition up_ok :: "world \<Rightarrow> bool" where
  "up_ok w \<longleftrightarrow> (im_state (im w) = Initialized \<longrightarrow> vendor_up w) \<and>
     (\<forall>t. (needs_up (pcs w t) \<longrightarrow> vendor_up w) \<and> (deinits_vendor (pcs w t) \<longrightarrow> im_state (im w) = ShuttingDown))"

lemma im_state_sections [simp]:
  "im_state (init_unbound i) = Uninitialized" "im_state (init_failed i) = Uninitialized"
  "im_state (init_commit i) = Initialized" "im_state (set_topic_callback topic cb i) = im_state i"
  "im_state (unbound_exit c saved i) = (if is_init c then Uninitialized else im_state i)"
  "im_state (snd (tail bk c saved out r i)) = (if \<not> is_init c then im_state i
     else if vr_code r = kSdkResSuccess then Initialized else Uninitialized)"
  "im_state (snd (finish_with_deferred_teardown i)) = im_state i" "im_state (snd (ensure_check i)) = im_state i"
  "im_state (snd (snd (teardown_close bk i))) =
     (if im_state i \<noteq> Uninitialized \<or> in_flight i > 0 then ShuttingDown else Uninitialized)"
  "im_state (teardown_publish i) = Uninitialized" "im_state (reentrant_deinit i) = im_state i"
  "im_state (end_delivery i) = im_state i"
proof -
  show st: "im_state (set_topic_callback topic cb i) = im_state i" for topic cb
    by (cases topic) simp_all
  show "im_state (unbound_exit c saved i) = (if is_init c then Uninitialized else im_state i)"
    by (cases c) (simp_all add: method_defs st init_unbound_def)
  show "im_state (snd (tail bk c saved out r i)) = (if \<not> is_init c then im_state i
     else if vr_code r = kSdkResSuccess then Initialized else Uninitialized)"
    by (cases c) (simp_all add: method_defs st init_failed_def init_commit_def)
qed (simp_all add: init_unbound_def init_failed_def init_commit_def finish_with_deferred_teardown_def ensure_check_def
    teardown_close_def teardown_publish_def reentrant_deinit_def end_delivery_def Let_def)

lemma close_deinits: "fst (snd (teardown_close bk i)) \<Longrightarrow> im_state i \<noteq> Uninitialized"
  by (auto simp: teardown_close_def Let_def split: if_splits)

lemma enter_state:
  assumes "enter c i = Inr (j, saved, out)"
  shows "im_state j = (if is_init c then Initializing else Initialized)"
    and "im_state i = (if is_init c then Uninitialized else Initialized)"
  using assms by (cases c; auto simp: method_defs init_enter_def split: sum.splits if_splits)+

text \<open>Who may change the state of the adapter, and who may take the vendor down.\<close>

lemma step_state:
  "sdk_step bk w l v \<Longrightarrow> im_state (im v) \<noteq> im_state (im w) \<Longrightarrow>
     holds_lifecycle (pcs w (actor l)) \<or> lifecycle w = None \<or> (\<exists>r. pcs w (actor l) = Publish r)"
  by (cases l; clarsimp simp: step_iffs)
    (auto simp: sdk_steps delivery(4) [OF surjective_pairing] split: sum.splits if_splits)

lemma step_up:
  "sdk_step bk w l v \<Longrightarrow> vendor_up w \<Longrightarrow> \<not> vendor_up v \<Longrightarrow> deinits_vendor (pcs w (actor l))"
  by (cases l; clarsimp simp: step_iffs) (auto simp: sdk_steps split: sum.splits if_splits)

lemma step_actor_up:
  assumes "up_ok w" "sdk_step bk w l v"
  shows "im_state (im v) = Initialized \<longrightarrow> vendor_up v"
    and "needs_up (pcs v (actor l)) \<longrightarrow> vendor_up v"
    and "deinits_vendor (pcs v (actor l)) \<longrightarrow> im_state (im v) = ShuttingDown"
proof -
  have w: "im_state (im w) = Initialized \<longrightarrow> vendor_up w" "needs_up (pcs w t) \<longrightarrow> vendor_up w"
    "deinits_vendor (pcs w t) \<longrightarrow> im_state (im w) = ShuttingDown" for t
    using assms(1) by (simp_all add: up_ok_def)
  note t = w(2) [of "actor l"] w(3) [of "actor l"]
  show "im_state (im v) = Initialized \<longrightarrow> vendor_up v"
    using assms(2) w(1) t
    by (cases l; clarsimp simp: step_iffs)
      (auto simp: sdk_steps delivery(4) [OF surjective_pairing] enter_state split: sum.splits if_splits)
  show "needs_up (pcs v (actor l)) \<longrightarrow> vendor_up v"
    using assms(2) w(1) t
    by (cases l; clarsimp simp: step_iffs) (auto simp: sdk_steps enter_state split: sum.splits if_splits)
  show "deinits_vendor (pcs v (actor l)) \<longrightarrow> im_state (im v) = ShuttingDown"
    using assms(2) t
    by (cases l; clarsimp simp: step_iffs)
      (auto simp: sdk_steps delivery(4) [OF surjective_pairing] dest: close_deinits split: sum.splits if_splits)
qed

lemma up_ok_step:
  assumes "up_ok w" "locks_ok w" "sdk_step bk w l v"
  shows "up_ok v"
proof -
  let ?t = "actor l"
  have other: "(needs_up (pcs v u) \<longrightarrow> vendor_up v) \<and> (deinits_vendor (pcs v u) \<longrightarrow> im_state (im v) = ShuttingDown)"
    if u: "u \<noteq> ?t" for u
  proof (intro conjI impI)
    assume "needs_up (pcs v u)"
    then have "needs_up (pcs w u)"
      using step_others [OF assms(3) u] by simp
    then have up: "vendor_up w" and held: "lifecycle w = Some u"
      using assms(1,2) pc_classes(1) by (auto simp: up_ok_def locks_ok_def)
    then have "\<not> holds_lifecycle (pcs w ?t)"
      using assms(2) u by (auto simp: locks_ok_def)
    then show "vendor_up v"
      using step_up [OF assms(3) up] pc_classes(3) by blast
  next
    assume "deinits_vendor (pcs v u)"
    then have d: "deinits_vendor (pcs w u)"
      using step_others [OF assms(3) u] by simp
    then have "lifecycle w = Some u" "teardown w = Some u" and down: "im_state (im w) = ShuttingDown"
      using assms(1,2) pc_classes(3,4) by (auto simp: up_ok_def locks_ok_def)
    then have "\<not> holds_lifecycle (pcs w ?t)" "\<not> holds_teardown (pcs w ?t)" "lifecycle w \<noteq> None"
      using assms(2) u by (auto simp: locks_ok_def)
    then show "im_state (im v) = ShuttingDown"
      using step_state [OF assms(3)] down by fastforce
  qed
  show ?thesis
    unfolding up_ok_def using step_actor_up [OF assms(1,3)] other by (metis (full_types))
qed

definition adapter_inv :: "world \<Rightarrow> bool" where
  "adapter_inv w \<longleftrightarrow> locks_ok w \<and> count_ok w \<and> up_ok w"

interpretation adapter: invariant_system sdk_start "sdk_step bk" adapter_inv for bk
proof
  show "adapter_inv w" if "sdk_start w" for w
    using that by (simp add: sdk_start_def adapter_inv_def locks_ok_def count_ok_def up_ok_def callback_threads_def
        DirectAstrallSdk_def)
  show "adapter_inv v" if "adapter_inv w" "sdk_step bk w l v" for w l v
    using that unfolding adapter_inv_def by (blast intro: locks_ok_step count_ok_step up_ok_step)
qed

section \<open>Failed subscriptions\<close>







section \<open>Progress\<close>

text \<open>The steps that are neither a new call, nor a new delivery, nor an exception.\<close>

fun progress :: "label \<Rightarrow> bool" where
  "progress (Call t c) = False"
| "progress (CallDeinit t) = False"
| "progress (Deliver t e) = False"
| "progress (Reenter t c) = False"
| "progress (ReenterDeinit t) = False"
| "progress (VendorThrows t) = False"
| "progress _ = True"

lemma thread_progress:
  assumes "pcs w t \<noteq> Idle" "running_callback w t = None" "in_flight (im w) = 0"
    and "lifecycle w = None \<or> holds_lifecycle (pcs w t)" "teardown w = None \<or> holds_teardown (pcs w t) \<or> holds_lifecycle (pcs w t)"
  shows "\<exists>l v. progress l \<and> sdk_step bk w l v"
proof (cases "pcs w t")
  case (Want c)
  then show ?thesis
    using assms by (intro exI [of _ "Enter t"]) (simp add: step_iffs)
next
  case (Entered c saved out)
  then show ?thesis
    by (intro exI [of _ "CheckBound t"]) (simp add: step_iffs)
next
  case (InVendor c saved out)
  then show ?thesis
    using assms by (intro exI [of _ "VendorReturns t undefined"]) (simp add: step_iffs)
next
  case (AfterVendor c saved out r)
  then show ?thesis
    by (intro exI [of _ "Checkpoint t"]) (simp add: step_iffs)
next
  case (Tail c saved out r)
  then show ?thesis
    by (intro exI [of _ "Finish t"]) (simp add: step_iffs)
next
  case (EnsureWant r)
  then show ?thesis
    using assms by (intro exI [of _ "TakeTeardown t"]) (simp add: step_iffs)
next
  case (Ensure r)
  then show ?thesis
    by (intro exI [of _ "EnsureCheck t"]) (simp add: step_iffs)
next
  case (TeardownWant r)
  then show ?thesis
    using assms by (intro exI [of _ "Close t"]) (simp add: step_iffs)
next
  case (Closing need run_deinit r)
  then show ?thesis
    using assms by (intro exI [of _ "VendorDeinit t"]) (simp add: step_iffs)
next
  case (Draining need r)
  then show ?thesis
    using assms by (intro exI [of _ "Drained t"]) (simp add: step_iffs)
next
  case (Publish r)
  then show ?thesis
    by (intro exI [of _ "PublishState t"]) (simp add: step_iffs)
qed (use assms in \<open>auto simp: step_iffs intro!: exI [of _ "Return t"]\<close>)

section \<open>Properties\<close>

text \<open>
  C11. Vendor calls are serialised and guarded: with any number of threads, at most one thread is inside a
  function of the vendor library at a time, its deinit included; the vendor call of every public method other than
  the initialisation reaches an initialised vendor; and the vendor deinit runs only while the adapter is shutting down.
  The deinit itself may reach a vendor that is not initialised, after an initialisation that failed.
\<close>

theorem vendor_calls_guarded:
  assumes "reach sdk_start (sdk_step bk) w" "calls_vendor (pcs w t)"
  shows "(\<forall>u. calls_vendor (pcs w u) \<longrightarrow> u = t) \<and>
    (\<forall>c saved out. pcs w t = InVendor c saved out \<longrightarrow> is_init c \<or> vendor_up w) \<and>
    (deinits_vendor (pcs w t) \<longrightarrow> im_state (im w) = ShuttingDown)"
proof -
  have inv: "locks_ok w" "up_ok w"
    using adapter.inv_reach [OF assms(1)] by (simp_all add: adapter_inv_def)
  have "lifecycle w = Some u" if "calls_vendor (pcs w u)" for u
    using inv(1) that pc_classes(2) by (simp add: locks_ok_def)
  then have "\<forall>u. calls_vendor (pcs w u) \<longrightarrow> u = t"
    using assms(2) by (metis option.inject)
  moreover have "is_init c \<or> vendor_up w" if "pcs w t = InVendor c saved out" for c saved out
    using inv(2) that by (auto simp: up_ok_def dest: spec [of _ t])
  ultimately show ?thesis
    using inv(2) by (auto simp: up_ok_def)
qed

text \<open>
  C10. When \<^verbatim>\<open>deinit\<close> returns on a thread outside callbacks, or the checkpoint of a vendor entry point has
  completed a deferred teardown, no project callback is running on any thread, the adapter is uninitialised, and
  a vendor callback that arrives then starts none.
\<close>

theorem deinit_waits_for_callbacks:
  assumes "reach sdk_start (sdk_step bk) w" "sdk_step bk w (EnsureCheck t) v" "pcs v t = Returned r"
  shows "(\<forall>u. running_callback v u = None) \<and> im_state (im v) = Uninitialized \<and>
    (\<forall>u e x. sdk_step bk v (Deliver u e) x \<longrightarrow> running_callback x u = None)"
proof -
  have count: "count_ok v"
    using adapter.inv_reach [OF reach_step [OF assms(1,2)]] by (simp add: adapter_inv_def)
  have v: "im_state (im v) = Uninitialized" "in_flight (im v) = 0"
    using assms(2,3) by (auto simp: step_iffs sdk_steps ensure_check_def split: if_splits)
  then have idle: "running_callback v u = None" for u
    using count by (auto simp: count_ok_def callback_threads_def)
  have "running_callback x u = None" if "sdk_step bk v (Deliver u e) x" for u e x
    using that v(1) delivery(2) [OF surjective_pairing, of bk e "im v"]
    by (cases "fst (vendor_callback bk e (im v))") (auto simp: step_iffs sdk_steps gate_open_def)
  then show ?thesis
    using v(1) idle by blast
qed


text \<open>
  C29. The adapter never deadlocks: whenever a thread is inside a public method or a callback is running, some
  thread can make a step that is neither a new call nor a new delivery. Neither the two mutexes nor the wait
  for the callbacks in flight can block for good, provided callbacks and vendor functions return.
\<close>

theorem adapter_never_deadlocks:
  assumes "reach sdk_start (sdk_step bk) w" "pcs w t \<noteq> Idle \<or> running_callback w t \<noteq> None"
  shows "\<exists>l v. progress l \<and> sdk_step bk w l v"
proof (cases "\<exists>u. running_callback w u \<noteq> None")
  case True
  then obtain u where "running_callback w u \<noteq> None"
    by blast
  then show ?thesis
    by (intro exI [of _ "EndDelivery u"]) (auto simp: step_iffs)
next
  case False
  have inv: "locks_ok w" "count_ok w"
    using adapter.inv_reach [OF assms(1)] by (simp_all add: adapter_inv_def)
  then have zero: "in_flight (im w) = 0"
    using False by (simp add: count_ok_def callback_threads_def)
  obtain u where u: "pcs w u \<noteq> Idle" "lifecycle w = None \<or> holds_lifecycle (pcs w u)"
      "teardown w = None \<or> holds_teardown (pcs w u) \<or> holds_lifecycle (pcs w u)"
  proof (cases "lifecycle w")
    case (Some u)
    then have "holds_lifecycle (pcs w u)"
      using inv(1) unfolding locks_ok_def by blast
    then show thesis
      by (intro that [of u]) auto
  next
    case None
    show thesis
    proof (cases "teardown w")
      case (Some u)
      then have "holds_teardown (pcs w u)"
        using inv(1) unfolding locks_ok_def by blast
      then show thesis
        using None by (intro that [of u]) auto
    qed (use None False assms(2) that in blast)
  qed
  then show ?thesis
    using thread_progress [of w u bk] False zero by blast
qed

end
