(* ===== verification/Direct_Sdk_Sessions.thy ===== *)
theory Direct_Sdk_Sessions
  imports Direct_Sdk_Safety
begin

text \<open>
  Vendor sessions. When all calls from outside callbacks are made by one thread, as the driver's worker
  makes them, a vendor session is never forgotten and never initialised twice. With two such threads it can be:
  the last lemma is a run in which a teardown that found nothing to do publishes its result over a session that
  another thread has initialised meanwhile. The theory also holds the example runs of the adapter.
\<close>

section \<open>One client thread\<close>

fun client_label :: "tid \<Rightarrow> label \<Rightarrow> bool" where
  "client_label t (Call u c) \<longleftrightarrow> u = t"
| "client_label t (CallDeinit u) \<longleftrightarrow> u = t"
| "client_label t _ \<longleftrightarrow> True"

definition client_step :: "backend \<Rightarrow> tid \<Rightarrow> world \<Rightarrow> label \<Rightarrow> world \<Rightarrow> bool" where
  "client_step bk t w l v \<longleftrightarrow> sdk_step bk w l v \<and> client_label t l"

text \<open>What the place of the client says of the adapter's state and of the vendor.\<close>

fun phase_ok :: "pc \<Rightarrow> State \<Rightarrow> bool \<Rightarrow> bool" where
  "phase_ok (Entered c saved out) s up \<longleftrightarrow> (if is_init c then s = Initializing \<and> \<not> up else s = Initialized)"
| "phase_ok (InVendor c saved out) s up \<longleftrightarrow> (if is_init c then s = Initializing \<and> \<not> up else s = Initialized)"
| "phase_ok (AfterVendor c saved out r) s up \<longleftrightarrow>
     (if is_init c then s = Initializing \<and> (up \<longleftrightarrow> vr_code r = kSdkResSuccess) else s = Initialized)"
| "phase_ok (Tail c saved out r) s up \<longleftrightarrow>
     (if is_init c then s = Initializing \<and> (up \<longleftrightarrow> vr_code r = kSdkResSuccess) else s = Initialized)"
| "phase_ok (Closing need run_deinit r) s up \<longleftrightarrow> s \<in> {ShuttingDown, Uninitialized} \<and> (\<not> run_deinit \<longrightarrow> \<not> up)"
| "phase_ok (Draining need r) s up \<longleftrightarrow> s \<in> {ShuttingDown, Uninitialized} \<and> \<not> up"
| "phase_ok (Publish r) s up \<longleftrightarrow> s \<in> {ShuttingDown, Uninitialized} \<and> \<not> up"
| "phase_ok _ s up \<longleftrightarrow> s \<noteq> ShuttingDown"

definition client_inv :: "tid \<Rightarrow> world \<Rightarrow> bool" where
  "client_inv t w \<longleftrightarrow> (\<forall>u. u \<noteq> t \<longrightarrow> pcs w u = Idle) \<and> phase_ok (pcs w t) (im_state (im w)) (vendor_up w) \<and>
     (vendor_up w \<longrightarrow> im_state (im w) \<noteq> Uninitialized)"

lemma close_flags:
  assumes "bk_deinit bk" "im_state i \<noteq> ShuttingDown"
  shows "fst (snd (teardown_close bk i)) \<longleftrightarrow> im_state i \<noteq> Uninitialized"
  using assms by (simp add: teardown_close_def Let_def)

lemma enter_phase:
  assumes "enter c i = Inr (j, saved, out)" "up \<longrightarrow> im_state i \<noteq> Uninitialized"
  shows "phase_ok (Entered c saved out) (im_state j) up" "up \<longrightarrow> im_state j \<noteq> Uninitialized"
  using enter_state [OF assms(1)] assms(2) by (cases "is_init c"; simp)+

definition session_ok :: "tid \<Rightarrow> world \<Rightarrow> bool" where
  "session_ok t w \<longleftrightarrow> phase_ok (pcs w t) (im_state (im w)) (vendor_up w) \<and>
     (vendor_up w \<longrightarrow> im_state (im w) \<noteq> Uninitialized)"

lemma session_ok_enter:
  assumes "session_ok t w" "sdk_step bk w (Enter t) v"
  shows "session_ok t v"
proof -
  obtain c where c: "pcs w t = Want c" "v = step_enter t c w"
    using assms(2) by (auto simp: step_iffs)
  show ?thesis
  proof (cases "enter c (im w)")
    case (Inl r)
    then show ?thesis
      using assms(1) c by (simp add: session_ok_def sdk_steps)
  next
    case (Inr x)
    obtain j saved out where x: "x = (j, saved, out)"
      by (cases x) auto
    have "vendor_up w \<longrightarrow> im_state (im w) \<noteq> Uninitialized"
      using assms(1) by (simp add: session_ok_def)
    from enter_phase [OF Inr [unfolded x] this] show ?thesis
      using Inr x c by (simp add: session_ok_def sdk_steps)
  qed
qed

lemma session_ok_step:
  assumes "bk_deinit bk" "session_ok t w" "sdk_step bk w l v" "actor l = t"
  shows "session_ok t v"
proof (cases l)
  case (Enter u)
  then show ?thesis
    using session_ok_enter assms by simp
qed (use assms in \<open>clarsimp simp: step_iffs;
    auto simp: session_ok_def sdk_steps delivery(4) [OF surjective_pairing] close_flags split: if_splits\<close>)+

lemma client_inv_step:
  assumes "bk_deinit bk" "client_inv t w" "client_step bk t w l v"
  shows "client_inv t v"
proof (cases "actor l = t")
  case True
  have step: "sdk_step bk w l v"
    using assms(3) by (simp add: client_step_def)
  have "session_ok t v"
    by (rule session_ok_step [OF assms(1) _ step True]) (use assms(2) in \<open>simp add: client_inv_def session_ok_def\<close>)
  moreover have "pcs v u = Idle" if "u \<noteq> t" for u
    using assms(2) step_others(1) [OF step, of u] that True by (simp add: client_inv_def)
  ultimately show ?thesis
    by (simp add: client_inv_def session_ok_def)
next
  case False
  have step: "sdk_step bk w l v" and idle: "pcs w (actor l) = Idle" and lab: "client_label t l"
    using assms(2,3) False by (simp_all add: client_step_def client_inv_def)
  have "pcs v = pcs w \<and> im_state (im v) = im_state (im w) \<and> vendor_up v = vendor_up w"
    using step idle lab False
    by (cases l; clarsimp simp: step_iffs) (auto simp: sdk_steps delivery(4) [OF surjective_pairing])
  then show ?thesis
    using assms(2) by (simp add: client_inv_def)
qed

text \<open>
  C12. With one client thread, vendor sessions alternate: the vendor is initialised only when it is down, an
  adapter that is uninitialised has no vendor session left behind, and when the client's \<^verbatim>\<open>deinit\<close> reaches
  its publication the vendor is down; vendor callbacks, re-entrant calls and exceptions of the vendor included.
\<close>

theorem vendor_sessions_alternate:
  assumes "reach sdk_start (client_step bk t) w" "bk_deinit bk"
  shows "(im_state (im w) = Uninitialized \<longrightarrow> \<not> vendor_up w) \<and>
    (\<forall>cbs n saved out. pcs w t = InVendor (Init cbs n) saved out \<longrightarrow> \<not> vendor_up w) \<and>
    (\<forall>r. pcs w t = Publish r \<longrightarrow> \<not> vendor_up w)"
proof -
  have "client_inv t w"
    using assms(1)
  proof (induction rule: reach.induct)
    case (reach_start w)
    then show ?case
      by (simp add: sdk_start_def client_inv_def DirectAstrallSdk_def)
  next
    case (reach_step w l v)
    then show ?case
      using client_inv_step [OF assms(2)] by blast
  qed
  then show ?thesis
    by (auto simp: client_inv_def)
qed

section \<open>Runs\<close>

fun exec :: "backend \<Rightarrow> label list \<Rightarrow> world \<Rightarrow> world option" where
  "exec bk [] w = Some w"
| "exec bk (l # ls) w = (case sdk_next bk l w of None \<Rightarrow> None | Some v \<Rightarrow> exec bk ls v)"

lemma exec_run: "exec bk ls w = Some v \<Longrightarrow> run (sdk_step bk) w ls v"
  by (induction ls arbitrary: w) (auto simp: sdk_step_def intro: run.intros split: option.splits)

lemma exec_client_run:
  "exec bk ls w = Some v \<Longrightarrow> list_all (client_label t) ls \<Longrightarrow> run (client_step bk t) w ls v"
  by (induction ls arbitrary: w) (auto simp: client_step_def sdk_step_def intro: run.intros split: option.splits)

definition ex_start :: world where
  "ex_start = \<lparr>im = DirectAstrallSdk, lifecycle = None, teardown = None, pcs = (\<lambda>t. Idle),
     running_callback = (\<lambda>t. None), vendor_up = False\<rparr>"

definition ex_backend :: backend where
  "ex_backend = \<lparr>bk_init = True, bk_deinit = True, bk_heartbeat = True, bk_request_authority = True,
     bk_subscribe = True, bk_set_mode = True, bk_move = True, bk_get_system_status = True, bk_get_power_status = True,
     bk_get_sport_status = True, size_sdk_status = 2, size_imu_data = 96, size_sport_data = 24\<rparr>"

definition ex_vendor :: "u16 \<Rightarrow> vendor_reply" where
  "ex_vendor c = \<lparr>vr_code = c, vr_system = (c, \<lparr>sys_status = 0, raw_error_code = 0, raw_warn_code = 0\<rparr>),
     vr_power = (c, \<lparr>soc = Fin 80, temp = Fin 30, voltage = Fin 48, cycle_count = 3, charged = 0\<rparr>), vr_sport = 1\<rparr>"

definition ex_status :: vendor_event where
  "ex_status = StatusEvent (Some (2, \<lparr>vs_link = 1, vs_ctrlAuthority = 0\<rparr>))"

lemmas sdk_eval = ex_start_def ex_backend_def ex_vendor_def ex_status_def DirectAstrallSdk_def goto_def unlock_def
  step_enter_def step_bound_def step_checkpoint_def step_finish_def step_ensure_def step_close_def step_deliver_def
  method_defs init_enter_def init_commit_def init_failed_def
  finish_with_deferred_teardown_def ensure_check_def teardown_close_def teardown_publish_def end_delivery_def
  reentrant_deinit_def deliver_status_def deliver_imu_def gate_open_def kSdkResSuccess_def kSdkResFailed_def

lemma ex_reached: "exec bk ls ex_start = Some v \<Longrightarrow> reach sdk_start (sdk_step bk) v"
  by (rule reach_run [OF exec_run]) (auto simp: sdk_start_def ex_start_def intro!: reach_start)

text \<open>The client initialises the SDK; the vendor reports the link while the call is running.\<close>

definition ex_init :: "label list" where
  "ex_init = [Call 0 (Init (Some 7) 1000), Enter 0, CheckBound 0, Deliver 0 ex_status, EndDelivery 0,
     VendorReturns 0 (ex_vendor kSdkResSuccess), Checkpoint 0, Finish 0, Return 0]"

text \<open>
  A teardown with nothing to do can publish over a new session. The callback of a failed initialisation has
  asked for a teardown and ended; thread 0 calls \<^verbatim>\<open>deinit\<close>, finds the adapter uninitialised and no callback in
  flight, and releases the lifecycle mutex; thread 1 initialises the SDK; thread 0 then publishes
  \<^verbatim>\<open>Uninitialized\<close>. All threads are done, the vendor is initialised, and the adapter believes it is not.
\<close>

definition ex_stale :: "label list" where
  "ex_stale = [Call 0 (Init (Some 7) 1000), Enter 0, CheckBound 0, Deliver 2 ex_status,
     VendorReturns 0 (ex_vendor kSdkResFailed), Checkpoint 0, Finish 0, Return 0, ReenterDeinit 2, EndDelivery 2,
     CallDeinit 0, TakeTeardown 0, EnsureCheck 0, Close 0, VendorDeinit 0,
     Call 1 (Init (Some 7) 1000), Enter 1, CheckBound 1, VendorReturns 1 (ex_vendor kSdkResSuccess), Checkpoint 1,
     Finish 1, Return 1,
     Drained 0, PublishState 0, EnsureCheck 0, Return 0]"

theorem stale_publication:
  "\<exists>w. reach sdk_start (sdk_step ex_backend) w \<and> vendor_up w \<and> im_state (im w) = Uninitialized \<and>
     (\<forall>t. pcs w t = Idle) \<and> (\<forall>t. running_callback w t = None)"
proof -
  have "\<exists>w. exec ex_backend ex_stale ex_start = Some w \<and> vendor_up w \<and> im_state (im w) = Uninitialized \<and>
     (\<forall>t. pcs w t = Idle) \<and> (\<forall>t. running_callback w t = None)"
    by (simp add: ex_stale_def sdk_eval)
  then show ?thesis
    using ex_reached by blast
qed

text \<open>
  A teardown requested from a callback during an initialisation that fails calls the vendor's deinit all the same:
  the checkpoint looks at the request before the result code.
\<close>

definition ex_failed_init :: "label list" where
  "ex_failed_init = [Call 0 (Init (Some 7) 1000), Enter 0, CheckBound 0, Deliver 0 ex_status, ReenterDeinit 0,
     EndDelivery 0, VendorReturns 0 (ex_vendor kSdkResFailed), Checkpoint 0, TakeTeardown 0, EnsureCheck 0, Close 0]"

theorem failed_init_deinited:
  "\<exists>w. reach sdk_start (sdk_step ex_backend) w \<and> deinits_vendor (pcs w 0) \<and> \<not> vendor_up w"
proof -
  have "\<exists>w. exec ex_backend ex_failed_init ex_start = Some w \<and> deinits_vendor (pcs w 0) \<and> \<not> vendor_up w"
    by (simp add: ex_failed_init_def sdk_eval)
  then show ?thesis
    using ex_reached by blast
qed

section \<open>Witnesses\<close>

lemma ex_sdk_heartbeat:
  obtains w saved out where "exec ex_backend (ex_init @ [Call 0 (Heartbeat 100), Enter 0, CheckBound 0]) ex_start = Some w"
    "pcs w 0 = InVendor (Heartbeat 100) saved out"
  by (simp add: ex_init_def sdk_eval)

theorem vendor_calls_guarded_witness:
  "\<exists>(w :: world) saved out. pcs w 0 = InVendor (Heartbeat 100) saved out \<and> vendor_up w"
proof -
  obtain w saved out where w: "exec ex_backend (ex_init @ [Call 0 (Heartbeat 100), Enter 0, CheckBound 0]) ex_start = Some w"
    "pcs w 0 = InVendor (Heartbeat 100) saved out"
    by (rule ex_sdk_heartbeat)
  have "calls_vendor (pcs w 0)"
    by (simp add: w(2))
  from vendor_calls_guarded [OF ex_reached [OF w(1)] this] have "vendor_up w"
    using w(2) by simp
  with w(2) show ?thesis
    by blast
qed

theorem adapter_never_deadlocks_witness:
  "\<exists>w l v. pcs w 0 \<noteq> Idle \<and> progress l \<and> sdk_step ex_backend w l v"
proof -
  obtain w saved out where w: "exec ex_backend (ex_init @ [Call 0 (Heartbeat 100), Enter 0, CheckBound 0]) ex_start = Some w"
    "pcs w 0 = InVendor (Heartbeat 100) saved out"
    by (rule ex_sdk_heartbeat)
  then have "pcs w 0 \<noteq> Idle"
    by simp
  then show ?thesis
    using adapter_never_deadlocks [OF ex_reached [OF w(1)], of 0] by blast
qed

theorem deinit_waits_for_callbacks_witness:
  "\<exists>w v. sdk_step ex_backend w (EnsureCheck 0) v \<and> pcs v 0 = Returned ReturnVoid \<and>
     im_state (im v) = Uninitialized \<and> running_callback v 2 = None"
proof -
  have "\<exists>w. exec ex_backend (ex_init @ [Deliver 2 ex_status, CallDeinit 0, TakeTeardown 0, EnsureCheck 0, Close 0,
      VendorDeinit 0, EndDelivery 2, Drained 0, PublishState 0]) ex_start = Some w \<and>
      pcs (step_ensure 0 ReturnVoid w) 0 = Returned ReturnVoid \<and> pcs w 0 = Ensure ReturnVoid"
    by (simp add: ex_init_def sdk_eval)
  then obtain w where w: "reach sdk_start (sdk_step ex_backend) w" "pcs w 0 = Ensure ReturnVoid"
      "pcs (step_ensure 0 ReturnVoid w) 0 = Returned ReturnVoid"
    using ex_reached by blast
  have "sdk_step ex_backend w (EnsureCheck 0) (step_ensure 0 ReturnVoid w)"
    using w(2) by (simp add: step_iffs)
  then show ?thesis
    using deinit_waits_for_callbacks [OF w(1) _ w(3)] w(3) by blast
qed



theorem vendor_sessions_alternate_witness:
  "\<exists>(w :: world) saved out. pcs w 0 = InVendor (Init (Some 7) 1000) saved out \<and> \<not> vendor_up w"
proof -
  have "\<exists>w saved out. exec ex_backend [Call 0 (Init (Some 7) 1000), Enter 0, CheckBound 0] ex_start = Some w \<and>
      pcs w 0 = InVendor (Init (Some 7) 1000) saved out"
    by (simp add: sdk_eval)
  then obtain w saved out where w: "exec ex_backend [Call 0 (Init (Some 7) 1000), Enter 0, CheckBound 0] ex_start = Some w"
      "pcs w 0 = InVendor (Init (Some 7) 1000) saved out"
    by blast
  have "reach sdk_start (client_step ex_backend 0) w"
    by (rule reach_run [OF exec_client_run [OF w(1)]]) (auto simp: sdk_start_def ex_start_def intro!: reach_start)
  moreover have "bk_deinit ex_backend"
    by (simp add: ex_backend_def)
  ultimately have "\<not> vendor_up w"
    using vendor_sessions_alternate [of ex_backend 0 w] w(2) by blast
  with w(2) show ?thesis
    by blast
qed

end
