(* ===== verification/Node_Parameters.thy ===== *)
theory Node_Parameters
  imports Driver_Runtime Frame_Assembler
begin

text \<open>
  The parameters of the driver node (\<^verbatim>\<open>driver_node.cpp\<close>): their declaration with defaults, the
  validation that runs before anything is built, and the configurations of the lidar receivers and of the runtime made
  from them. A parameter file overrides some of the defaults. \<^verbatim>\<open>as_int()\<close> returns a signed 64-bit integer, which
  the validation stores in an \<^verbatim>\<open>int\<close>: only its low 32 bits are looked at. A failed check is a value of
  \<open>param_error\<close>; the text of the messages and the warnings that are only logged are left out.
  \<^verbatim>\<open>inet_pton\<close> is a parameter.
\<close>

section \<open>Declaration\<close>

record overrides =
  ov_int :: "string \<rightharpoonup> int"
  ov_double :: "string \<rightharpoonup> fl"
  ov_string :: "string \<rightharpoonup> string"
  ov_bool :: "string \<rightharpoonup> bool"
  ov_doubles :: "string \<rightharpoonup> fl list"

definition declared_ints :: "(string \<times> int) list" where
  "declared_ints = [
     (''sdk.init_timeout_ms'', 60000), (''sdk.call_timeout_ms'', 5000), (''sdk.heartbeat_call_timeout_ms'', 500),
     (''sdk.heartbeat_max_failures'', 1),
     (''timing.heartbeat_period_ms'', 100), (''timing.motion_refresh_period_ms'', 20),
     (''timing.state_poll_period_ms'', 500), (''timing.mode_timeout_ms'', 5000),
     (''timing.reconnect_initial_delay_ms'', 1000), (''timing.reconnect_max_delay_ms'', 30000),
     (''safety.command_deadman_ms'', 100), (''safety.queue_capacity'', 16),
     (''subscriptions.imu_frequency_hz'', 50), (''subscriptions.sport_frequency_hz'', 50),
     (''subscriptions.lidar_frequency_hz'', 1),
     (''lidar.point_cloud_port'', 6100), (''lidar.odometry_port'', 6101),
     (''lidar.frame_timeout_ms'', 300), (''lidar.max_parallel_frames'', 4),
     (''lidar.max_points_per_frame'', 2000000), (''lidar.max_packets_per_frame'', 4096)]"

definition declared_strings :: "(string \<times> string) list" where
  "declared_strings = [
     (''interface'', ''eno1''), (''host_address'', ''10.18.0.200/24''), (''robot_address'', ''10.18.0.100''),
     (''topics.cmd_vel'', ''/cmd_vel''), (''topics.robot_mode'', ''/robot_mode''),
     (''topics.joint_commands'', ''/joint_commands''), (''topics.imu'', ''/imu/data''), (''topics.odom'', ''/odom''),
     (''topics.robot_state'', ''/robot_state''),
     (''frames.imu'', ''imu_link''), (''frames.odom'', ''odom''), (''frames.base'', ''base_link''),
     (''topics.points'', ''/points''), (''topics.odom_lidar'', ''/odom_lidar''),
     (''lidar.bind_ip'', ''0.0.0.0''), (''lidar.source_ip'', ''10.18.0.100''),
     (''lidar.odom_quaternion_order'', ''xyzw''), (''lidar.frame_id'', ''lidar_points''),
     (''odom_lidar.parent_frame'', ''odom''), (''odom_lidar.child_frame'', ''lidar''),
     (''imu.quaternion_order'', ''xyzw'')]"

text \<open>Decimal literals are rounded to double precision.\<close>

definition declared_doubles :: "(string \<times> fl) list" where
  "declared_doubles = [
     (''lidar.point_position_scale'', fround binary64 (1 / 1000)),
     (''lidar.odom_position_scale'', fround binary64 (1 / 1000000)),
     (''lidar.odom_quaternion_scale'', Fin 1)]"

definition declared_bools :: "(string \<times> bool) list" where
  "declared_bools = [(''subscriptions.lidar_enabled'', True), (''odom_lidar.publish_tf'', False),
     (''odom.publish_tf'', False), (''odometry.scale_verified'', False)]"

definition declared_arrays :: "(string \<times> fl list) list" where
  "declared_arrays = [
     (''odom_lidar.pose_covariance_diagonal'', map (fround binary64) [5/100, 5/100, 5/100, 1/100, 1/100, 1/100]),
     (''imu.orientation_covariance_diagonal'', map (fround binary64) [2/100, 2/100, 5/100]),
     (''imu.angular_velocity_covariance_diagonal'', map (fround binary64) [1/100, 1/100, 2/100]),
     (''imu.linear_acceleration_covariance_diagonal'', map (fround binary64) [1/10, 1/10, 2/10])]"

definition declared :: "(string \<rightharpoonup> 'a) \<Rightarrow> (string \<times> 'a) list \<Rightarrow> string \<Rightarrow> 'a" where
  "declared ov ds name = (case ov name of Some v \<Rightarrow> v | None \<Rightarrow> the (map_of ds name))"

definition as_int :: "overrides \<Rightarrow> string \<Rightarrow> int" where
  "as_int ov = declared (ov_int ov) declared_ints"

definition as_double :: "overrides \<Rightarrow> string \<Rightarrow> fl" where
  "as_double ov = declared (ov_double ov) declared_doubles"

definition as_string :: "overrides \<Rightarrow> string \<Rightarrow> string" where
  "as_string ov = declared (ov_string ov) declared_strings"

definition as_bool :: "overrides \<Rightarrow> string \<Rightarrow> bool" where
  "as_bool ov = declared (ov_bool ov) declared_bools"

definition as_double_array :: "overrides \<Rightarrow> string \<Rightarrow> fl list" where
  "as_double_array ov = declared (ov_doubles ov) declared_arrays"

section \<open>Validation\<close>

datatype param_error =
  OutOfRange string int
| PortsEqual
| NotIPv4 string string
| NotPositive string int
| BudgetExceeded int
| BadScale string fl
| BadOrder string string
| BackoffOrder int int
| BadFrequency int
| EmptyFrameName
| BadCovariance string nat fl

text \<open>The conversion of a 64-bit parameter to \<^verbatim>\<open>int\<close>.\<close>

definition to_int :: "int \<Rightarrow> int" where
  "to_int v = signed_take_bit 31 v"

definition check_range :: "overrides \<Rightarrow> string \<Rightarrow> int \<Rightarrow> int \<Rightarrow> param_error option" where
  "check_range ov name lo hi =
     (let v = to_int (as_int ov name) in if v < lo \<or> v > hi then Some (OutOfRange name v) else None)"

definition check_ports_differ :: "overrides \<Rightarrow> param_error option" where
  "check_ports_differ ov =
     (if to_int (as_int ov ''lidar.point_cloud_port'') = to_int (as_int ov ''lidar.odometry_port'')
      then Some PortsEqual else None)"

definition valid_ipv4 :: "(string \<Rightarrow> bool) \<Rightarrow> string \<Rightarrow> bool" where
  "valid_ipv4 inet_pton value = inet_pton (c_str value)"

definition check_bind_ip :: "(string \<Rightarrow> bool) \<Rightarrow> overrides \<Rightarrow> param_error option" where
  "check_bind_ip inet_pton ov =
     (let ip = as_string ov ''lidar.bind_ip'' in
      if \<not> valid_ipv4 inet_pton ip then Some (NotIPv4 ''lidar.bind_ip'' ip) else None)"

definition check_source_ip :: "(string \<Rightarrow> bool) \<Rightarrow> overrides \<Rightarrow> param_error option" where
  "check_source_ip inet_pton ov =
     (let ip = as_string ov ''lidar.source_ip'' in
      if ip \<noteq> [] \<and> \<not> valid_ipv4 inet_pton ip then Some (NotIPv4 ''lidar.source_ip'' ip) else None)"

definition positive_params :: "string list" where
  "positive_params = [''sdk.init_timeout_ms'', ''sdk.call_timeout_ms'', ''sdk.heartbeat_call_timeout_ms'',
     ''timing.heartbeat_period_ms'', ''timing.motion_refresh_period_ms'', ''timing.state_poll_period_ms'',
     ''timing.mode_timeout_ms'', ''timing.reconnect_initial_delay_ms'', ''timing.reconnect_max_delay_ms'',
     ''safety.command_deadman_ms'', ''lidar.frame_timeout_ms'']"

definition check_positive :: "overrides \<Rightarrow> string \<Rightarrow> param_error option" where
  "check_positive ov name =
     (let v = to_int (as_int ov name) in if v \<le> 0 then Some (NotPositive name v) else None)"

definition check_budget :: "overrides \<Rightarrow> param_error option" where
  "check_budget ov =
     (let total_point_budget = to_int (as_int ov ''lidar.max_parallel_frames'') *
                               to_int (as_int ov ''lidar.max_points_per_frame'')
      in if total_point_budget > 20000000 then Some (BudgetExceeded total_point_budget) else None)"

definition check_scale :: "overrides \<Rightarrow> string \<Rightarrow> param_error option" where
  "check_scale ov name =
     (let v = as_double ov name in
      if \<not> isfinite v \<or> fl_le v (Fin 0) \<or> fl_less (Fin 1000000000) v then Some (BadScale name v) else None)"

definition check_order :: "overrides \<Rightarrow> string \<Rightarrow> param_error option" where
  "check_order ov name =
     (let order = as_string ov name in
      if order \<noteq> ''xyzw'' \<and> order \<noteq> ''wxyz'' then Some (BadOrder name order) else None)"

definition check_max_failures :: "overrides \<Rightarrow> param_error option" where
  "check_max_failures ov =
     (let v = to_int (as_int ov ''sdk.heartbeat_max_failures'') in
      if v < 1 then Some (NotPositive ''sdk.heartbeat_max_failures'' v) else None)"

definition check_backoff :: "overrides \<Rightarrow> param_error option" where
  "check_backoff ov =
     (let a = to_int (as_int ov ''timing.reconnect_initial_delay_ms'');
          b = to_int (as_int ov ''timing.reconnect_max_delay_ms'')
      in if a > b then Some (BackoffOrder a b) else None)"

definition frequency_from_hz :: "int \<Rightarrow> param_error + SubscriptionFrequency" where
  "frequency_from_hz hz =
     (if hz = 0 then Inr Disabled
      else if hz = 1 then Inr Hz1
      else if hz = 25 then Inr Hz25
      else if hz = 50 then Inr Hz50
      else if hz = 125 then Inr Hz125
      else if hz = 250 then Inr Hz250
      else Inl (BadFrequency hz))"

definition check_frequency :: "overrides \<Rightarrow> string \<Rightarrow> param_error option" where
  "check_frequency ov name =
     (case frequency_from_hz (to_int (as_int ov name)) of Inl e \<Rightarrow> Some e | Inr f \<Rightarrow> None)"

definition check_frames :: "overrides \<Rightarrow> param_error option" where
  "check_frames ov =
     (if as_string ov ''frames.imu'' = [] \<or> as_string ov ''frames.odom'' = [] \<or> as_string ov ''frames.base'' = []
      then Some EmptyFrameName else None)"

fun first_bad :: "nat \<Rightarrow> fl list \<Rightarrow> (nat \<times> fl) option" where
  "first_bad i [] = None"
| "first_bad i (v # vs) = (if \<not> isfinite v \<or> fl_less v (Fin 0) then Some (i, v) else first_bad (Suc i) vs)"

definition validate_covariance_diagonal :: "overrides \<Rightarrow> string \<Rightarrow> param_error option" where
  "validate_covariance_diagonal ov name =
     (case first_bad 0 (as_double_array ov name) of
        None \<Rightarrow> None | Some (i, v) \<Rightarrow> Some (BadCovariance name i v))"

definition checks :: "(string \<Rightarrow> bool) \<Rightarrow> overrides \<Rightarrow> param_error option list" where
  "checks inet_pton ov =
     [check_range ov ''lidar.point_cloud_port'' 1 65535, check_range ov ''lidar.odometry_port'' 1 65535,
      check_ports_differ ov, check_bind_ip inet_pton ov, check_source_ip inet_pton ov] @
     map (check_positive ov) positive_params @
     [check_range ov ''safety.queue_capacity'' 1 1024, check_range ov ''lidar.max_parallel_frames'' 1 64,
      check_range ov ''lidar.max_points_per_frame'' 1 50000000,
      check_range ov ''lidar.max_packets_per_frame'' 1 65536, check_budget ov,
      check_scale ov ''lidar.point_position_scale'', check_scale ov ''lidar.odom_position_scale'',
      check_scale ov ''lidar.odom_quaternion_scale'',
      check_order ov ''lidar.odom_quaternion_order'', check_max_failures ov, check_backoff ov,
      check_frequency ov ''subscriptions.imu_frequency_hz'', check_frequency ov ''subscriptions.sport_frequency_hz'',
      check_frequency ov ''subscriptions.lidar_frequency_hz'',
      check_order ov ''imu.quaternion_order'', check_frames ov,
      validate_covariance_diagonal ov ''imu.orientation_covariance_diagonal'',
      validate_covariance_diagonal ov ''imu.angular_velocity_covariance_diagonal'',
      validate_covariance_diagonal ov ''imu.linear_acceleration_covariance_diagonal'',
      validate_covariance_diagonal ov ''odom_lidar.pose_covariance_diagonal'']"

fun first_error :: "'e option list \<Rightarrow> 'e option" where
  "first_error [] = None"
| "first_error (Some e # cs) = Some e"
| "first_error (None # cs) = first_error cs"

text \<open>The first failing check is what the constructor throws.\<close>

definition validate_parameters :: "(string \<Rightarrow> bool) \<Rightarrow> overrides \<Rightarrow> param_error option" where
  "validate_parameters inet_pton ov = first_error (checks inet_pton ov)"

section \<open>Configurations\<close>

definition to_u32 :: "int \<Rightarrow> u32" where "to_u32 v = word_of_int v"
definition to_size :: "int \<Rightarrow> nat" where "to_size v = unat (word_of_int v :: u64)"

definition lidar_parse_config :: "overrides \<Rightarrow> LidarParseConfig" where
  "lidar_parse_config ov = \<lparr>point_position_scale = as_double ov ''lidar.point_position_scale'',
     odom_position_scale = as_double ov ''lidar.odom_position_scale'',
     odom_quaternion_scale = as_double ov ''lidar.odom_quaternion_scale'',
     odom_quaternion_order = as_string ov ''lidar.odom_quaternion_order''\<rparr>"

definition assembler_config :: "overrides \<Rightarrow> AssemblerConfig" where
  "assembler_config ov = \<lparr>max_parallel_frames = to_size (as_int ov ''lidar.max_parallel_frames''),
     frame_timeout = to_int (as_int ov ''lidar.frame_timeout_ms''),
     max_points_per_frame = to_size (as_int ov ''lidar.max_points_per_frame''),
     max_packets_per_frame = to_size (as_int ov ''lidar.max_packets_per_frame'')\<rparr>"

definition frequency :: "overrides \<Rightarrow> string \<Rightarrow> SubscriptionFrequency" where
  "frequency ov name = (case frequency_from_hz (to_int (as_int ov name)) of Inr f \<Rightarrow> f | Inl e \<Rightarrow> Disabled)"

definition runtime_config :: "overrides \<Rightarrow> RuntimeConfig" where
  "runtime_config ov = \<lparr>
     rc_interface = as_string ov ''interface'', rc_host_address = as_string ov ''host_address'',
     rc_robot_address = as_string ov ''robot_address'',
     init_timeout_ms = to_u32 (as_int ov ''sdk.init_timeout_ms''),
     sdk_call_timeout_ms = to_u32 (as_int ov ''sdk.call_timeout_ms''),
     heartbeat_call_timeout_ms = to_u32 (as_int ov ''sdk.heartbeat_call_timeout_ms''),
     heartbeat_max_failures = to_u32 (as_int ov ''sdk.heartbeat_max_failures''),
     queue_capacity = to_size (as_int ov ''safety.queue_capacity''),
     heartbeat_period = as_int ov ''timing.heartbeat_period_ms'',
     motion_refresh_period = as_int ov ''timing.motion_refresh_period_ms'',
     deadman_ms = as_int ov ''safety.command_deadman_ms'',
     mode_timeout_ms = as_int ov ''timing.mode_timeout_ms'',
     state_poll_period = as_int ov ''timing.state_poll_period_ms'',
     imu_freq = frequency ov ''subscriptions.imu_frequency_hz'',
     sport_freq = frequency ov ''subscriptions.sport_frequency_hz'',
     lidar_freq = frequency ov ''subscriptions.lidar_frequency_hz'',
     enable_lidar_stream = as_bool ov ''subscriptions.lidar_enabled'',
     reconnect_initial_delay_ms = as_int ov ''timing.reconnect_initial_delay_ms'',
     reconnect_max_delay_ms = as_int ov ''timing.reconnect_max_delay_ms''\<rparr>"

definition diagonal_covariance :: "fl list \<Rightarrow> fl list" where
  "diagonal_covariance diag = concat (map (\<lambda>i.
     let v = (if i < length diag \<and> isfinite (diag ! i) then diag ! i else Fin 0)
     in replicate i (Fin 0) @ [v] @ replicate (2 - i) (Fin 0)) [0, 1, 2])"

section \<open>What an accepted configuration guarantees\<close>

lemma first_error_None: "first_error cs = None \<longleftrightarrow> (\<forall>c \<in> set cs. c = None)"
  by (induction cs rule: first_error.induct) auto

text \<open>Every integer parameter fits an \<^verbatim>\<open>int\<close>.\<close>

definition ints_fit :: "overrides \<Rightarrow> bool" where
  "ints_fit ov \<longleftrightarrow> (\<forall>d \<in> set declared_ints. - (2 ^ 31) \<le> as_int ov (fst d) \<and> as_int ov (fst d) < 2 ^ 31)"

lemma to_int_id: "- (2 ^ 31) \<le> v \<Longrightarrow> v < 2 ^ 31 \<Longrightarrow> to_int v = v"
  unfolding to_int_def by (rule signed_take_bit_int_eq_self) simp_all

lemma to_int_fits: "ints_fit ov \<Longrightarrow> name \<in> fst ` set declared_ints \<Longrightarrow> to_int (as_int ov name) = as_int ov name"
  by (auto simp: ints_fit_def intro!: to_int_id)

text \<open>The names looked up in the table of integers, decided once.\<close>

lemma declared_int_names:
  "''lidar.max_parallel_frames'' \<in> fst ` set declared_ints" "''lidar.max_points_per_frame'' \<in> fst ` set declared_ints"
  "''lidar.max_packets_per_frame'' \<in> fst ` set declared_ints" "''safety.queue_capacity'' \<in> fst ` set declared_ints"
  "''sdk.heartbeat_max_failures'' \<in> fst ` set declared_ints"
  "''timing.reconnect_initial_delay_ms'' \<in> fst ` set declared_ints"
  "''timing.reconnect_max_delay_ms'' \<in> fst ` set declared_ints"
  by code_simp+

lemma positive_names: "n \<in> set positive_params \<Longrightarrow> n \<in> fst ` set declared_ints"
proof -
  have "list_all (\<lambda>n. n \<in> fst ` set declared_ints) positive_params"
    by code_simp
  then show "n \<in> set positive_params \<Longrightarrow> n \<in> fst ` set declared_ints"
    by (simp add: list_all_iff)
qed

lemma to_size_eq: "0 \<le> v \<Longrightarrow> v < 2 ^ 31 \<Longrightarrow> to_size v = nat v"
  by (simp add: to_size_def unat_eq_nat_uint uint_word_of_int)

lemma to_u32_pos: "0 < v \<Longrightarrow> v < 2 ^ 31 \<Longrightarrow> 0 < to_u32 v"
  by (simp add: to_u32_def word_less_def uint_word_of_int)

lemma accepted_checks:
  assumes "validate_parameters inet_pton ov = None"
  shows "check_range ov ''lidar.point_cloud_port'' 1 65535 = None" "check_range ov ''lidar.odometry_port'' 1 65535 = None"
    "check_ports_differ ov = None" "name \<in> set positive_params \<Longrightarrow> check_positive ov name = None"
    "check_range ov ''safety.queue_capacity'' 1 1024 = None" "check_range ov ''lidar.max_parallel_frames'' 1 64 = None"
    "check_range ov ''lidar.max_points_per_frame'' 1 50000000 = None"
    "check_range ov ''lidar.max_packets_per_frame'' 1 65536 = None" "check_budget ov = None"
    "check_scale ov ''lidar.point_position_scale'' = None" "check_scale ov ''lidar.odom_position_scale'' = None"
    "check_scale ov ''lidar.odom_quaternion_scale'' = None" "check_order ov ''lidar.odom_quaternion_order'' = None"
    "check_max_failures ov = None" "check_backoff ov = None"
proof -
  note all = assms [unfolded validate_parameters_def checks_def first_error_None set_append list.set set_map
      ball_Un ball_simps image_iff]
  show "check_range ov ''lidar.point_cloud_port'' 1 65535 = None" "check_range ov ''lidar.odometry_port'' 1 65535 = None"
    "check_ports_differ ov = None"
    "check_range ov ''safety.queue_capacity'' 1 1024 = None" "check_range ov ''lidar.max_parallel_frames'' 1 64 = None"
    "check_range ov ''lidar.max_points_per_frame'' 1 50000000 = None"
    "check_range ov ''lidar.max_packets_per_frame'' 1 65536 = None" "check_budget ov = None"
    "check_scale ov ''lidar.point_position_scale'' = None" "check_scale ov ''lidar.odom_position_scale'' = None"
    "check_scale ov ''lidar.odom_quaternion_scale'' = None" "check_order ov ''lidar.odom_quaternion_order'' = None"
    "check_max_failures ov = None" "check_backoff ov = None"
    by (insert all, elim conjE, assumption)+
  show "name \<in> set positive_params \<Longrightarrow> check_positive ov name = None"
    using all by blast
qed

lemma range_ok: "check_range ov name lo hi = None \<longleftrightarrow> lo \<le> to_int (as_int ov name) \<and> to_int (as_int ov name) \<le> hi"
  by (auto simp: check_range_def Let_def)

lemma positive_ok: "check_positive ov name = None \<longleftrightarrow> 0 < to_int (as_int ov name)"
  by (auto simp: check_positive_def Let_def)

lemma scale_ok:
  assumes "check_scale ov name = None"
  shows "IsFinitePositive (as_double ov name)" "fl_le (fl_abs (as_double ov name)) (Fin 1000000000)"
  using assms by (cases "as_double ov name"; auto simp: check_scale_def IsFinitePositive_def fl_le_def Let_def split: if_splits)+

lemma accepted_parse_config:
  assumes "validate_parameters inet_pton ov = None"
  shows "ValidateScales (lidar_parse_config ov)" "ValidQuaternionOrder (odom_quaternion_order (lidar_parse_config ov))"
  using scale_ok [OF accepted_checks(10) [OF assms]] scale_ok [OF accepted_checks(11) [OF assms]]
    scale_ok [OF accepted_checks(12) [OF assms]] accepted_checks(13) [OF assms]
  by (auto simp: ValidateScales_def lidar_parse_config_def ValidQuaternionOrder_def check_order_def Let_def split: if_splits)

lemma accepted_ints:
  assumes "validate_parameters inet_pton ov = None" "ints_fit ov" "name \<in> fst ` set declared_ints" "name \<in> set positive_params"
  shows "0 < as_int ov name" "as_int ov name < 2 ^ 31"
  using accepted_checks(4) [OF assms(1,4)] to_int_fits [OF assms(2,3)] assms(2,3) by (auto simp: positive_ok ints_fit_def)

lemma accepted_assembler_config:
  assumes "validate_parameters inet_pton ov = None" "ints_fit ov"
  shows "1 \<le> max_parallel_frames (assembler_config ov)" "max_parallel_frames (assembler_config ov) \<le> 64"
    "1 \<le> max_points_per_frame (assembler_config ov)" "max_packets_per_frame (assembler_config ov) \<le> 65536"
    "max_parallel_frames (assembler_config ov) * max_points_per_frame (assembler_config ov) \<le> 20000000"
    "0 < frame_timeout (assembler_config ov)"
proof -
  let ?a = "as_int ov ''lidar.max_parallel_frames''" and ?b = "as_int ov ''lidar.max_points_per_frame''"
    and ?c = "as_int ov ''lidar.max_packets_per_frame''"
  note fit = to_int_fits [OF assms(2) declared_int_names(1)] to_int_fits [OF assms(2) declared_int_names(2)]
    to_int_fits [OF assms(2) declared_int_names(3)]
  note ok = accepted_checks(6-9) [OF assms(1), unfolded range_ok check_budget_def Let_def fit]
  have r: "1 \<le> ?a \<and> ?a \<le> 64" "1 \<le> ?b \<and> ?b \<le> 50000000" "1 \<le> ?c \<and> ?c \<le> 65536" "?a * ?b \<le> 20000000"
    using ok(1-3) ok(4) by (blast, blast, blast, simp split: if_splits)
  then have s: "to_size ?a = nat ?a" "to_size ?b = nat ?b" "to_size ?c = nat ?c"
    by (simp_all add: to_size_eq)
  show "1 \<le> max_parallel_frames (assembler_config ov)" "max_parallel_frames (assembler_config ov) \<le> 64"
    "1 \<le> max_points_per_frame (assembler_config ov)" "max_packets_per_frame (assembler_config ov) \<le> 65536"
    using r(1-3) by (auto simp: assembler_config_def s)
  show "max_parallel_frames (assembler_config ov) * max_points_per_frame (assembler_config ov) \<le> 20000000"
    using r by (simp add: assembler_config_def s nat_mult_distrib [symmetric])
  show "0 < frame_timeout (assembler_config ov)"
    using accepted_checks(4) [OF assms(1), of "''lidar.frame_timeout_ms''"]
    by (simp add: assembler_config_def positive_ok positive_params_def)
qed

lemma accepted_runtime_config:
  assumes "validate_parameters inet_pton ov = None" "ints_fit ov"
  shows "0 < deadman_ms (runtime_config ov)" "0 < heartbeat_period (runtime_config ov)"
    "0 < motion_refresh_period (runtime_config ov)" "0 < state_poll_period (runtime_config ov)"
    "0 < mode_timeout_ms (runtime_config ov)" "0 < reconnect_initial_delay_ms (runtime_config ov)"
    "reconnect_initial_delay_ms (runtime_config ov) \<le> reconnect_max_delay_ms (runtime_config ov)"
    "1 \<le> queue_capacity (runtime_config ov)" "queue_capacity (runtime_config ov) \<le> 1024"
    "0 < heartbeat_max_failures (runtime_config ov)" "0 < sdk_call_timeout_ms (runtime_config ov)"
proof -
  note fit = to_int_fits [OF assms(2) declared_int_names(4)] to_int_fits [OF assms(2) declared_int_names(5)]
    to_int_fits [OF assms(2) declared_int_names(6)] to_int_fits [OF assms(2) declared_int_names(7)]
  have p: "0 < as_int ov n \<and> as_int ov n < 2 ^ 31" if "n \<in> set positive_params" for n
    using accepted_ints [OF assms positive_names [OF that] that] by simp
  show "0 < deadman_ms (runtime_config ov)" "0 < heartbeat_period (runtime_config ov)"
    "0 < motion_refresh_period (runtime_config ov)" "0 < state_poll_period (runtime_config ov)"
    "0 < mode_timeout_ms (runtime_config ov)" "0 < reconnect_initial_delay_ms (runtime_config ov)"
    by (simp_all add: runtime_config_def p positive_params_def)
  show "reconnect_initial_delay_ms (runtime_config ov) \<le> reconnect_max_delay_ms (runtime_config ov)"
    using accepted_checks(15) [OF assms(1)]
    by (simp add: runtime_config_def check_backoff_def Let_def fit split: if_splits)
  let ?q = "as_int ov ''safety.queue_capacity''" and ?h = "as_int ov ''sdk.heartbeat_max_failures''"
  have q: "1 \<le> ?q" "?q \<le> 1024"
    using accepted_checks(5) [OF assms(1)] by (simp_all add: range_ok fit)
  then show "1 \<le> queue_capacity (runtime_config ov)" "queue_capacity (runtime_config ov) \<le> 1024"
    by (simp_all add: runtime_config_def to_size_eq)
  have "0 < ?h" "?h < 2 ^ 31"
    using accepted_checks(14) [OF assms(1)] assms(2) declared_int_names(5)
    by (auto simp: check_max_failures_def Let_def fit ints_fit_def split: if_splits)
  then show "0 < heartbeat_max_failures (runtime_config ov)"
    by (simp add: runtime_config_def to_u32_pos)
  show "0 < sdk_call_timeout_ms (runtime_config ov)"
    using p [of "''sdk.call_timeout_ms''"]
    by (simp add: runtime_config_def positive_params_def to_u32_pos)
qed

section \<open>Properties\<close>

text \<open>
  C38. An accepted parameter set, with integers that fit 32 bits, gives well-formed configurations: the
  parsers accept the lidar scales and the quaternion order, the assembler may hold between 1 and 64 frames and at most
  20 million points in all, every period of the runtime is positive, the first reconnect delay does not exceed the
  largest, the command queue holds 1 to 1024 commands, and the runtime's safety controller can be constructed.
\<close>

theorem accepted_parameters_well_formed:
  assumes "validate_parameters inet_pton ov = None" "ints_fit ov"
  shows "ValidateScales (lidar_parse_config ov) \<and> ValidQuaternionOrder (odom_quaternion_order (lidar_parse_config ov)) \<and>
    1 \<le> max_parallel_frames (assembler_config ov) \<and> max_parallel_frames (assembler_config ov) \<le> 64 \<and>
    max_parallel_frames (assembler_config ov) * max_points_per_frame (assembler_config ov) \<le> 20000000 \<and>
    0 < frame_timeout (assembler_config ov) \<and>
    0 < heartbeat_period (runtime_config ov) \<and> 0 < motion_refresh_period (runtime_config ov) \<and>
    0 < state_poll_period (runtime_config ov) \<and> 0 < mode_timeout_ms (runtime_config ov) \<and>
    0 < reconnect_initial_delay_ms (runtime_config ov) \<and>
    reconnect_initial_delay_ms (runtime_config ov) \<le> reconnect_max_delay_ms (runtime_config ov) \<and>
    1 \<le> queue_capacity (runtime_config ov) \<and> queue_capacity (runtime_config ov) \<le> 1024 \<and>
    0 < heartbeat_max_failures (runtime_config ov) \<and> 0 < sdk_call_timeout_ms (runtime_config ov) \<and>
    (\<exists>c. RobotController (deadman_ms (runtime_config ov)) = Inr c)"
  using accepted_parse_config [OF assms(1)] accepted_assembler_config [OF assms] accepted_runtime_config [OF assms]
  by (simp add: RobotController_def)

definition ex_overrides :: "int \<Rightarrow> overrides" where
  "ex_overrides points = \<lparr>ov_int = [''lidar.max_points_per_frame'' \<mapsto> points],
     ov_double = [''lidar.point_position_scale'' \<mapsto> Fin (1 / 1024), ''lidar.odom_position_scale'' \<mapsto> Fin (1 / 1024)],
     ov_string = Map.empty, ov_bool = Map.empty,
     ov_doubles = [''odom_lidar.pose_covariance_diagonal'' \<mapsto> [Fin 1], ''imu.orientation_covariance_diagonal'' \<mapsto> [Fin 1],
       ''imu.angular_velocity_covariance_diagonal'' \<mapsto> [Fin 1], ''imu.linear_acceleration_covariance_diagonal'' \<mapsto> [Fin 1]]\<rparr>"

lemmas param_eval = as_int_def as_double_def as_string_def as_double_array_def declared_def ex_overrides_def
  declared_ints_def declared_strings_def declared_doubles_def declared_arrays_def

lemma ex_overrides_accepted:
  assumes "to_int points = 1000"
  shows "validate_parameters (\<lambda>ip. True) (ex_overrides points) = None"
proof -
  have small: "to_int v = v" if "0 \<le> v" "v < 2 ^ 31" for v
    by (rule to_int_id) (use that in linarith)+
  show ?thesis
    by (simp add: validate_parameters_def checks_def positive_params_def check_range_def check_ports_differ_def
        check_bind_ip_def check_source_ip_def valid_ipv4_def check_positive_def check_budget_def check_scale_def check_order_def
        check_max_failures_def check_backoff_def check_frequency_def frequency_from_hz_def check_frames_def
        validate_covariance_diagonal_def fl_le_def param_eval assms small)
qed

lemma ex_overrides_fit: "ints_fit (ex_overrides 1000)"
  by (simp add: ints_fit_def param_eval)

theorem accepted_parameters_well_formed_witness:
  "validate_parameters (\<lambda>ip. True) (ex_overrides 1000) = None \<and>
   max_parallel_frames (assembler_config (ex_overrides 1000)) * max_points_per_frame (assembler_config (ex_overrides 1000)) \<le> 20000000"
proof -
  have a: "validate_parameters (\<lambda>ip. True) (ex_overrides 1000) = None"
    by (rule ex_overrides_accepted) (simp add: to_int_id)
  from accepted_parameters_well_formed [OF a ex_overrides_fit] a show ?thesis
    by blast
qed

text \<open>
  A parameter beyond 32 bits escapes the validation: its low 32 bits are checked, its full value is used. Here
  the accepted configuration lets the assembler hold more than 16 billion points.
\<close>

theorem narrowing_defeats_budget:
  "validate_parameters (\<lambda>ip. True) (ex_overrides (2 ^ 32 + 1000)) = None \<and>
   max_points_per_frame (assembler_config (ex_overrides (2 ^ 32 + 1000))) = 2 ^ 32 + 1000"
proof
  have "to_int (2 ^ 32 + 1000) = 1000"
    by (simp add: to_int_def signed_take_bit_eq_take_bit_shift take_bit_eq_mod)
  then show "validate_parameters (\<lambda>ip. True) (ex_overrides (2 ^ 32 + 1000)) = None"
    by (rule ex_overrides_accepted)
  show "max_points_per_frame (assembler_config (ex_overrides (2 ^ 32 + 1000))) = 2 ^ 32 + 1000"
    by (simp add: assembler_config_def param_eval to_size_def)
qed

end
