(* ===== verification/Lidar_Clock.thy ===== *)
theory Lidar_Clock
  imports Bridge_Prelude "HOL-Library.Monad_Syntax"
begin

text \<open>
  The clock mapper of the driver node (\<^verbatim>\<open>LidarDeviceClockMapper\<close> of \<^verbatim>\<open>driver_node.cpp\<close>): it maps the
  lidar's monotonic clock to the ROS clock, with the odometry datagrams as anchors. Both public methods hold the
  mapper's mutex, so each is one function on its state. The values are signed 64-bit integers, whose
  overflow is undefined; an operation that would overflow gives \<open>None\<close>.
\<close>

section \<open>The mapper\<close>

record LidarDeviceClockMapper =
  cm_initialized :: bool
  offset_ns :: int
  last_device_ns :: int

definition new_mapper :: LidarDeviceClockMapper where
  "new_mapper = \<lparr>cm_initialized = False, offset_ns = 0, last_device_ns = 0\<rparr>"

definition i64 :: "int \<Rightarrow> int option" where
  "i64 x = (if - (2 ^ 63) \<le> x \<and> x \<le> 2 ^ 63 - 1 then Some x else None)"

definition kRestartToleranceNs :: int where
  "kRestartToleranceNs = 1000000000"

definition kOffsetJumpNs :: int where
  "kOffsetJumpNs = 2000000000"

definition mapped_time :: "int \<Rightarrow> int \<Rightarrow> LidarDeviceClockMapper \<Rightarrow> int option" where
  "mapped_time device receive_time m = do {
     mapped_ns \<leftarrow> i64 (device + offset_ns m);
     Some (min mapped_ns receive_time)
   }"

definition device_restarted :: "int \<Rightarrow> LidarDeviceClockMapper \<Rightarrow> bool option" where
  "device_restarted device m =
     (if \<not> cm_initialized m then Some False
      else do { d \<leftarrow> i64 (device + kRestartToleranceNs); Some (d < last_device_ns m) })"

definition offset_jumped :: "int \<Rightarrow> LidarDeviceClockMapper \<Rightarrow> bool option" where
  "offset_jumped observed_offset m =
     (if \<not> cm_initialized m then Some False
      else do {
        d \<leftarrow> i64 (observed_offset - offset_ns m);
        a \<leftarrow> i64 \<bar>d\<bar>;
        Some (a > kOffsetJumpNs)
      })"

text \<open>The new offset. In the last branch the difference is not negative, so the division rounds down.\<close>

definition next_offset :: "bool \<Rightarrow> int \<Rightarrow> LidarDeviceClockMapper \<Rightarrow> int option" where
  "next_offset reset observed_offset m =
     (if reset then Some observed_offset
      else if observed_offset < offset_ns m then Some observed_offset
      else do { d \<leftarrow> i64 (observed_offset - offset_ns m); i64 (offset_ns m + d div 64) })"

definition observe_odometry :: "u64 \<Rightarrow> int \<Rightarrow> LidarDeviceClockMapper \<Rightarrow> (int \<times> LidarDeviceClockMapper) option" where
  "observe_odometry device_ns receive_time m =
     (if uint device_ns > 2 ^ 63 - 1 then Some (receive_time, m)
      else do {
        let device = uint device_ns;
        observed_offset \<leftarrow> i64 (receive_time - device);
        restarted \<leftarrow> device_restarted device m;
        jumped \<leftarrow> offset_jumped observed_offset m;
        offset \<leftarrow> next_offset (\<not> cm_initialized m \<or> restarted \<or> jumped) observed_offset m;
        let m' = m\<lparr>offset_ns := offset, cm_initialized := True, last_device_ns := device\<rparr>;
        t \<leftarrow> mapped_time device receive_time m';
        Some (t, m')
      })"

definition map_cloud :: "u64 \<Rightarrow> int \<Rightarrow> LidarDeviceClockMapper \<Rightarrow> int option" where
  "map_cloud device_ns receive_time m =
     (if \<not> cm_initialized m \<or> uint device_ns > 2 ^ 63 - 1 then Some receive_time
      else mapped_time (uint device_ns) receive_time m)"

section \<open>Sequences of samples\<close>

text \<open>A sample: its device time and the ROS time at which its callback ran.\<close>

datatype sample = OdometrySample u64 int | CloudSample u64 int

fun device_of :: "sample \<Rightarrow> int" where
  "device_of (OdometrySample d r) = uint d"
| "device_of (CloudSample d r) = uint d"

fun received_at :: "sample \<Rightarrow> int" where
  "received_at (OdometrySample d r) = r"
| "received_at (CloudSample d r) = r"

fun is_odometry :: "sample \<Rightarrow> bool" where
  "is_odometry (OdometrySample d r) = True"
| "is_odometry (CloudSample d r) = False"

fun stamp :: "sample \<Rightarrow> LidarDeviceClockMapper \<Rightarrow> (int \<times> LidarDeviceClockMapper) option" where
  "stamp (OdometrySample d r) m = observe_odometry d r m"
| "stamp (CloudSample d r) m = do { t \<leftarrow> map_cloud d r m; Some (t, m) }"

fun stamps :: "sample list \<Rightarrow> LidarDeviceClockMapper \<Rightarrow> (int list \<times> LidarDeviceClockMapper) option" where
  "stamps [] m = Some ([], m)"
| "stamps (x # xs) m = do { (t, m') \<leftarrow> stamp x m; (ts, m'') \<leftarrow> stamps xs m'; Some (t # ts, m'') }"

lemma stamps_append:
  "stamps (xs @ ys) m = do { (ts, m') \<leftarrow> stamps xs m; (us, m'') \<leftarrow> stamps ys m'; Some (ts @ us, m'') }"
  by (induction xs arbitrary: m) (auto simp: Option.bind_eq_Some_conv split: prod.splits option.splits bind_splits)

text \<open>
  The samples of a device whose clock runs \<open>c\<close> behind the ROS clock: every sample is received after it was
  taken, odometry within \<open>lat\<close>; device times stay below 2 to the 61, some 73 years.
\<close>

definition sample_ok :: "int \<Rightarrow> int \<Rightarrow> sample \<Rightarrow> bool" where
  "sample_ok c lat x \<longleftrightarrow> device_of x < 2305843009213693952 \<and> device_of x + c \<le> received_at x \<and>
     (is_odometry x \<longrightarrow> received_at x \<le> device_of x + c + lat)"

text \<open>
  The two clocks do not keep one offset for ever: the device restarts, or one of the clocks is set. An epoch is a
  stretch of samples with one offset \<open>c\<close>, and the anchor after it the offset and the device time of its last odometry
  sample. A new epoch is noticed when it starts with an odometry sample and the offset fell, or the device clock went
  back by more than the restart tolerance, or the offset rose by more than the jump threshold and the latency.
\<close>

type_synonym epoch = "int \<times> sample list"

definition next_anchor :: "int \<Rightarrow> sample \<Rightarrow> (int \<times> int) option \<Rightarrow> (int \<times> int) option" where
  "next_anchor c x anchor = (if is_odometry x then Some (c, device_of x) else anchor)"

definition noticed :: "int \<Rightarrow> int \<times> int \<Rightarrow> int \<Rightarrow> sample \<Rightarrow> bool" where
  "noticed lat anchor c x \<longleftrightarrow> is_odometry x \<and>
     (c \<le> fst anchor \<or> device_of x + kRestartToleranceNs < snd anchor \<or> fst anchor + lat + kOffsetJumpNs < c)"

fun epochs_ok :: "int \<Rightarrow> (int \<times> int) option \<Rightarrow> epoch list \<Rightarrow> bool" where
  "epochs_ok lat anchor [] = True"
| "epochs_ok lat anchor ((c, xs) # eps) \<longleftrightarrow> \<bar>c\<bar> < 2305843009213693952 \<and> list_all (sample_ok c lat) xs \<and>
     (anchor = None \<or> xs = [] \<or> noticed lat (the anchor) c (hd xs)) \<and>
     epochs_ok lat (fold (next_anchor c) xs anchor) eps"

section \<open>The offset follows the epochs\<close>

text \<open>The mapper agrees with the last anchor.\<close>

definition anchored :: "int \<Rightarrow> (int \<times> int) option \<Rightarrow> LidarDeviceClockMapper \<Rightarrow> bool" where
  "anchored lat anchor m \<longleftrightarrow> (case anchor of
       None \<Rightarrow> \<not> cm_initialized m
     | Some (c, d) \<Rightarrow> cm_initialized m \<and> \<bar>c\<bar> < 2305843009213693952 \<and> c \<le> offset_ns m \<and> offset_ns m \<le> c + lat \<and>
         last_device_ns m = d)"

lemma i64_some: "- 9223372036854775808 \<le> x \<Longrightarrow> x \<le> 9223372036854775807 \<Longrightarrow> i64 x = Some x"
  by (simp add: i64_def)

lemma next_offset_between:
  assumes "c \<le> obs" "obs \<le> c + lat" "\<bar>c\<bar> < 2305843009213693952" "0 \<le> lat" "lat < 2305843009213693952"
    and "reset \<or> c \<le> offset_ns m"
  shows "\<exists>off. next_offset reset obs m = Some off \<and> c \<le> off \<and> off \<le> c + lat"
proof (cases "reset \<or> obs < offset_ns m")
  case True
  then show ?thesis
    using assms by (auto simp: next_offset_def)
next
  case False
  let ?d = "obs - offset_ns m"
  have b: "0 \<le> ?d" "?d div 64 \<le> ?d" "0 \<le> ?d div 64" "c \<le> offset_ns m" "offset_ns m + ?d = obs"
    using False assms(6) by auto
  have "i64 ?d = Some ?d" "i64 (offset_ns m + ?d div 64) = Some (offset_ns m + ?d div 64)"
    by (rule i64_some; use b assms(1-5) in linarith)+
  moreover have "next_offset reset obs m = do { d \<leftarrow> i64 ?d; i64 (offset_ns m + d div 64) }"
    using False by (simp add: next_offset_def)
  ultimately have "next_offset reset obs m = Some (offset_ns m + ?d div 64)"
    by simp
  then show ?thesis
    using b assms(2) by (intro exI [of _ "offset_ns m + ?d div 64"]) auto
qed

lemma mapped_time_between:
  assumes "0 \<le> dev" "dev < 2305843009213693952" "\<bar>c\<bar> < 2305843009213693952" "0 \<le> lat" "lat < 2305843009213693952"
    and "c \<le> offset_ns m" "offset_ns m \<le> c + lat" "dev + c \<le> rt"
  shows "\<exists>t. mapped_time dev rt m = Some t \<and> dev + c \<le> t \<and> t \<le> rt \<and> t \<le> dev + c + lat"
proof -
  have "i64 (dev + offset_ns m) = Some (dev + offset_ns m)"
    by (rule i64_some; use assms in linarith)
  then show ?thesis
    using assms by (auto simp: mapped_time_def)
qed

text \<open>The two tests do not overflow, and a change that is noticed is one of them or a fall of the offset.\<close>

lemma device_restarted_some:
  assumes "0 \<le> dev" "dev < 2305843009213693952"
  shows "device_restarted dev m = Some (cm_initialized m \<and> dev + kRestartToleranceNs < last_device_ns m)"
proof -
  have "i64 (dev + kRestartToleranceNs) = Some (dev + kRestartToleranceNs)"
    by (rule i64_some; unfold kRestartToleranceNs_def; use assms in linarith)
  then show ?thesis
    by (simp add: device_restarted_def)
qed

lemma offset_jumped_some:
  assumes "\<bar>obs - offset_ns m\<bar> \<le> 9223372036854775807"
  shows "offset_jumped obs m = Some (cm_initialized m \<and> kOffsetJumpNs < \<bar>obs - offset_ns m\<bar>)"
proof -
  have "i64 (obs - offset_ns m) = Some (obs - offset_ns m)" "i64 \<bar>obs - offset_ns m\<bar> = Some \<bar>obs - offset_ns m\<bar>"
    by (rule i64_some; use assms in linarith)+
  then show ?thesis
    by (simp add: offset_jumped_def)
qed

definition follows :: "int \<Rightarrow> int \<Rightarrow> LidarDeviceClockMapper \<Rightarrow> bool" where
  "follows c dev m \<longleftrightarrow> (cm_initialized m \<longrightarrow> - 2305843009213693952 < offset_ns m \<and> offset_ns m < 4611686018427387904 \<and>
     (c \<le> offset_ns m \<or> dev + kRestartToleranceNs < last_device_ns m \<or> offset_ns m + kOffsetJumpNs < c))"

lemma observe_odometry_between:
  assumes "sample_ok c lat (OdometrySample d r)" "follows c (uint d) m"
    and "\<bar>c\<bar> < 2305843009213693952" "0 \<le> lat" "lat < 2305843009213693952"
  shows "\<exists>t m'. observe_odometry d r m = Some (t, m') \<and> uint d + c \<le> t \<and> t \<le> r \<and> t \<le> uint d + c + lat \<and>
    anchored lat (Some (c, uint d)) m'"
proof -
  have d: "0 \<le> uint d" "uint d < 2305843009213693952" "uint d + c \<le> r" "r \<le> uint d + c + lat"
    using assms(1) by (auto simp: sample_ok_def)
  let ?obs = "r - uint d"
  let ?reset = "cm_initialized m \<longrightarrow> uint d + kRestartToleranceNs < last_device_ns m \<or> kOffsetJumpNs < \<bar>?obs - offset_ns m\<bar>"
  have obs: "i64 ?obs = Some ?obs"
    by (rule i64_some; use d assms(3-5) in linarith)
  have jump: "offset_jumped ?obs m = Some (cm_initialized m \<and> kOffsetJumpNs < \<bar>?obs - offset_ns m\<bar>)"
  proof (cases "cm_initialized m")
    case True
    show ?thesis
      by (rule offset_jumped_some; use True d assms(2-5) in \<open>unfold follows_def, linarith\<close>)
  qed (simp add: offset_jumped_def)
  have "?reset \<or> c \<le> offset_ns m"
    using assms(2) d by (auto simp: follows_def)
  then obtain off where off: "next_offset ?reset ?obs m = Some off" "c \<le> off" "off \<le> c + lat"
    using next_offset_between [of c ?obs lat ?reset m] d assms(3-5) by fastforce
  let ?m = "m\<lparr>offset_ns := off, cm_initialized := True, last_device_ns := uint d\<rparr>"
  obtain t where t: "mapped_time (uint d) r ?m = Some t" "uint d + c \<le> t" "t \<le> r" "t \<le> uint d + c + lat"
    using mapped_time_between [of "uint d" c lat ?m r] d off assms(3-5) by fastforce
  have "\<not> uint d > 2 ^ 63 - 1"
    using d by simp
  then have "observe_odometry d r m = Some (t, ?m)"
    using off(1) t(1)
    by (simp add: observe_odometry_def Let_def obs device_restarted_some [OF d(1,2)] jump)
  then show ?thesis
    using t off assms(3) by (auto simp: anchored_def)
qed

lemma anchored_follows:
  assumes "anchored lat anchor m" "0 \<le> lat" "lat < 2305843009213693952" "anchor = None \<or> noticed lat (the anchor) c x"
  shows "follows c (device_of x) m"
  using assms by (cases anchor) (auto simp: anchored_def follows_def noticed_def)

lemma anchored_same_epoch:
  assumes "anchored lat (Some (c, d)) m" "0 \<le> lat" "lat < 2305843009213693952"
  shows "follows c dev m"
  using assms by (auto simp: anchored_def follows_def)

lemma stamp_between:
  assumes "sample_ok c lat x" "anchored lat anchor m" "\<bar>c\<bar> < 2305843009213693952" "0 \<le> lat" "lat < 2305843009213693952"
    and "anchor = None \<or> fst (the anchor) = c \<or> noticed lat (the anchor) c x"
  shows "\<exists>t m'. stamp x m = Some (t, m') \<and> device_of x + c \<le> t \<and> t \<le> received_at x \<and>
    (next_anchor c x anchor \<noteq> None \<longrightarrow> t \<le> device_of x + c + lat) \<and> anchored lat (next_anchor c x anchor) m'"
proof (cases x)
  case (OdometrySample d r)
  have "follows c (uint d) m"
    using assms(2,4-6) OdometrySample anchored_follows [of lat anchor m c x] anchored_same_epoch [of lat c "snd (the anchor)" m "uint d"]
    by (cases anchor) auto
  then show ?thesis
    using observe_odometry_between [of c lat d r m] assms OdometrySample by (fastforce simp: next_anchor_def)
next
  case (CloudSample d r)
  have d: "0 \<le> uint d" "uint d < 2305843009213693952" "uint d + c \<le> r" "\<not> uint d > 2 ^ 63 - 1"
    using assms(1) CloudSample by (auto simp: sample_ok_def)
  show ?thesis
  proof (cases "anchor")
    case (Some p)
    then have m: "cm_initialized m" "c \<le> offset_ns m" "offset_ns m \<le> c + lat"
      using assms(2,6) CloudSample by (auto simp: anchored_def noticed_def split: prod.splits)
    then obtain t where "mapped_time (uint d) r m = Some t" "uint d + c \<le> t" "t \<le> r" "t \<le> uint d + c + lat"
      using mapped_time_between [of "uint d" c lat m r] d assms(3-5) by auto
    then show ?thesis
      using m(1) CloudSample d(4) assms(2) by (simp add: map_cloud_def next_anchor_def)
  qed (use CloudSample d assms(2) in \<open>simp add: map_cloud_def next_anchor_def anchored_def\<close>)
qed

definition stamp_ok :: "int \<Rightarrow> int \<Rightarrow> bool \<Rightarrow> sample \<Rightarrow> int \<Rightarrow> bool" where
  "stamp_ok c lat known x t \<longleftrightarrow> device_of x + c \<le> t \<and> t \<le> received_at x \<and> (known \<longrightarrow> t \<le> device_of x + c + lat)"

text \<open>The stamps of an epoch: one for each sample, truthful from its first odometry sample on.\<close>

definition epoch_stamped :: "int \<Rightarrow> epoch \<Rightarrow> int list \<Rightarrow> bool" where
  "epoch_stamped lat ep ts \<longleftrightarrow> length ts = length (snd ep) \<and>
     (\<forall>i < length ts. stamp_ok (fst ep) lat (list_ex is_odometry (take (Suc i) (snd ep))) (snd ep ! i) (ts ! i))"

lemma epoch_stamped_Cons:
  assumes "stamp_ok c lat (is_odometry x) x t" "epoch_stamped lat (c, xs) ts"
    and "is_odometry x \<Longrightarrow> \<forall>i < length ts. stamp_ok c lat True (xs ! i) (ts ! i)"
  shows "epoch_stamped lat (c, x # xs) (t # ts)"
proof -
  have "stamp_ok c lat (list_ex is_odometry (take (Suc i) (x # xs))) ((x # xs) ! i) ((t # ts) ! i)" if "i < Suc (length ts)" for i
    using that assms by (cases i; cases "is_odometry x") (auto simp: epoch_stamped_def)
  then show ?thesis
    using assms(2) by (simp add: epoch_stamped_def)
qed

lemma stamps_epoch:
  assumes "\<bar>c\<bar> < 2305843009213693952" "0 \<le> lat" "lat < 2305843009213693952"
    and "list_all (sample_ok c lat) xs" "anchored lat anchor m"
    and "anchor = None \<or> fst (the anchor) = c \<or> xs = [] \<or> noticed lat (the anchor) c (hd xs)"
  shows "\<exists>ts m'. stamps xs m = Some (ts, m') \<and> epoch_stamped lat (c, xs) ts \<and>
    (anchor \<noteq> None \<longrightarrow> (\<forall>i < length ts. stamp_ok c lat True (xs ! i) (ts ! i))) \<and>
    anchored lat (fold (next_anchor c) xs anchor) m'"
  using assms(4-6)
proof (induction xs arbitrary: m anchor)
  case (Cons x xs)
  let ?a = "next_anchor c x anchor"
  obtain t m' where t: "stamp x m = Some (t, m')" "device_of x + c \<le> t" "t \<le> received_at x"
      "?a \<noteq> None \<longrightarrow> t \<le> device_of x + c + lat" "anchored lat ?a m'"
    using stamp_between [of c lat x anchor m] assms(1-3) Cons.prems by auto
  have a: "?a = None \<or> fst (the ?a) = c"
    using Cons.prems(3) by (auto simp: next_anchor_def noticed_def)
  obtain ts m'' where ts: "stamps xs m' = Some (ts, m'')" "epoch_stamped lat (c, xs) ts"
      "?a \<noteq> None \<longrightarrow> (\<forall>i < length ts. stamp_ok c lat True (xs ! i) (ts ! i))"
      "anchored lat (fold (next_anchor c) xs ?a) m''"
    using Cons.IH [of ?a m'] Cons.prems(1) t(5) a by auto
  have x: "stamp_ok c lat (?a \<noteq> None) x t"
    using t(2-4) by (simp add: stamp_ok_def)
  have "epoch_stamped lat (c, x # xs) (t # ts)"
    using x ts(2,3) by (intro epoch_stamped_Cons) (auto simp: next_anchor_def stamp_ok_def)
  moreover have "stamp_ok c lat True ((x # xs) ! i) ((t # ts) ! i)" if "anchor \<noteq> None" "i < Suc (length ts)" for i
    using that x ts(3) by (cases i) (auto simp: next_anchor_def split: if_splits)
  ultimately show ?case
    using t(1) ts(1,4) by auto
qed (simp add: epoch_stamped_def)

lemma stamps_epochs:
  assumes "0 \<le> lat" "lat < 2305843009213693952" "epochs_ok lat anchor eps" "anchored lat anchor m"
  shows "\<exists>tss m'. stamps (concat (map snd eps)) m = Some (concat tss, m') \<and> list_all2 (epoch_stamped lat) eps tss"
  using assms(3,4)
proof (induction eps arbitrary: anchor m)
  case (Cons ep eps)
  obtain c xs where ep: "ep = (c, xs)"
    by (cases ep)
  obtain ts m' where ts: "stamps xs m = Some (ts, m')" "epoch_stamped lat (c, xs) ts"
      "anchored lat (fold (next_anchor c) xs anchor) m'"
    using stamps_epoch [of c lat xs anchor m] assms(1,2) Cons.prems ep by auto
  obtain tss m'' where tss: "stamps (concat (map snd eps)) m' = Some (concat tss, m'')" "list_all2 (epoch_stamped lat) eps tss"
    using Cons.IH [OF _ ts(3)] Cons.prems(1) ep by auto
  show ?case
    using ts(1,2) tss ep by (intro exI [of _ "ts # tss"]) (simp add: stamps_append)
qed (auto intro!: exI [of _ "[]"])

section \<open>Properties\<close>

text \<open>
  C37. Lidar timestamps are truthful across device restarts and clock changes. The samples come in epochs, each with a
  device clock at one offset (below 2 to the 61) from the ROS clock; odometry arrives within a latency bound, no sample is
  received before it was taken, and a change of offset is followed by an odometry sample and is a fall, or a rise
  together with a device clock that went back by more than the restart tolerance, or a rise by more than the jump
  threshold and the latency. Then no step overflows, every sample is stamped no earlier than it was taken and no later than
  it was received, and from the first odometry sample of its epoch on, no later than the latency bound after it was
  taken, however late a point cloud is completed.
\<close>

theorem lidar_stamps_truthful:
  assumes "0 \<le> lat" "lat < 2 ^ 61" "epochs_ok lat None eps"
  shows "\<exists>tss m. stamps (concat (map snd eps)) new_mapper = Some (concat tss, m) \<and> length tss = length eps \<and>
    (\<forall>k < length eps. length (tss ! k) = length (snd (eps ! k)) \<and>
      (\<forall>i < length (tss ! k). case eps ! k of (c, xs) \<Rightarrow>
         device_of (xs ! i) + c \<le> tss ! k ! i \<and> tss ! k ! i \<le> received_at (xs ! i) \<and>
         (list_ex is_odometry (take (Suc i) xs) \<longrightarrow> tss ! k ! i \<le> device_of (xs ! i) + c + lat)))"
proof -
  have "anchored lat None new_mapper"
    by (simp add: anchored_def new_mapper_def)
  then obtain tss m where "stamps (concat (map snd eps)) new_mapper = Some (concat tss, m)" "list_all2 (epoch_stamped lat) eps tss"
    using stamps_epochs [of lat None eps new_mapper] assms by auto
  then show ?thesis
    by (intro exI [of _ tss] exI [of _ m])
      (auto simp: list_all2_conv_all_nth epoch_stamped_def stamp_ok_def split: prod.splits)
qed

text \<open>
  A device that restarts: its clock goes back by a second and a half while the offset rises by 1.6 seconds, less than the
  jump threshold; then the ROS clock is set forward by five seconds.
\<close>

definition ex_epochs :: "epoch list" where
  "ex_epochs = [(0, [OdometrySample 5000000000 5000000010, CloudSample 4900000000 5100000000]),
     (1600000000, [OdometrySample 3500000000 5100000020, CloudSample 3400000000 9900000000]),
     (6600000000, [OdometrySample 3600000000 10200000005, CloudSample 3550000000 10900000000])]"

theorem lidar_stamps_truthful_witness:
  "\<exists>tss m. stamps (concat (map snd ex_epochs)) new_mapper = Some (concat tss, m) \<and>
     5000000000 \<le> tss ! 1 ! 1 \<and> tss ! 1 ! 1 \<le> 5000000020 \<and> 10150000000 \<le> tss ! 2 ! 1 \<and> tss ! 2 ! 1 \<le> 10150000020"
proof -
  have "epochs_ok 20 None ex_epochs"
    by (simp add: ex_epochs_def sample_ok_def next_anchor_def noticed_def kRestartToleranceNs_def kOffsetJumpNs_def)
  then obtain tss m where ts: "stamps (concat (map snd ex_epochs)) new_mapper = Some (concat tss, m)"
      "\<forall>k < length ex_epochs. length (tss ! k) = length (snd (ex_epochs ! k)) \<and>
        (\<forall>i < length (tss ! k). case ex_epochs ! k of (c, xs) \<Rightarrow>
          device_of (xs ! i) + c \<le> tss ! k ! i \<and> tss ! k ! i \<le> received_at (xs ! i) \<and>
          (list_ex is_odometry (take (Suc i) xs) \<longrightarrow> tss ! k ! i \<le> device_of (xs ! i) + c + 20))"
    using lidar_stamps_truthful [of 20 ex_epochs] by auto
  have "length ex_epochs = 3"
    by (simp add: ex_epochs_def)
  with ts(2) [rule_format, of 1] ts(2) [rule_format, of 2] have
      "5000000000 \<le> tss ! 1 ! 1" "tss ! 1 ! 1 \<le> 5000000020" "10150000000 \<le> tss ! 2 ! 1" "tss ! 2 ! 1 \<le> 10150000020"
    by (auto simp: ex_epochs_def)
  with ts(1) show ?thesis
    by blast
qed

text \<open>
  One datagram can make the mapper overflow: a device time just below 2 to the 63 passes the range check, and the
  restart check of an initialised mapper adds a second to it.
\<close>

theorem extreme_device_time_overflows:
  "observe_odometry 0x7FFFFFFFFFFFFFFF 5000 \<lparr>cm_initialized = True, offset_ns = 0, last_device_ns = 0\<rparr> = None"
  by (simp add: observe_odometry_def device_restarted_def i64_def kRestartToleranceNs_def)

end
