(* ===== verification/Node_Bridge.thy ===== *)
theory Node_Bridge
  imports Node_Parameters Lidar_Clock
begin

text \<open>
  The driver node's handlers (\<^verbatim>\<open>HypertronDriverNode::Impl\<close> of \<^verbatim>\<open>driver_node.cpp\<close>): the observer that receives
  what the runtime reports, the ROS subscriptions and services, and the lidar callbacks. They run on different
  threads, so a handler is the list of its critical sections and outputs, and threads interleave between them; a
  section may put further sections in front of what the thread still has to do. The clock is read by the step.
  \<^verbatim>\<open>std::sin\<close> and \<^verbatim>\<open>std::cos\<close> are parameters; log output is left out.

  Ghost state: the status reports that were stored, and with each published robot state how many there were.
\<close>

section \<open>Messages\<close>

record node_pose =
  ps_x :: fl
  ps_y :: fl
  ps_z :: fl
  ps_qx :: fl
  ps_qy :: fl
  ps_qz :: fl
  ps_qw :: fl

record RobotState =
  rs_stamp :: int
  rs_frame :: string
  rs_ssh_connected :: bool
  rs_agent_connected :: bool
  rs_sdk_linked :: bool
  rs_control_authority :: bool
  rs_emergency_stop :: bool
  rs_joint_interface_available :: bool
  rs_camera_available :: bool
  rs_odometry_scale_verified :: bool
  rs_system_status :: u8
  rs_error_code :: u32
  rs_warning_code :: u32
  rs_sport_status :: u16
  rs_battery_percentage :: fl
  rs_battery_temperature :: fl
  rs_battery_voltage :: fl
  rs_battery_cycle_count :: u16
  rs_charge_status :: u16
  rs_wheel_speed :: "fl list"
  rs_protocol_rx_drops :: u32
  rs_rejected_joint_commands :: u32
  rs_last_error :: string

record ImuMsg =
  mi_stamp :: int
  mi_frame :: string
  mi_orientation :: "fl list"
  mi_orientation_covariance :: "fl list"
  mi_angular_velocity_covariance :: "fl list"
  mi_linear_acceleration_covariance :: "fl list"
  mi_angular_velocity :: "fl list"
  mi_linear_acceleration :: "fl list"

record OdometryMsg =
  mo_stamp :: int
  mo_frame :: string
  mo_child_frame :: string
  mo_pose :: node_pose
  mo_covariance :: "fl list"

record TransformMsg =
  mt_stamp :: int
  mt_frame :: string
  mt_child_frame :: string
  mt_transform :: node_pose

text \<open>
  A point cloud; its data is the list of 16-byte cells, each the three coordinates and the packed colour at the
  offsets 0, 4, 8 and 12.
\<close>

record PointCloud2 =
  mc_stamp :: int
  mc_frame :: string
  mc_height :: u32
  mc_width :: u32
  mc_point_step :: u32
  mc_row_step :: u32
  mc_data :: "(fl \<times> fl \<times> fl \<times> u32) list"

datatype node_output =
  PublishState nat RobotState
| PublishImu ImuMsg
| PublishOdom OdometryMsg
| SendTransform TransformMsg
| PublishPoints PointCloud2
| PublishOdomLidar OdometryMsg
| SendLidarTransform TransformMsg
| CallSubmitVelocity velocity
| CallRequestMode string
| CallTriggerEstop bool
| CallRequestAuthority bool
| Respond bool string

section \<open>State\<close>

record node_env =
  ne_ov :: overrides
  ne_sin :: "fl \<Rightarrow> fl"
  ne_cos :: "fl \<Rightarrow> fl"

record node =
  nd_snapshot :: SdkSnapshot
  nd_linked :: bool
  nd_authority :: bool
  nd_estop :: bool
  nd_last_error :: string
  nd_rejected :: u32
  nd_pose :: "node_pose option"
  nd_mapper :: LidarDeviceClockMapper
  nd_outputs :: "node_output list"
  nd_reports :: "(bool \<times> bool) list"
  nd_undefined :: bool

definition zero_snapshot :: SdkSnapshot where
  "zero_snapshot = \<lparr>sn_sdk_linked = False, sn_control_authority = False, sn_system_status = 0, sn_error_code = 0,
     sn_warning_code = 0, sn_sport_status = 0, sn_battery_percentage = Fin 0, sn_battery_temperature = Fin 0,
     sn_battery_voltage = Fin 0, sn_battery_cycle_count = 0, sn_charge_status = 0,
     sn_wheel_speed = [Fin 0, Fin 0, Fin 0, Fin 0]\<rparr>"

definition new_node :: node where
  "new_node = \<lparr>nd_snapshot = zero_snapshot, nd_linked = False, nd_authority = False, nd_estop = False,
     nd_last_error = [], nd_rejected = 0, nd_pose = None, nd_mapper = new_mapper, nd_outputs = [],
     nd_reports = [], nd_undefined = False\<rparr>"

text \<open>\<^verbatim>\<open>decide_tf_broadcaster\<close>: whether the two transform broadcasters exist.\<close>

definition tf_broadcaster :: "node_env \<Rightarrow> bool" where
  "tf_broadcaster e \<longleftrightarrow> as_bool (ne_ov e) ''odom.publish_tf'' \<and> as_bool (ne_ov e) ''odometry.scale_verified''"

definition lidar_tf_broadcaster :: "node_env \<Rightarrow> bool" where
  "lidar_tf_broadcaster e \<longleftrightarrow> as_bool (ne_ov e) ''odom_lidar.publish_tf'' \<and> as_bool (ne_ov e) ''odometry.scale_verified''"

definition lidar_enabled :: "node_env \<Rightarrow> bool" where
  "lidar_enabled e \<longleftrightarrow> as_bool (ne_ov e) ''subscriptions.lidar_enabled''"

section \<open>Helpers\<close>

definition robot_mode_names :: "string list" where
  "robot_mode_names = [''damping'', ''stand'', ''down'', ''move'', ''auto_charge'', ''exit_charge'', ''recover'', ''recovery'']"

definition is_blank :: "char \<Rightarrow> bool" where
  "is_blank c \<longleftrightarrow> (let n = (of_char c :: nat) in n = 32 \<or> n = 9 \<or> n = 13 \<or> n = 10)"

definition trimmed_lower :: "string \<Rightarrow> string" where
  "trimmed_lower input = map tolower (trim_by is_blank input)"

definition finite_or_zero :: "fl \<Rightarrow> fl" where
  "finite_or_zero v = (if isfinite v then v else Fin 0)"

text \<open>The argument is converted from \<^verbatim>\<open>double\<close> to \<^verbatim>\<open>float\<close>.\<close>

definition clamp_unit :: "fl \<Rightarrow> fl" where
  "clamp_unit d = (let v = fl_cast binary32 d in std_max (Fin (- 1)) (std_min (Fin 1) v))"

definition imu_sample_finite :: "ImuSample \<Rightarrow> bool" where
  "imu_sample_finite s \<longleftrightarrow> list_all isfinite (accelerometer s) \<and> list_all isfinite (gyroscope s) \<and>
     list_all isfinite (quaternion s) \<and> isfinite (imu_pitch s) \<and> isfinite (imu_roll s) \<and> isfinite (imu_yaw s) \<and>
     isfinite (odom_x s) \<and> isfinite (odom_y s)"

text \<open>\<^verbatim>\<open>sqrt(x * x + y * y + z * z + w * w)\<close> in the format of the operands.\<close>

definition norm4 :: "fmt \<Rightarrow> fl \<Rightarrow> fl \<Rightarrow> fl \<Rightarrow> fl \<Rightarrow> fl" where
  "norm4 F x y z w = fl_sqrt F (fl_add F (fl_add F (fl_add F (fl_mul F x x) (fl_mul F y y)) (fl_mul F z z)) (fl_mul F w w))"

definition orientation_quaternion :: "bool \<Rightarrow> ImuSample \<Rightarrow> fl list option" where
  "orientation_quaternion wxyz s =
     (let q = quaternion s;
          (x, y, z, w) = (if wxyz then (q ! 1, q ! 2, q ! 3, q ! 0) else (q ! 0, q ! 1, q ! 2, q ! 3));
          n = norm4 binary32 x y z w
      in if \<not> isfinite n \<or> fl_less n (Fin (1 / 2 ^ 21)) then None
         else Some [fl_div binary32 x n, fl_div binary32 y n, fl_div binary32 z n, fl_div binary32 w n])"

definition robot_state :: "node_env \<Rightarrow> int \<Rightarrow> node \<Rightarrow> RobotState" where
  "robot_state e now n = (let s = nd_snapshot n in
     \<lparr>rs_stamp = now, rs_frame = as_string (ne_ov e) ''frames.base'', rs_ssh_connected = False,
      rs_agent_connected = False, rs_sdk_linked = nd_linked n, rs_control_authority = nd_authority n,
      rs_emergency_stop = nd_estop n, rs_joint_interface_available = False, rs_camera_available = False,
      rs_odometry_scale_verified = as_bool (ne_ov e) ''odometry.scale_verified'',
      rs_system_status = sn_system_status s, rs_error_code = sn_error_code s, rs_warning_code = sn_warning_code s,
      rs_sport_status = sn_sport_status s, rs_battery_percentage = finite_or_zero (sn_battery_percentage s),
      rs_battery_temperature = finite_or_zero (sn_battery_temperature s),
      rs_battery_voltage = finite_or_zero (sn_battery_voltage s),
      rs_battery_cycle_count = sn_battery_cycle_count s, rs_charge_status = sn_charge_status s,
      rs_wheel_speed = map finite_or_zero (sn_wheel_speed s), rs_protocol_rx_drops = 0,
      rs_rejected_joint_commands = nd_rejected n, rs_last_error = nd_last_error n\<rparr>)"

definition imu_msg :: "node_env \<Rightarrow> int \<Rightarrow> ImuSample \<Rightarrow> fl list \<Rightarrow> ImuMsg" where
  "imu_msg e now s q = \<lparr>mi_stamp = now, mi_frame = as_string (ne_ov e) ''frames.imu'', mi_orientation = q,
     mi_orientation_covariance = diagonal_covariance (as_double_array (ne_ov e) ''imu.orientation_covariance_diagonal''),
     mi_angular_velocity_covariance = diagonal_covariance (as_double_array (ne_ov e) ''imu.angular_velocity_covariance_diagonal''),
     mi_linear_acceleration_covariance = diagonal_covariance (as_double_array (ne_ov e) ''imu.linear_acceleration_covariance_diagonal''),
     mi_angular_velocity = gyroscope s, mi_linear_acceleration = accelerometer s\<rparr>"

definition imu_pose :: "node_env \<Rightarrow> ImuSample \<Rightarrow> node_pose" where
  "imu_pose e s = (let half = fl_mul binary64 (imu_yaw s) (Fin (1 / 2)) in
     \<lparr>ps_x = odom_x s, ps_y = odom_y s, ps_z = Fin 0, ps_qx = Fin 0, ps_qy = Fin 0, ps_qz = ne_sin e half, ps_qw = ne_cos e half\<rparr>)"

definition odom_msg :: "node_env \<Rightarrow> int \<Rightarrow> ImuSample \<Rightarrow> OdometryMsg" where
  "odom_msg e now s = \<lparr>mo_stamp = now, mo_frame = as_string (ne_ov e) ''frames.odom'',
     mo_child_frame = as_string (ne_ov e) ''frames.base'', mo_pose = imu_pose e s,
     mo_covariance = replicate 36 (Fin 0)\<rparr>"

definition lidar_pose :: "LidarOdometry \<Rightarrow> fl \<Rightarrow> node_pose" where
  "lidar_pose od n = \<lparr>ps_x = od_x od, ps_y = od_y od, ps_z = od_z od, ps_qx = fl_div binary64 (od_qx od) n,
     ps_qy = fl_div binary64 (od_qy od) n, ps_qz = fl_div binary64 (od_qz od) n, ps_qw = fl_div binary64 (od_qw od) n\<rparr>"

text \<open>The configured diagonal in the 6x6 matrix.\<close>

definition pose_covariance :: "fl list \<Rightarrow> fl list" where
  "pose_covariance diag = concat (map (\<lambda>i.
     let v = (if i < length diag \<and> isfinite (diag ! i) then diag ! i else Fin 0)
     in replicate i (Fin 0) @ [v] @ replicate (5 - i) (Fin 0)) [0, 1, 2, 3, 4, 5])"

definition points_msg :: "node_env \<Rightarrow> int \<Rightarrow> PointCloudFrame \<Rightarrow> PointCloud2" where
  "points_msg e t f = (let width = of_nat (length (fr_points f)) in
     \<lparr>mc_stamp = t, mc_frame = as_string (ne_ov e) ''lidar.frame_id'', mc_height = 1, mc_width = width,
      mc_point_step = 16, mc_row_step = 16 * width,
      mc_data = map (\<lambda>p. (pt_x p, pt_y p, pt_z p, pt_rgba p)) (fr_points f)\<rparr>)"

section \<open>Critical sections\<close>

datatype crit =
  StoreSnapshot SdkSnapshot
| StoreWheelSpeed "fl list"
| StoreStatus bool bool
| ResetPose
| StorePose node_pose
| StoreError string
| StoreEstop bool
| CountRejected
| ReadState
| FinishState nat RobotState
| CheckPose
| ReadPose
| MapCloud PointCloudFrame
| ObserveOdometry LidarOdometry fl
| Emit node_output

definition emit :: "node_output \<Rightarrow> node \<Rightarrow> node" where
  "emit x n = n\<lparr>nd_outputs := nd_outputs n @ [x]\<rparr>"

definition store_status :: "bool \<Rightarrow> bool \<Rightarrow> node \<Rightarrow> node \<times> crit list" where
  "store_status linked authority n =
     (let changed = (nd_linked n \<noteq> linked \<or> nd_authority n \<noteq> authority);
          n = (if changed then n\<lparr>nd_linked := linked, nd_authority := authority\<rparr> else n);
          n = n\<lparr>nd_reports := nd_reports n @ [(linked, authority)]\<rparr>
      in (n, (if linked then [] else [ResetPose]) @ (if changed then [ReadState] else [])))"

text \<open>
  \<^verbatim>\<open>publish_robot_state\<close> and \<^verbatim>\<open>publish_tf\<close> copy under the lock and publish what they copied; the clock and the
  atomic count of rejected joint commands are read after the lock is released.
\<close>

definition publish_robot_state :: "node_env \<Rightarrow> int \<Rightarrow> node \<Rightarrow> node \<times> crit list" where
  "publish_robot_state e now n = (n, [FinishState (length (nd_reports n)) (robot_state e now n)])"

definition finish_state :: "int \<Rightarrow> nat \<Rightarrow> RobotState \<Rightarrow> node \<Rightarrow> node \<times> crit list" where
  "finish_state now k m n = (n, [Emit (PublishState k (m\<lparr>rs_stamp := now, rs_rejected_joint_commands := nd_rejected n\<rparr>))])"

definition publish_tf :: "node_env \<Rightarrow> int \<Rightarrow> node \<Rightarrow> node \<times> crit list" where
  "publish_tf e now n =
     (case nd_pose n of
        None \<Rightarrow> (n, [])
      | Some p \<Rightarrow> (n, [Emit (SendTransform \<lparr>mt_stamp = now, mt_frame = as_string (ne_ov e) ''frames.odom'',
          mt_child_frame = as_string (ne_ov e) ''frames.base'', mt_transform = p\<rparr>)]))"

definition map_cloud_section :: "node_env \<Rightarrow> int \<Rightarrow> PointCloudFrame \<Rightarrow> node \<Rightarrow> node \<times> crit list" where
  "map_cloud_section e now f n =
     (case map_cloud (fr_timestamp_ns f) now (nd_mapper n) of
        None \<Rightarrow> (n\<lparr>nd_undefined := True\<rparr>, [])
      | Some t \<Rightarrow> (n, [Emit (PublishPoints (points_msg e t f))]))"

definition observe_section :: "node_env \<Rightarrow> int \<Rightarrow> LidarOdometry \<Rightarrow> fl \<Rightarrow> node \<Rightarrow> node \<times> crit list" where
  "observe_section e now od len n =
     (let parent = as_string (ne_ov e) ''odom_lidar.parent_frame''; child = as_string (ne_ov e) ''odom_lidar.child_frame'' in
      case observe_odometry (od_timestamp_ns od) now (nd_mapper n) of
        None \<Rightarrow> (n\<lparr>nd_undefined := True\<rparr>, [])
      | Some (t, m) \<Rightarrow> (n\<lparr>nd_mapper := m\<rparr>,
          [Emit (PublishOdomLidar \<lparr>mo_stamp = t, mo_frame = parent, mo_child_frame = child,
             mo_pose = lidar_pose od len,
             mo_covariance = pose_covariance (as_double_array (ne_ov e) ''odom_lidar.pose_covariance_diagonal'')\<rparr>)] @
          (if lidar_tf_broadcaster e
           then [Emit (SendLidarTransform \<lparr>mt_stamp = t, mt_frame = parent, mt_child_frame = child,
                   mt_transform = lidar_pose od len\<rparr>)]
           else [])))"

fun run_section :: "node_env \<Rightarrow> int \<Rightarrow> crit \<Rightarrow> node \<Rightarrow> node \<times> crit list" where
  "run_section e now (StoreSnapshot s) n = (n\<lparr>nd_snapshot := s\<rparr>, [])"
| "run_section e now (StoreWheelSpeed ws) n = (n\<lparr>nd_snapshot := (nd_snapshot n)\<lparr>sn_wheel_speed := ws\<rparr>\<rparr>, [])"
| "run_section e now (StoreStatus linked authority) n = store_status linked authority n"
| "run_section e now ResetPose n = (n\<lparr>nd_pose := None\<rparr>, [])"
| "run_section e now (StorePose p) n = (n\<lparr>nd_pose := Some p\<rparr>, [])"
| "run_section e now (StoreError msg) n = (n\<lparr>nd_last_error := msg\<rparr>, [])"
| "run_section e now (StoreEstop b) n = (n\<lparr>nd_estop := b\<rparr>, [])"
| "run_section e now CountRejected n = (n\<lparr>nd_rejected := nd_rejected n + 1\<rparr>, [])"
| "run_section e now ReadState n = publish_robot_state e now n"
| "run_section e now (FinishState k m) n = finish_state now k m n"
| "run_section e now CheckPose n = (n, if nd_pose n = None then [] else [ReadPose])"
| "run_section e now ReadPose n = publish_tf e now n"
| "run_section e now (MapCloud f) n = map_cloud_section e now f n"
| "run_section e now (ObserveOdometry od len) n = observe_section e now od len n"
| "run_section e now (Emit x) n = (emit x n, [])"

section \<open>Handlers\<close>

definition on_state :: "node_env \<Rightarrow> SdkSnapshot \<Rightarrow> crit list" where
  "on_state e snapshot = [StoreSnapshot snapshot, ReadState] @ (if tf_broadcaster e then [CheckPose] else [])"

definition on_imu :: "node_env \<Rightarrow> int \<Rightarrow> ImuSample \<Rightarrow> crit list" where
  "on_imu e now s =
     (if \<not> imu_sample_finite s
      then [StoreError ''dropped sample: IMU telemetry contained a non-finite value'']
      else case orientation_quaternion (as_string (ne_ov e) ''imu.quaternion_order'' = ''wxyz'') s of
             None \<Rightarrow> [StoreError ''dropped sample: IMU orientation norm was zero'']
           | Some q \<Rightarrow>
               [Emit (PublishImu (imu_msg e now s q)), Emit (PublishOdom (odom_msg e now s)), StorePose (imu_pose e s)] @
               (if tf_broadcaster e then [ReadPose] else []))"

definition on_sport :: "SportSample \<Rightarrow> crit list" where
  "on_sport s =
     (if \<not> list_all isfinite (wheel_speed s)
      then [StoreError ''dropped sport sample: wheel speed contained a non-finite value'']
      else [StoreWheelSpeed (wheel_speed s)])"

definition on_status :: "bool \<Rightarrow> bool \<Rightarrow> crit list" where
  "on_status linked authority = [StoreStatus linked authority]"

definition on_event :: "Severity \<Rightarrow> string \<Rightarrow> crit list" where
  "on_event severity msg = (if severity = Info then [] else [StoreError msg, ReadState])"

definition on_cmd_vel :: "fl \<Rightarrow> fl \<Rightarrow> fl \<Rightarrow> crit list" where
  "on_cmd_vel x y yaw =
     (if \<not> isfinite x \<or> \<not> isfinite y \<or> \<not> isfinite yaw then []
      else [Emit (CallSubmitVelocity \<lparr>vx = clamp_unit x, vy = clamp_unit y, vyaw = clamp_unit yaw\<rparr>)])"

definition on_robot_mode :: "string \<Rightarrow> crit list" where
  "on_robot_mode input =
     (let name = trimmed_lower input in if name \<notin> set robot_mode_names then [] else [Emit (CallRequestMode name)])"

definition reject_joint_command :: "string \<Rightarrow> crit list" where
  "reject_joint_command reason = [CountRejected, StoreError reason, ReadState]"

definition on_joint_commands :: "crit list" where
  "on_joint_commands = reject_joint_command ''joint command rejected: ASTRALL 1.0.7 exposes no joint API''"

text \<open>
  The services; the reply is the result of the runtime's future, or nothing when it is not ready within the
  service timeout.
\<close>

definition on_emergency_stop :: "bool \<Rightarrow> Result option \<Rightarrow> crit list" where
  "on_emergency_stop engage reply =
     [StoreEstop engage, Emit (CallTriggerEstop engage),
      Emit (case reply of
              Some r \<Rightarrow> Respond (success r) (message r)
            | None \<Rightarrow> Respond False ''estop request latched locally but SDK execution was not confirmed within the service timeout''),
      ReadState]"

definition on_control_authority :: "bool \<Rightarrow> Result option \<Rightarrow> crit list" where
  "on_control_authority sdk reply =
     [Emit (CallRequestAuthority sdk),
      Emit (case reply of
              Some r \<Rightarrow> Respond (success r) (message r)
            | None \<Rightarrow> Respond False ''control authority request not confirmed within the service timeout''),
      ReadState]"

definition on_lidar_frame :: "node_env \<Rightarrow> PointCloudFrame \<Rightarrow> crit list" where
  "on_lidar_frame e f = (if lidar_enabled e then [MapCloud f] else [])"

definition on_lidar_odometry :: "node_env \<Rightarrow> LidarOdometry \<Rightarrow> crit list" where
  "on_lidar_odometry e od =
     (if \<not> lidar_enabled e then []
      else let n = norm4 binary64 (od_qx od) (od_qy od) (od_qz od) (od_qw od) in
        if \<not> isfinite n \<or> fl_less n (Fin (1 / 2 ^ 50)) then [] else [ObserveOdometry od n])"

text \<open>What reaches the node: reports of the runtime, ROS messages and requests, and lidar data.\<close>

datatype node_event =
  Observed observation
| CmdVel fl fl fl
| RobotMode string
| JointCommands
| EmergencyStop bool "Result option"
| ControlAuthority bool "Result option"
| LidarFrame PointCloudFrame
| LidarOdometrySample LidarOdometry

fun handler :: "node_env \<Rightarrow> int \<Rightarrow> node_event \<Rightarrow> crit list" where
  "handler e now (Observed (OnState s)) = on_state e s"
| "handler e now (Observed (OnImu s)) = on_imu e now s"
| "handler e now (Observed (OnSport s)) = on_sport s"
| "handler e now (Observed (OnStatus l a)) = on_status l a"
| "handler e now (Observed (OnEvent sev msg)) = on_event sev msg"
| "handler e now (CmdVel x y yaw) = on_cmd_vel x y yaw"
| "handler e now (RobotMode input) = on_robot_mode input"
| "handler e now JointCommands = on_joint_commands"
| "handler e now (EmergencyStop b r) = on_emergency_stop b r"
| "handler e now (ControlAuthority b r) = on_control_authority b r"
| "handler e now (LidarFrame f) = on_lidar_frame e f"
| "handler e now (LidarOdometrySample od) = on_lidar_odometry e od"

section \<open>Runs\<close>

record bridge =
  br_node :: node
  br_threads :: "nat \<Rightarrow> crit list"

datatype bridge_label = Begin nat node_event int | Section nat int

text \<open>The last act of the constructor publishes one state.\<close>

definition new_bridge :: bridge where
  "new_bridge = \<lparr>br_node = new_node, br_threads = (\<lambda>t. [])(0 := [ReadState])\<rparr>"

fun bridge_next :: "node_env \<Rightarrow> bridge_label \<Rightarrow> bridge \<Rightarrow> bridge option" where
  "bridge_next e (Begin t ev now) b =
     (if br_threads b t = [] then Some (b\<lparr>br_threads := (br_threads b)(t := handler e now ev)\<rparr>) else None)"
| "bridge_next e (Section t now) b =
     (case br_threads b t of
        [] \<Rightarrow> None
      | s # rest \<Rightarrow> (case run_section e now s (br_node b) of
          (n, then_do) \<Rightarrow> Some (b\<lparr>br_node := n, br_threads := (br_threads b)(t := then_do @ rest)\<rparr>)))"

definition bridge_start :: "bridge \<Rightarrow> bool" where
  "bridge_start b \<longleftrightarrow> b = new_bridge"

definition bridge_step :: "node_env \<Rightarrow> bridge \<Rightarrow> bridge_label \<Rightarrow> bridge \<Rightarrow> bool" where
  "bridge_step e b l c \<longleftrightarrow> bridge_next e l b = Some c"

section \<open>Invariants\<close>

text \<open>The status of the first \<open>k\<close> reports: the last of them, or not linked when there is none.\<close>

definition report_at :: "(bool \<times> bool) list \<Rightarrow> nat \<Rightarrow> bool \<times> bool" where
  "report_at reports k = (if k = 0 then (False, False) else reports ! (k - 1))"

definition finite_state :: "RobotState \<Rightarrow> bool" where
  "finite_state m \<longleftrightarrow> isfinite (rs_battery_percentage m) \<and> isfinite (rs_battery_temperature m) \<and>
     isfinite (rs_battery_voltage m) \<and> list_all isfinite (rs_wheel_speed m)"

definition scale_verified :: "node_env \<Rightarrow> bool" where
  "scale_verified e \<longleftrightarrow> as_bool (ne_ov e) ''odometry.scale_verified''"

definition planar_finite :: "node_pose \<Rightarrow> bool" where
  "planar_finite p \<longleftrightarrow> isfinite (ps_x p) \<and> isfinite (ps_y p) \<and> ps_z p = Fin 0"

fun output_ok :: "node_env \<Rightarrow> (bool \<times> bool) list \<Rightarrow> node_output \<Rightarrow> bool" where
  "output_ok e rs (PublishState k m) \<longleftrightarrow> k \<le> length rs \<and> (rs_sdk_linked m, rs_control_authority m) = report_at rs k \<and>
     finite_state m"
| "output_ok e rs (SendTransform t) \<longleftrightarrow> scale_verified e \<and> planar_finite (mt_transform t)"
| "output_ok e rs (PublishOdom m) \<longleftrightarrow> planar_finite (mo_pose m)"
| "output_ok e rs (PublishImu m) \<longleftrightarrow> list_all isfinite (mi_angular_velocity m) \<and> list_all isfinite (mi_linear_acceleration m)"
| "output_ok e rs (SendLidarTransform t) \<longleftrightarrow> scale_verified e"
| "output_ok e rs (CallSubmitVelocity v) \<longleftrightarrow> velocity_in_unit v"
| "output_ok e rs (CallRequestMode name) \<longleftrightarrow> name \<in> set robot_mode_names"
| "output_ok e rs _ \<longleftrightarrow> True"

fun crit_ok :: "node_env \<Rightarrow> (bool \<times> bool) list \<Rightarrow> crit \<Rightarrow> bool" where
  "crit_ok e rs (Emit x) = output_ok e rs x"
| "crit_ok e rs (FinishState k m) = output_ok e rs (PublishState k m)"
| "crit_ok e rs (StorePose p) = planar_finite p"
| "crit_ok e rs CheckPose = scale_verified e"
| "crit_ok e rs ReadPose = scale_verified e"
| "crit_ok e rs _ = True"

definition node_inv :: "node_env \<Rightarrow> node \<Rightarrow> bool" where
  "node_inv e n \<longleftrightarrow> (nd_linked n, nd_authority n) = report_at (nd_reports n) (length (nd_reports n)) \<and>
     list_all (output_ok e (nd_reports n)) (nd_outputs n) \<and> pred_option planar_finite (nd_pose n)"

definition bridge_inv :: "node_env \<Rightarrow> bridge \<Rightarrow> bool" where
  "bridge_inv e b \<longleftrightarrow> node_inv e (br_node b) \<and> (\<forall>t. list_all (crit_ok e (nd_reports (br_node b))) (br_threads b t))"

lemma report_at_append: "k \<le> length rs \<Longrightarrow> report_at (rs @ xs) k = report_at rs k"
  by (auto simp: report_at_def nth_append)

lemma output_ok_append: "output_ok e rs x \<Longrightarrow> output_ok e (rs @ xs) x"
  by (cases x) (auto simp: report_at_append)

lemma crit_ok_append: "crit_ok e rs c \<Longrightarrow> crit_ok e (rs @ xs) c"
  by (cases c) (auto simp: output_ok_append report_at_append)

lemma unit_range_minmax: "v \<noteq> NaN \<Longrightarrow> unit_range (std_max (Fin (- 1)) (std_min (Fin 1) v))"
  by (cases v) (auto simp: std_max_def std_min_def unit_range_def)

lemma fround_not_nan: "fround F x \<noteq> NaN"
  by (simp add: fround_def Let_def)

lemma clamp_unit_range_node: "isfinite d \<Longrightarrow> unit_range (clamp_unit d)"
  by (cases d) (auto simp: clamp_unit_def Let_def fround_not_nan intro!: unit_range_minmax)

lemma handler_ok: "list_all (crit_ok e rs) (handler e now ev)"
proof (cases ev)
  case (Observed ob)
  then show ?thesis
    by (cases ob) (auto simp: on_state_def on_imu_def on_sport_def on_status_def on_event_def tf_broadcaster_def
        scale_verified_def imu_sample_finite_def imu_msg_def odom_msg_def imu_pose_def planar_finite_def Let_def
        split: option.split)
qed (auto simp: on_cmd_vel_def on_robot_mode_def on_joint_commands_def reject_joint_command_def on_emergency_stop_def
    on_control_authority_def on_lidar_frame_def on_lidar_odometry_def velocity_in_unit_def clamp_unit_range_node Let_def
    split: option.split)

lemma robot_state_ok:
  assumes "node_inv e n"
  shows "output_ok e (nd_reports n) (PublishState (length (nd_reports n)) (robot_state e now n))"
  using assms by (auto simp: node_inv_def robot_state_def finite_state_def finite_or_zero_def Let_def list_all_iff)

lemma finish_state_ok:
  "output_ok e rs (PublishState k m) \<Longrightarrow> output_ok e rs (PublishState k (m\<lparr>rs_stamp := a, rs_rejected_joint_commands := c\<rparr>))"
  by (simp add: finite_state_def)

lemma outputs_ok_append: "list_all (output_ok e rs) xs \<Longrightarrow> list_all (output_ok e (rs @ ys)) xs"
  by (auto simp: list_all_iff output_ok_append)

lemma node_inv_store_status:
  assumes "node_inv e n" "store_status linked authority n = (m, more_crit)"
  shows "node_inv e m"
proof -
  have "nd_reports m = nd_reports n @ [(linked, authority)]" "nd_outputs m = nd_outputs n"
    "(nd_linked m, nd_authority m) = (linked, authority)" "nd_pose m = nd_pose n"
    using assms(2) by (auto simp: store_status_def Let_def split: if_splits)
  then show ?thesis
    using assms(1) by (simp add: node_inv_def report_at_def outputs_ok_append)
qed

lemma run_section_ok:
  assumes "node_inv e n" "crit_ok e (nd_reports n) c" "run_section e now c n = (m, more_crit)"
  shows "\<exists>xs. nd_reports m = nd_reports n @ xs" "node_inv e m" "list_all (crit_ok e (nd_reports m)) more_crit"
proof -
  have plain: "node_inv e (n\<lparr>nd_snapshot := a\<rparr>)" "pred_option planar_finite b \<Longrightarrow> node_inv e (n\<lparr>nd_pose := b\<rparr>)" "node_inv e (n\<lparr>nd_last_error := d\<rparr>)"
    "node_inv e (n\<lparr>nd_estop := f\<rparr>)" "node_inv e (n\<lparr>nd_rejected := g\<rparr>)" "node_inv e (n\<lparr>nd_mapper := h\<rparr>)"
    "node_inv e (n\<lparr>nd_undefined := u\<rparr>)" for a b d f g h u
    using assms(1) by (simp_all add: node_inv_def)
  show "\<exists>xs. nd_reports m = nd_reports n @ xs"
    using assms(3) by (cases c) (auto simp: store_status_def publish_robot_state_def finish_state_def publish_tf_def map_cloud_section_def
        observe_section_def emit_def Let_def split: option.splits if_splits)
  have "node_inv e (emit x n)" if "output_ok e (nd_reports n) x" for x
    using assms(1) that by (simp add: node_inv_def emit_def)
  then show "node_inv e m"
    using assms plain
    by (cases c) (auto simp: publish_robot_state_def finish_state_def publish_tf_def map_cloud_section_def
        observe_section_def Let_def dest: node_inv_store_status split: option.splits if_splits)
  show "list_all (crit_ok e (nd_reports m)) more_crit"
    using assms robot_state_ok [OF assms(1), of now]
    by (cases c) (auto simp: store_status_def publish_robot_state_def finish_state_def publish_tf_def map_cloud_section_def
        observe_section_def lidar_tf_broadcaster_def scale_verified_def Let_def finish_state_ok node_inv_def simp del: output_ok.simps(1)
        split: option.splits if_splits)
qed

lemma bridge_inv_step:
  assumes "bridge_inv e b" "bridge_step e b l c"
  shows "bridge_inv e c"
proof (cases l)
  case (Begin t ev now)
  then show ?thesis
    using assms handler_ok by (auto simp: bridge_inv_def bridge_step_def split: if_splits)
next
  case (Section t now)
  then obtain s rest where r: "br_threads b t = s # rest"
    using assms(2) by (auto simp: bridge_step_def split: list.splits)
  obtain m more_crit where x: "run_section e now s (br_node b) = (m, more_crit)"
    by fastforce
  have c: "c = b\<lparr>br_node := m, br_threads := (br_threads b)(t := more_crit @ rest)\<rparr>"
    using assms(2) Section r x by (simp add: bridge_step_def)
  have ok: "node_inv e (br_node b)" "list_all (crit_ok e (nd_reports (br_node b))) (br_threads b u)" for u
    using assms(1) by (simp_all add: bridge_inv_def)
  have "crit_ok e (nd_reports (br_node b)) s"
    using ok(2) [of t] r by simp
  note k = run_section_ok [OF ok(1) this x]
  have keep: "list_all (crit_ok e (nd_reports m)) (br_threads b u)" for u
    using ok(2) [of u] k(1) by (auto simp: list_all_iff crit_ok_append)
  then have "list_all (crit_ok e (nd_reports m)) rest"
    using r by (metis list.pred_inject(2))
  then show ?thesis
    using k(2,3) keep by (simp add: bridge_inv_def c)
qed

lemma bridge_inv_start: "bridge_start b \<Longrightarrow> bridge_inv e b"
  by (simp add: bridge_start_def new_bridge_def new_node_def bridge_inv_def node_inv_def report_at_def)

interpretation bridge: invariant_system bridge_start "bridge_step e" "bridge_inv e" for e
  by unfold_locales (blast intro: bridge_inv_start bridge_inv_step)+

lemma bridge_output_ok:
  "reach bridge_start (bridge_step e) b \<Longrightarrow> x \<in> set (nd_outputs (br_node b)) \<Longrightarrow>
   output_ok e (nd_reports (br_node b)) x"
  using bridge.inv_reach [of e b] by (auto simp: bridge_inv_def node_inv_def list_all_iff)

text \<open>The labels of a run, executed.\<close>

fun bridge_run :: "node_env \<Rightarrow> bridge_label list \<Rightarrow> bridge \<Rightarrow> bridge option" where
  "bridge_run e [] b = Some b"
| "bridge_run e (l # ls) b = (case bridge_next e l b of None \<Rightarrow> None | Some c \<Rightarrow> bridge_run e ls c)"

lemma bridge_run_run: "bridge_run e ls b = Some c \<Longrightarrow> run (bridge_step e) b ls c"
  by (induction ls arbitrary: b) (auto simp: bridge_step_def intro: run.intros split: option.splits)

lemma bridge_run_reach:
  "reach bridge_start (bridge_step e) b \<Longrightarrow> bridge_run e ls b = Some c \<Longrightarrow> reach bridge_start (bridge_step e) c"
proof (induction ls arbitrary: b)
  case (Cons l ls)
  then obtain d where d: "bridge_next e l b = Some d" "bridge_run e ls d = Some c"
    by (auto split: option.splits)
  have "bridge_step e b l d"
    unfolding bridge_step_def by (fact d(1))
  from reach.reach_step [OF Cons.prems(1) this] show ?case
    using d(2) by (rule Cons.IH)
qed simp

lemma bridge_run_new_reach: "bridge_run e ls new_bridge = Some c \<Longrightarrow> reach bridge_start (bridge_step e) c"
  by (rule bridge_run_reach) (auto intro: reach.reach_start simp: bridge_start_def)

section \<open>The commands the node forwards\<close>

lemma is_blank_isspace: "is_blank c \<Longrightarrow> isspace c"
  by (auto simp: is_blank_def isspace_def Let_def)

lemma robot_mode_names_known: "name \<in> set robot_mode_names \<longleftrightarrow> map_of kModes name \<noteq> None"
  by (auto simp: robot_mode_names_def kModes_def)

lemma clamp_velocity_idle: "velocity_in_unit v \<Longrightarrow> clamp_velocity v = v"
  by (cases v; cases "vx v"; cases "vy v"; cases "vyaw v")
    (auto simp: velocity_in_unit_def unit_range_def clamp_velocity_def std_clamp_def)

text \<open>A name of the table is its own normal form, so the controller finds the mode the node accepted.\<close>

lemma robot_mode_names_normal: "name \<in> set robot_mode_names \<Longrightarrow> normalized_mode name = name"
  by (auto simp: robot_mode_names_def normalized_mode_def trim_by_def isspace_def tolower_def)

text \<open>
  C15. What the node hands to the runtime is well formed, in every interleaving of its handlers: a velocity
  has its three components in [-1, 1], so the controller's own clamp does not change it, and a mode name is one the
  controller knows in the form the controller looks up.
\<close>

theorem forwarded_commands_well_formed:
  assumes "reach bridge_start (bridge_step e) b" "x \<in> set (nd_outputs (br_node b))"
  shows "(case x of
       CallSubmitVelocity v \<Rightarrow> velocity_in_unit v \<and> clamp_velocity v = v
     | CallRequestMode name \<Rightarrow> normalized_mode name = name \<and> map_of kModes name \<noteq> None
     | _ \<Rightarrow> True)"
  using bridge_output_ok [OF assms]
  by (cases x) (auto simp: clamp_velocity_idle robot_mode_names_normal robot_mode_names_known)

definition ex_node_env :: "bool \<Rightarrow> node_env" where
  "ex_node_env verified = \<lparr>ne_ov = (ex_overrides 1000)\<lparr>ov_bool := [''odom.publish_tf'' \<mapsto> True, ''odometry.scale_verified'' \<mapsto> verified]\<rparr>,
     ne_sin = (\<lambda>x. Fin 0), ne_cos = (\<lambda>x. Fin 1)\<rparr>"

lemma fround_small:
  "fround binary32 (numeral n) = Fin (numeral n)" "fround binary32 (- numeral n) = Fin (- numeral n)"
  if "(numeral n :: int) < 2 ^ 24"
  using fround_int [of "numeral n" binary32] fround_int [of "- numeral n" binary32] that by simp_all

lemma fround_zero: "fround F 0 = Fin 0"
  by (simp add: fround_def)

lemmas bridge_eval = new_bridge_def new_node_def on_state_def on_imu_def on_sport_def on_status_def on_event_def
  on_cmd_vel_def on_robot_mode_def store_status_def publish_robot_state_def finish_state_def publish_tf_def emit_def
  robot_state_def zero_snapshot_def Let_def tf_broadcaster_def

theorem forwarded_commands_well_formed_witness:
  "\<exists>b. bridge_run (ex_node_env True) [Begin 1 (CmdVel (Fin 3) (Fin 0) (Fin (- 7))) 0, Section 1 0] new_bridge = Some b \<and>
     nd_outputs (br_node b) = [CallSubmitVelocity \<lparr>vx = Fin 1, vy = Fin 0, vyaw = Fin (- 1)\<rparr>] \<and>
     velocity_in_unit \<lparr>vx = Fin 1, vy = Fin 0, vyaw = Fin (- 1)\<rparr>"
proof -
  obtain b where b: "bridge_run (ex_node_env True) [Begin 1 (CmdVel (Fin 3) (Fin 0) (Fin (- 7))) 0, Section 1 0] new_bridge = Some b"
      "nd_outputs (br_node b) = [CallSubmitVelocity \<lparr>vx = Fin 1, vy = Fin 0, vyaw = Fin (- 1)\<rparr>]"
    by (simp add: bridge_eval clamp_unit_def std_max_def std_min_def fround_small fround_zero)
  then show ?thesis
    using forwarded_commands_well_formed [OF bridge_run_new_reach [OF b(1)],
        of "CallSubmitVelocity \<lparr>vx = Fin 1, vy = Fin 0, vyaw = Fin (- 1)\<rparr>"] by auto
qed

text \<open>
  The filter of the mode topic is exact: a name is forwarded if and only if, trimmed and lower-cased, it is a
  mode of the controller's table, and then the name the runtime receives selects that very mode.
\<close>

theorem robot_mode_filter_exact:
  "on_robot_mode input =
     (case map_of kModes (trimmed_lower input) of
        None \<Rightarrow> []
      | Some m \<Rightarrow> [Emit (CallRequestMode (trimmed_lower input))]) \<and>
   (map_of kModes (trimmed_lower input) = None \<or>
    map_of kModes (normalized_mode (trimmed_lower input)) = map_of kModes (trimmed_lower input))"
  by (auto simp: on_robot_mode_def Let_def robot_mode_names_known robot_mode_names_normal split: option.split)

section \<open>The robot state\<close>

text \<open>
  C14. A published robot state is truthful about the link and the control authority: whatever the interleaving of
  handlers, both flags are those of one status report, the latest when the publisher read the state (and "not linked,
  not authorized" when there was none), never a mixture of two reports nor a value from a polled snapshot; and every
  floating-point field of it is finite.
\<close>

theorem robot_state_truthful:
  assumes "reach bridge_start (bridge_step e) b" "PublishState k m \<in> set (nd_outputs (br_node b))"
  shows "k \<le> length (nd_reports (br_node b)) \<and>
    (rs_sdk_linked m, rs_control_authority m) = (if k = 0 then (False, False) else nd_reports (br_node b) ! (k - 1)) \<and>
    isfinite (rs_battery_percentage m) \<and> isfinite (rs_battery_temperature m) \<and> isfinite (rs_battery_voltage m) \<and>
    list_all isfinite (rs_wheel_speed m)"
  using bridge_output_ok [OF assms] by (auto simp: report_at_def finite_state_def)

text \<open>
  A run in which one thread publishes what it read before another thread's link loss: the worker has copied the
  linked state, a vendor thread reports the loss and publishes it, then the worker publishes its copy.
\<close>

definition overtaking :: "bridge_label list" where
  "overtaking =
     [Section 0 0, Section 0 0, Section 0 0,
      Begin 1 (Observed (OnStatus True True)) 1, Section 1 1, Section 1 1, Section 1 1, Section 1 1,
      Begin 2 (Observed (OnState (zero_snapshot\<lparr>sn_battery_voltage := NaN\<rparr>))) 2, Section 2 2, Section 2 2,
      Begin 1 (Observed (OnStatus False False)) 3, Section 1 3, Section 1 3, Section 1 3, Section 1 3, Section 1 3,
      Section 2 4, Section 2 4]"

lemma overtaking_run:
  "\<exists>b. bridge_run (ex_node_env False) overtaking new_bridge = Some b \<and>
     nd_reports (br_node b) = [(True, True), (False, False)] \<and> \<not> nd_linked (br_node b) \<and>
     (\<exists>m0 m1 m2 m3. nd_outputs (br_node b) = [PublishState 0 m0, PublishState 1 m1, PublishState 2 m2, PublishState 1 m3] \<and>
        \<not> rs_sdk_linked m2 \<and> rs_sdk_linked m3 \<and> rs_battery_voltage m3 = Fin 0)"
  by (simp add: overtaking_def bridge_eval finite_or_zero_def ex_node_env_def as_bool_def)

theorem robot_state_truthful_witness:
  "\<exists>b m. bridge_run (ex_node_env False) overtaking new_bridge = Some b \<and> PublishState 1 m \<in> set (nd_outputs (br_node b)) \<and>
     rs_sdk_linked m \<and> isfinite (rs_battery_voltage m)"
proof -
  obtain b m where b: "bridge_run (ex_node_env False) overtaking new_bridge = Some b"
      "nd_reports (br_node b) = [(True, True), (False, False)]" "PublishState 1 m \<in> set (nd_outputs (br_node b))"
    using overtaking_run by force
  then have "rs_sdk_linked m \<and> isfinite (rs_battery_voltage m)"
    using robot_state_truthful [OF bridge_run_new_reach [OF b(1)] b(3)] by simp
  then show ?thesis
    using b by blast
qed

section \<open>Telemetry\<close>

text \<open>An IMU sample that the node accepts.\<close>

definition ex_sample :: ImuSample where
  "ex_sample = \<lparr>imu_timestamp = 0, accelerometer = [Fin 0, Fin 0, Fin 9], gyroscope = [Fin 0, Fin 0, Fin 1],
     quaternion = [Fin 0, Fin 0, Fin 0, Fin 1], imu_pitch = Fin 0, imu_roll = Fin 0, imu_yaw = Fin 0,
     odom_x = Fin 2, odom_y = Fin 3\<rparr>"

lemma isqrt_power4: "isqrt (4 ^ k) = 2 ^ k"
proof (induction k)
  case (Suc k)
  have "\<not> (2 * 2 ^ k + 1) * (2 * 2 ^ k + 1) \<le> (4 * 4 ^ k :: nat)"
    by (simp add: algebra_simps power_mult_distrib [symmetric])
  then show ?case
    using Suc by (subst isqrt.simps) (simp add: Let_def)
qed (simp add: isqrt.simps)

lemma fround_one: "fround binary32 1 = Fin 1"
  using fround_int [of 1 binary32] by simp

lemma fl_sqrt_one: "fl_sqrt binary32 (Fin 1) = Fin 1"
proof -
  have "exponent_of 1 = 0"
    by (simp add: exponent_of_def ilog2.simps)
  moreover have "nat \<lfloor>(2::rat) powi 52\<rfloor> = 4 ^ 26"
    by (simp add: power_int_def)
  ultimately show ?thesis
    using isqrt_power4 [of 26] by (simp add: Let_def power_int_def fround_one)
qed

lemma ex_sample_quaternion: "orientation_quaternion False ex_sample \<noteq> None"
  by (simp add: orientation_quaternion_def ex_sample_def norm4_def fround_zero fround_one fl_sqrt_one Let_def del: fl_sqrt.simps)

end
