(* ===== verification/Node_Interfaces.thy ===== *)
theory Node_Interfaces
  imports Node_Bridge
begin

text \<open>
  What the constructor of the driver node sets up from accepted parameters (\<^verbatim>\<open>driver_node.cpp\<close>): the members the validation
  fills, the warnings it logs, the publishers, subscriptions and services of the ROS graph in the order of their
  creation, and the transform broadcasters. The middleware is not part of the sources: an endpoint is a description of
  what is asked of it.
\<close>

section \<open>Members\<close>

record LidarParams =
  lp_point_cloud_port :: u16
  lp_odometry_port :: u16
  lp_bind_ip :: string
  lp_source_ip :: string
  lp_frame_id :: string
  lp_frame_timeout_ms :: int
  lp_max_parallel_frames :: nat
  lp_max_points_per_frame :: nat
  lp_max_packets_per_frame :: nat
  lp_point_position_scale :: fl
  lp_odom_position_scale :: fl
  lp_odom_quaternion_scale :: fl
  lp_odom_quaternion_order :: string

record OdomLidarParams =
  olp_parent_frame :: string
  olp_child_frame :: string
  olp_publish_tf :: bool
  olp_pose_covariance_diagonal :: "fl list"

record Frames =
  frame_imu :: string
  frame_odom :: string
  frame_base :: string

record members =
  mem_imu_freq :: SubscriptionFrequency
  mem_sport_freq :: SubscriptionFrequency
  mem_lidar_freq :: SubscriptionFrequency
  mem_quaternion_order_wxyz :: bool
  mem_orientation_covariance :: "fl list"
  mem_angular_velocity_covariance :: "fl list"
  mem_linear_acceleration_covariance :: "fl list"
  mem_frames :: Frames
  mem_lidar_enabled :: bool
  mem_points_topic :: string
  mem_odom_lidar_topic :: string
  mem_lidar :: LidarParams
  mem_odom_lidar :: OdomLidarParams

definition load_lidar :: "overrides \<Rightarrow> LidarParams" where
  "load_lidar ov = \<lparr>
     lp_point_cloud_port = word_of_int (as_int ov ''lidar.point_cloud_port''),
     lp_odometry_port = word_of_int (as_int ov ''lidar.odometry_port''),
     lp_bind_ip = as_string ov ''lidar.bind_ip'',
     lp_source_ip = as_string ov ''lidar.source_ip'',
     lp_frame_id = as_string ov ''lidar.frame_id'',
     lp_frame_timeout_ms = to_int (as_int ov ''lidar.frame_timeout_ms''),
     lp_max_parallel_frames = to_size (as_int ov ''lidar.max_parallel_frames''),
     lp_max_points_per_frame = to_size (as_int ov ''lidar.max_points_per_frame''),
     lp_max_packets_per_frame = to_size (as_int ov ''lidar.max_packets_per_frame''),
     lp_point_position_scale = as_double ov ''lidar.point_position_scale'',
     lp_odom_position_scale = as_double ov ''lidar.odom_position_scale'',
     lp_odom_quaternion_scale = as_double ov ''lidar.odom_quaternion_scale'',
     lp_odom_quaternion_order = as_string ov ''lidar.odom_quaternion_order''\<rparr>"

definition load_odom_lidar :: "overrides \<Rightarrow> OdomLidarParams" where
  "load_odom_lidar ov = \<lparr>
     olp_parent_frame = as_string ov ''odom_lidar.parent_frame'',
     olp_child_frame = as_string ov ''odom_lidar.child_frame'',
     olp_publish_tf = as_bool ov ''odom_lidar.publish_tf'',
     olp_pose_covariance_diagonal = as_double_array ov ''odom_lidar.pose_covariance_diagonal''\<rparr>"

definition load_members :: "overrides \<Rightarrow> members" where
  "load_members ov = \<lparr>
     mem_imu_freq = frequency ov ''subscriptions.imu_frequency_hz'',
     mem_sport_freq = frequency ov ''subscriptions.sport_frequency_hz'',
     mem_lidar_freq = frequency ov ''subscriptions.lidar_frequency_hz'',
     mem_quaternion_order_wxyz = (as_string ov ''imu.quaternion_order'' = ''wxyz''),
     mem_orientation_covariance = diagonal_covariance (as_double_array ov ''imu.orientation_covariance_diagonal''),
     mem_angular_velocity_covariance = diagonal_covariance (as_double_array ov ''imu.angular_velocity_covariance_diagonal''),
     mem_linear_acceleration_covariance =
       diagonal_covariance (as_double_array ov ''imu.linear_acceleration_covariance_diagonal''),
     mem_frames = \<lparr>frame_imu = as_string ov ''frames.imu'', frame_odom = as_string ov ''frames.odom'',
                frame_base = as_string ov ''frames.base''\<rparr>,
     mem_lidar_enabled = as_bool ov ''subscriptions.lidar_enabled'',
     mem_points_topic = as_string ov ''topics.points'',
     mem_odom_lidar_topic = as_string ov ''topics.odom_lidar'',
     mem_lidar = load_lidar ov,
     mem_odom_lidar = load_odom_lidar ov\<rparr>"

text \<open>The configurations \<^verbatim>\<open>create_receivers\<close> builds from the members.\<close>

definition parse_cfg :: "LidarParams \<Rightarrow> LidarParseConfig" where
  "parse_cfg l = \<lparr>point_position_scale = lp_point_position_scale l, odom_position_scale = lp_odom_position_scale l,
     odom_quaternion_scale = lp_odom_quaternion_scale l, odom_quaternion_order = lp_odom_quaternion_order l\<rparr>"

definition assembler_cfg :: "LidarParams \<Rightarrow> AssemblerConfig" where
  "assembler_cfg l = \<lparr>max_parallel_frames = lp_max_parallel_frames l, frame_timeout = lp_frame_timeout_ms l,
     max_points_per_frame = lp_max_points_per_frame l, max_packets_per_frame = lp_max_packets_per_frame l\<rparr>"

text \<open>
  What the validation logs about parameters it accepts, in order. The range checks before it keep the points positive, so
  the division rounds down.
\<close>

datatype config_warning =
  PacketCapTooSmall int int
| RefreshExceedsDeadman int int
| HeartbeatTimeoutLong int
| RobotAddressDiffers string

definition packet_cap_warning :: "overrides \<Rightarrow> config_warning list" where
  "packet_cap_warning ov =
     (let max_points = to_int (as_int ov ''lidar.max_points_per_frame'');
          max_packets = to_int (as_int ov ''lidar.max_packets_per_frame'')
      in if max_packets < (max_points + 49) div 50 then [PacketCapTooSmall max_packets max_points] else [])"

definition config_warnings :: "overrides \<Rightarrow> config_warning list" where
  "config_warnings ov =
     (let refresh = to_int (as_int ov ''timing.motion_refresh_period_ms'');
          deadman = to_int (as_int ov ''safety.command_deadman_ms'');
          heartbeat = to_int (as_int ov ''sdk.heartbeat_call_timeout_ms'');
          address = as_string ov ''robot_address''
      in packet_cap_warning ov @
         (if refresh > deadman then [RefreshExceedsDeadman refresh deadman] else []) @
         (if heartbeat \<ge> 500 then [HeartbeatTimeoutLong heartbeat] else []) @
         (if address \<noteq> ''10.18.0.100'' then [RobotAddressDiffers address] else []))"

section \<open>The ROS graph\<close>

datatype message_type = ImuType | OdometryType | RobotStateType | PointCloud2Type | TwistType | StringType | JointStateType

datatype qos = SensorDataQoS | Reliable nat | ReliableTransientLocal nat

datatype endpoint =
  Publisher string message_type qos
| Subscription string message_type qos
| Service string

record graph =
  gr_imu_pub :: "endpoint option"
  gr_odom_pub :: "endpoint option"
  gr_robot_state_pub :: "endpoint option"
  gr_points_pub :: "endpoint option"
  gr_odom_lidar_pub :: "endpoint option"
  gr_cmd_vel_sub :: "endpoint option"
  gr_mode_sub :: "endpoint option"
  gr_joint_sub :: "endpoint option"
  gr_estop_srv :: "endpoint option"
  gr_authority_srv :: "endpoint option"
  gr_tf_broadcaster :: bool
  gr_lidar_tf_broadcaster :: bool

definition create_graph_interfaces :: "overrides \<Rightarrow> members \<Rightarrow> graph" where
  "create_graph_interfaces ov m = \<lparr>
     gr_imu_pub = Some (Publisher (as_string ov ''topics.imu'') ImuType SensorDataQoS),
     gr_odom_pub = Some (Publisher (as_string ov ''topics.odom'') OdometryType SensorDataQoS),
     gr_robot_state_pub = Some (Publisher (as_string ov ''topics.robot_state'') RobotStateType (ReliableTransientLocal 10)),
     gr_points_pub = (if mem_lidar_enabled m then Some (Publisher (mem_points_topic m) PointCloud2Type SensorDataQoS) else None),
     gr_odom_lidar_pub =
       (if mem_lidar_enabled m then Some (Publisher (mem_odom_lidar_topic m) OdometryType SensorDataQoS) else None),
     gr_cmd_vel_sub = Some (Subscription (as_string ov ''topics.cmd_vel'') TwistType (Reliable 1)),
     gr_mode_sub = Some (Subscription (as_string ov ''topics.robot_mode'') StringType (Reliable 10)),
     gr_joint_sub = Some (Subscription (as_string ov ''topics.joint_commands'') JointStateType (Reliable 1)),
     gr_estop_srv = Some (Service ''/emergency_stop''),
     gr_authority_srv = Some (Service ''/control_authority''),
     gr_tf_broadcaster = False,
     gr_lidar_tf_broadcaster = False\<rparr>"

definition decide_tf_broadcaster :: "overrides \<Rightarrow> graph \<Rightarrow> graph" where
  "decide_tf_broadcaster ov g =
     (let publish_tf = as_bool ov ''odom.publish_tf''; publish_lidar_tf = as_bool ov ''odom_lidar.publish_tf'';
          scale_verified = as_bool ov ''odometry.scale_verified'';
          g = (if publish_tf \<and> \<not> scale_verified then g\<lparr>gr_tf_broadcaster := False\<rparr>
               else if publish_tf then g\<lparr>gr_tf_broadcaster := True\<rparr> else g)
      in if publish_lidar_tf \<and> \<not> scale_verified then g\<lparr>gr_lidar_tf_broadcaster := False\<rparr>
         else if publish_lidar_tf then g\<lparr>gr_lidar_tf_broadcaster := True\<rparr> else g)"

definition node_graph :: "overrides \<Rightarrow> graph" where
  "node_graph ov = decide_tf_broadcaster ov (create_graph_interfaces ov (load_members ov))"

text \<open>The endpoints and the broadcasters (of the lidar or not) in the order in which they are created.\<close>

definition graph_endpoints :: "graph \<Rightarrow> endpoint list" where
  "graph_endpoints g = List.map_filter id [gr_imu_pub g, gr_odom_pub g, gr_robot_state_pub g, gr_points_pub g, gr_odom_lidar_pub g,
     gr_cmd_vel_sub g, gr_mode_sub g, gr_joint_sub g, gr_estop_srv g, gr_authority_srv g]"

definition graph_transforms :: "graph \<Rightarrow> bool list" where
  "graph_transforms g = (if gr_tf_broadcaster g then [False] else []) @ (if gr_lidar_tf_broadcaster g then [True] else [])"

section \<open>Lemmas\<close>

lemma decided_others:
  "gr_imu_pub (decide_tf_broadcaster ov g) = gr_imu_pub g"
  "gr_odom_pub (decide_tf_broadcaster ov g) = gr_odom_pub g"
  "gr_robot_state_pub (decide_tf_broadcaster ov g) = gr_robot_state_pub g"
  "gr_points_pub (decide_tf_broadcaster ov g) = gr_points_pub g"
  "gr_odom_lidar_pub (decide_tf_broadcaster ov g) = gr_odom_lidar_pub g"
  "gr_cmd_vel_sub (decide_tf_broadcaster ov g) = gr_cmd_vel_sub g"
  "gr_mode_sub (decide_tf_broadcaster ov g) = gr_mode_sub g"
  "gr_joint_sub (decide_tf_broadcaster ov g) = gr_joint_sub g"
  "gr_estop_srv (decide_tf_broadcaster ov g) = gr_estop_srv g"
  "gr_authority_srv (decide_tf_broadcaster ov g) = gr_authority_srv g"
  by (simp_all add: decide_tf_broadcaster_def Let_def)

lemma decided_endpoints: "graph_endpoints (decide_tf_broadcaster ov g) = graph_endpoints g"
  by (simp only: graph_endpoints_def decided_others)

lemma members_configs:
  "parse_cfg (mem_lidar (load_members ov)) = lidar_parse_config ov"
  "assembler_cfg (mem_lidar (load_members ov)) = assembler_config ov"
  by (simp_all add: load_members_def load_lidar_def parse_cfg_def lidar_parse_config_def assembler_cfg_def
      assembler_config_def)

end
