(* ===== verification/Node_Construction.thy ===== *)
theory Node_Construction
  imports Node_Interfaces Lidar_Receiver
begin

text \<open>
  The construction of the driver node (\<^verbatim>\<open>HypertronDriverNode::Impl\<close>): the parameters are validated, the interfaces of the ROS
  graph and the broadcasters are created, the lidar receivers are built on the configured UDP ports or on injected
  sources, the runtime is built and started and the receivers are started. Every step that can throw has its error. What
  the middleware and the thread library answer is the parameter \<open>platform\<close>. The lemmas carry the configured limits
  through a receiver's run to the messages the node publishes.
\<close>

section \<open>Receivers\<close>

text \<open>Where a stream's datagrams come from: an injected source, or the socket calls of a UDP source.\<close>

datatype source_choice = Injected | UdpSocket socket_reply

type_synonym receiver_slot = "(udp option \<times> rcv) option"

definition create_receiver :: "overrides \<Rightarrow> LidarStreamKind \<Rightarrow> source_choice \<Rightarrow> receiver_slot" where
  "create_receiver ov kind source =
     (let r = LidarStreamReceiver kind (lidar_parse_config ov) (assembler_config ov) True True True in
      case source of
        Injected \<Rightarrow> Some (None, r)
      | UdpSocket reply \<Rightarrow>
          (let (udp, closes) = UdpLidarDatagramSource reply (as_string ov ''lidar.source_ip'')
           in if \<not> valid udp then None else Some (Some udp, r)))"

definition create_receivers :: "overrides \<Rightarrow> source_choice \<Rightarrow> source_choice \<Rightarrow> receiver_slot \<times> receiver_slot" where
  "create_receivers ov point_cloud_source odometry_source =
     (if \<not> as_bool ov ''subscriptions.lidar_enabled'' then (None, None)
      else (create_receiver ov PointCloud point_cloud_source, create_receiver ov Odometry odometry_source))"

definition start_receivers :: "receiver_slot \<times> receiver_slot \<Rightarrow> receiver_slot \<times> receiver_slot" where
  "start_receivers = map_prod (map_option (map_prod id receiver_start)) (map_option (map_prod id receiver_start))"

definition stop_receivers :: "receiver_slot \<times> receiver_slot \<Rightarrow> receiver_slot \<times> receiver_slot" where
  "stop_receivers = map_prod (map_option (map_prod id receiver_stop)) (map_option (map_prod id receiver_stop))"

section \<open>The node\<close>

text \<open>
  The answers of the platform: the exception with which the middleware refuses an endpoint (an invalid topic name, for
  one) or a broadcaster, and with which a thread cannot be created.
\<close>

datatype node_thread = RuntimeWorker | ReceiverLoop LidarStreamKind

record platform =
  create_endpoint :: "endpoint \<Rightarrow> string option"
  create_broadcaster :: "bool \<Rightarrow> string option"
  create_thread :: "node_thread \<Rightarrow> string option"

datatype construct_error =
  BadParameter param_error
| RosRefused string
| RuntimeRefused string
| ThreadRefused string

definition receiver_threads :: "receiver_slot \<times> receiver_slot \<Rightarrow> node_thread list" where
  "receiver_threads rs = (if fst rs \<noteq> None then [ReceiverLoop PointCloud] else []) @
     (if snd rs \<noteq> None then [ReceiverLoop Odometry] else [])"

record driver_node =
  dn_graph :: graph
  dn_receivers :: "receiver_slot \<times> receiver_slot"
  dn_runtime :: rt
  dn_bridge :: bridge

text \<open>\<^verbatim>\<open>assemble_runtime\<close> builds and starts the runtime, \<^verbatim>\<open>start_receivers\<close> starts the receivers.\<close>

definition assemble_runtime :: "platform \<Rightarrow> overrides \<Rightarrow> construct_error + rt" where
  "assemble_runtime plat ov =
     (case DirectDriverRuntime (runtime_config ov) of
        Inl msg \<Rightarrow> Inl (RuntimeRefused msg)
      | Inr runtime \<Rightarrow>
          (case create_thread plat RuntimeWorker of
             Some msg \<Rightarrow> Inl (ThreadRefused msg)
           | None \<Rightarrow> Inr (rt_start runtime)))"

definition create_graph :: "platform \<Rightarrow> overrides \<Rightarrow> construct_error + graph" where
  "create_graph plat ov =
     (let g = create_graph_interfaces ov (load_members ov) in
      case first_error (map (create_endpoint plat) (graph_endpoints g)) of
        Some msg \<Rightarrow> Inl (RosRefused msg)
      | None \<Rightarrow>
          (let g = decide_tf_broadcaster ov g in
           case first_error (map (create_broadcaster plat) (graph_transforms g)) of
             Some msg \<Rightarrow> Inl (RosRefused msg)
           | None \<Rightarrow> Inr g))"

text \<open>The constructor. Its last act, the first state publication, is what \<open>new_bridge\<close> has left to do.\<close>

definition Impl :: "platform \<Rightarrow> (string \<Rightarrow> bool) \<Rightarrow> overrides \<Rightarrow> source_choice \<Rightarrow> source_choice \<Rightarrow> construct_error + driver_node" where
  "Impl plat inet_pton ov point_cloud_source odometry_source =
     (case validate_parameters inet_pton ov of
        Some err \<Rightarrow> Inl (BadParameter err)
      | None \<Rightarrow>
     (case create_graph plat ov of
        Inl err \<Rightarrow> Inl err
      | Inr g \<Rightarrow>
     (let receivers = create_receivers ov point_cloud_source odometry_source in
      case assemble_runtime plat ov of
        Inl err \<Rightarrow> Inl err
      | Inr runtime \<Rightarrow>
     (case first_error (map (create_thread plat) (receiver_threads receivers)) of
        Some msg \<Rightarrow> Inl (ThreadRefused msg)
      | None \<Rightarrow>
          Inr \<lparr>dn_graph = g, dn_receivers = start_receivers receivers, dn_runtime = runtime, dn_bridge = new_bridge\<rparr>))))"

text \<open>What an accepted construction returns.\<close>

lemma create_graph_Inr: "create_graph plat ov = Inr g \<Longrightarrow> g = node_graph ov"
  by (auto simp: create_graph_def node_graph_def Let_def split: option.splits)

lemma Impl_Inr:
  assumes "Impl plat inet_pton ov pc od = Inr d"
  shows "validate_parameters inet_pton ov = None" "dn_graph d = node_graph ov" "dn_bridge d = new_bridge"
    "dn_receivers d = start_receivers (create_receivers ov pc od)" "assemble_runtime plat ov = Inr (dn_runtime d)"
  using assms create_graph_Inr [of plat ov] by (auto simp: Impl_def Let_def split: option.splits sum.splits)

section \<open>Limits along a receiver's run\<close>

definition sized_frames :: "AssemblerConfig \<Rightarrow> rcv \<Rightarrow> bool" where
  "sized_frames ac r \<longleftrightarrow> rcv_inv r \<and> cfg (lr_assembler r) = ac \<and>
     (\<forall>f \<in> set (frames_out r). length (fr_points f) \<le> max_points_per_frame ac)"

lemma rcv_inv_asm: "rcv_inv r \<Longrightarrow> history_inv (lr_assembler r, asm_events r)"
  by (simp add: rcv_inv_def assembler.inv_reach)

lemma expire_cfg [simp]: "cfg (expire now a) = cfg a"
  by (simp add: expire_eq)

text \<open>What a step does to the configuration and the delivered frames.\<close>

definition keeps_size :: "rcv \<Rightarrow> rcv \<Rightarrow> bool" where
  "keeps_size r t \<longleftrightarrow> cfg (lr_assembler t) = cfg (lr_assembler r) \<and>
     (\<forall>f \<in> set (frames_out t). f \<in> set (frames_out r) \<or> length (fr_points f) \<le> max_points_per_frame (cfg (lr_assembler r)))"

lemma keeps_size_refl:
  "lr_assembler t = lr_assembler r \<Longrightarrow> frames_out t = frames_out r \<Longrightarrow> keeps_size r t"
  by (simp add: keeps_size_def)

lemma keeps_size_feed:
  assumes "rcv_inv r" "now < time_point_max"
  shows "keeps_size r (feed_assembler now p r)"
proof -
  note h = rcv_inv_asm [OF assms(1)]
  have inv: "asm_inv (lr_assembler r)"
    using h by (simp add: history_inv_def)
  obtain a frame where ap: "add_packet now (lr_assembler r) p = (a, frame)"
    by fastforce
  have "length (fr_points f) \<le> max_points_per_frame (cfg (lr_assembler r))" if "frame = Some f" for f
    using frame_tiled [OF h assms(2)] ap that tiles_simps(3) by metis
  then show ?thesis
    using add_packet_cfg [OF inv assms(2), of p] ap
    by (auto simp: keeps_size_def feed_assembler_def Let_def split: option.splits)
qed

lemma keeps_size_next:
  assumes "rcv_inv r" "readable_times l"
  shows "keeps_size r (rcv_next l r)"
proof (cases l)
  case (Iterate got t u v)
  have warn: "keeps_size s (warn_if_due now reason s)" for s now reason
    by (auto simp: warn_if_due_def should_emit_warning_def intro: keeps_size_refl)
  have expired: "keeps_size s x \<Longrightarrow> keeps_size s (expire_frames v x)" for s x
    by (simp add: keeps_size_def expire_frames_def)
  have received: "keeps_size (s\<lparr>received_data := d\<rparr>) x \<Longrightarrow> keeps_size s x" for s d x
    by (simp add: keeps_size_def)
  have phase: "keeps_size s (x\<lparr>lr_phase := ph\<rparr>) = keeps_size s x" for s x ph
    by (simp add: keeps_size_def)
  have odometry: "keeps_size r (loop_odometry got u r)"
    by (cases got) (auto simp: loop_odometry_def Let_def intro: keeps_size_refl received [OF warn] split: option.split)
  have cloud: "keeps_size r (loop_point_cloud got t u v r)"
  proof (cases got)
    case None
    then show ?thesis
      by (simp add: loop_point_cloud_def expired keeps_size_refl)
  next
    case (Some d)
    have "keeps_size r (feed_assembler t p (r\<lparr>received_data := received_data r @ [d]\<rparr>))" for p
      using assms Iterate by (intro received [OF keeps_size_feed] rcv_inv_received) simp_all
    then show ?thesis
      using Some by (auto simp: loop_point_cloud_def Let_def intro!: expired intro: keeps_size_refl received [OF warn]
          split: option.split)
  qed
  show ?thesis
    using Iterate cloud odometry
    by (auto simp: loop_iteration_def Let_def phase intro: keeps_size_refl split: LidarStreamKind.split)
qed (auto simp: receiver_start_def receiver_stop_def loop_check_def intro: keeps_size_refl)

lemma sized_frames_next: "sized_frames ac r \<Longrightarrow> rcv_step r l t \<Longrightarrow> sized_frames ac t"
  using keeps_size_next [of r l] rcv_inv_next [of r l] by (fastforce simp: sized_frames_def rcv_step_def keeps_size_def)

definition rcv_with :: "AssemblerConfig \<Rightarrow> rcv \<Rightarrow> bool" where
  "rcv_with ac r \<longleftrightarrow> 0 < max_parallel_frames ac \<and> (\<exists>k c a b d. r = LidarStreamReceiver k c ac a b d)"

lemma sized_frames_new: "rcv_with ac r \<Longrightarrow> sized_frames ac r"
proof -
  assume "rcv_with ac r"
  then obtain k c a b d where r: "r = LidarStreamReceiver k c ac a b d" "0 < max_parallel_frames ac"
    by (auto simp: rcv_with_def)
  have "rcv_inv r"
    unfolding r(1) by (rule rcv_inv_start) (unfold rcv_start_def, blast)
  then show ?thesis
    using r(2) by (simp add: sized_frames_def) (simp add: r(1) LidarStreamReceiver_def PointCloudFrameAssembler_def)
qed

interpretation sized: invariant_system "rcv_with ac" rcv_step "sized_frames ac" for ac
  by unfold_locales (auto intro: sized_frames_new sized_frames_next)

lemma created_receiver:
  assumes "Impl plat inet_pton ov pc od = Inr d" "fst (dn_receivers d) = Some (src, r)"
  shows "validate_parameters inet_pton ov = None"
    "r = receiver_start (LidarStreamReceiver PointCloud (lidar_parse_config ov) (assembler_config ov) True True True)"
  using Impl_Inr(1,4) [OF assms(1)] assms(2)
  by (auto simp: create_receivers_def create_receiver_def start_receivers_def Let_def
      split: option.splits if_splits source_choice.splits prod.splits)

lemma accepted_starts: "rcv_with ac (LidarStreamReceiver k c ac a b d) \<Longrightarrow>
    reach (rcv_with ac) rcv_step (receiver_start (LidarStreamReceiver k c ac a b d))"
  by (rule reach.reach_step [OF reach.reach_start, of _ _ _ StartCall]) (simp_all add: rcv_step_def)

lemma created_receiver_sized:
  assumes "Impl plat inet_pton ov pc od = Inr d" "ints_fit ov" "fst (dn_receivers d) = Some (src, r0)" "run rcv_step r0 es r"
  shows "sized_frames (assembler_config ov) r"
proof -
  note c = created_receiver [OF assms(1,3)]
  have "rcv_with (assembler_config ov)
      (LidarStreamReceiver PointCloud (lidar_parse_config ov) (assembler_config ov) True True True)"
    using accepted_assembler_config(1) [OF c(1) assms(2)] unfolding rcv_with_def by (metis less_le_trans zero_less_one)
  then have "reach (rcv_with (assembler_config ov)) rcv_step r0"
    using accepted_starts c(2) by blast
  then show ?thesis
    by (rule sized.inv_reach_run [OF _ assms(4)])
qed

section \<open>Properties\<close>

text \<open>
  C13. From the configuration to the topic: when the node was constructed, with integer parameters that fit 32 bits,
  then whatever datagrams its point-cloud receiver processes, its assembler never holds more than 20 million points,
  and the message built from any delivered frame has every point of the frame in its data, with a width and a row
  step that did not wrap.
\<close>

theorem published_clouds_bounded:
  assumes "Impl plat inet_pton ov pc od = Inr d" "ints_fit ov" "fst (dn_receivers d) = Some (src, r0)" "run rcv_step r0 es r"
  shows "sum_list (map (\<lambda>s. length (concat (map snd (packets s)))) (slots (lr_assembler r))) \<le> 20000000 \<and>
    (\<forall>f \<in> set (frames_out r). \<forall>e t. let m = points_msg e t f in
       length (mc_data m) = length (fr_points f) \<and> 1 \<le> length (mc_data m) \<and>
       unat (mc_width m) = length (mc_data m) \<and> unat (mc_row_step m) = unat (mc_point_step m) * length (mc_data m))"
proof
  let ?ac = "assembler_config ov"
  have s: "rcv_inv r" "cfg (lr_assembler r) = ?ac"
    "\<forall>f \<in> set (frames_out r). length (fr_points f) \<le> max_points_per_frame ?ac"
    using created_receiver_sized [OF assms] by (simp_all add: sized_frames_def)
  have "asm_inv (lr_assembler r)"
    using rcv_inv_asm [OF s(1)] by (simp add: history_inv_def)
  note acc = accepted_assembler_config [OF created_receiver(1) [OF assms(1,3)] assms(2)]
  show "sum_list (map (\<lambda>s. length (concat (map snd (packets s)))) (slots (lr_assembler r))) \<le> 20000000"
    using memory_bounded(3) [OF \<open>asm_inv (lr_assembler r)\<close>] acc(5) s(2) by simp
  have "1 * max_points_per_frame ?ac \<le> max_parallel_frames ?ac * max_points_per_frame ?ac"
    using acc(1) by (intro mult_right_mono) simp_all
  then have small: "length (fr_points f) \<le> 20000000" if "f \<in> set (frames_out r)" for f
    using s(3) acc(5) that le_trans by (metis mult_1)
  show "\<forall>f \<in> set (frames_out r). \<forall>e t. let m = points_msg e t f in
       length (mc_data m) = length (fr_points f) \<and> 1 \<le> length (mc_data m) \<and>
       unat (mc_width m) = length (mc_data m) \<and> unat (mc_row_step m) = unat (mc_point_step m) * length (mc_data m)"
  proof (intro ballI allI)
    fix f e t assume f: "f \<in> set (frames_out r)"
    let ?n = "length (fr_points f)"
    have "fr_points f \<noteq> []"
      using s(1) f by (simp add: rcv_inv_def complete_frame_def)
    moreover have "unat (of_nat ?n :: u32) = ?n" "unat (16 * of_nat ?n :: u32) = 16 * ?n"
      using small [OF f] by (simp_all add: unat_word_ariths unat_of_nat)
    ultimately show "let m = points_msg e t f in
       length (mc_data m) = length (fr_points f) \<and> 1 \<le> length (mc_data m) \<and>
       unat (mc_width m) = length (mc_data m) \<and> unat (mc_row_step m) = unat (mc_point_step m) * length (mc_data m)"
      by (simp add: points_msg_def Let_def Suc_le_eq)
  qed
qed

text \<open>When a stream has a receiver, and what an existing one is.\<close>

definition stream_available :: "overrides \<Rightarrow> source_choice \<Rightarrow> bool" where
  "stream_available ov source \<longleftrightarrow> as_bool ov ''subscriptions.lidar_enabled'' \<and>
     (case source of Injected \<Rightarrow> True | UdpSocket reply \<Rightarrow> 0 \<le> sk_socket reply \<and> sk_pton reply \<and> sk_bind reply = 0)"

definition slot_ok :: "overrides \<Rightarrow> LidarStreamKind \<Rightarrow> source_choice \<Rightarrow> receiver_slot \<Rightarrow> bool" where
  "slot_ok ov kind source slot \<longleftrightarrow> (case slot of
       None \<Rightarrow> \<not> stream_available ov source
     | Some (u, r) \<Rightarrow> stream_available ov source \<and> lr_kind r = kind \<and> running r \<and> lr_phase r = AtCheck \<and>
         lr_config r = lidar_parse_config ov \<and> lr_assembler r = PointCloudFrameAssembler (assembler_config ov) \<and>
         (u = None \<longleftrightarrow> source = Injected) \<and> (\<forall>s. u = Some s \<longrightarrow> expected_source_ip s = as_string ov ''lidar.source_ip''))"

lemma started_slot_ok:
  "as_bool ov ''subscriptions.lidar_enabled'' \<Longrightarrow>
     slot_ok ov kind source (map_option (map_prod id receiver_start) (create_receiver ov kind source))"
  by (cases source) (auto simp: slot_ok_def stream_available_def create_receiver_def UdpLidarDatagramSource_def valid_def
      receiver_start_def LidarStreamReceiver_def running_def Let_def)

lemma constructed_slots:
  assumes "dn_receivers d = start_receivers (create_receivers ov pc od)"
  shows "slot_ok ov PointCloud pc (fst (dn_receivers d)) \<and> slot_ok ov Odometry od (snd (dn_receivers d))"
proof (cases "as_bool ov ''subscriptions.lidar_enabled''")
  case True
  then show ?thesis
    using started_slot_ok [OF True] by (simp add: assms start_receivers_def create_receivers_def)
qed (simp add: assms start_receivers_def create_receivers_def slot_ok_def stream_available_def)

lemma accepted_runtime:
  assumes "validate_parameters inet_pton ov = None" "ints_fit ov"
  obtains s where "DirectDriverRuntime (runtime_config ov) = Inr s" "worker s = NotStarted" "\<not> stop_requested s"
proof -
  have "0 < deadman_ms (runtime_config ov)" "1 \<le> queue_capacity (runtime_config ov)"
    using accepted_runtime_config assms by blast+
  then show ?thesis
    using that by (auto simp: DirectDriverRuntime_def RobotController_def ThreadSafeQueue_def)
qed

text \<open>A refusal of the platform that construction can meet.\<close>

definition platform_refuses :: "platform \<Rightarrow> overrides \<Rightarrow> source_choice \<Rightarrow> source_choice \<Rightarrow> construct_error \<Rightarrow> bool" where
  "platform_refuses plat ov pc od err \<longleftrightarrow> (case err of
       RosRefused msg \<Rightarrow>
         (\<exists>x \<in> set (graph_endpoints (node_graph ov)). create_endpoint plat x = Some msg) \<or>
         (\<exists>l \<in> set (graph_transforms (node_graph ov)). create_broadcaster plat l = Some msg)
     | ThreadRefused msg \<Rightarrow>
         create_thread plat RuntimeWorker = Some msg \<or>
         stream_available ov pc \<and> create_thread plat (ReceiverLoop PointCloud) = Some msg \<or>
         stream_available ov od \<and> create_thread plat (ReceiverLoop Odometry) = Some msg
     | _ \<Rightarrow> False)"

lemma first_error_Some: "first_error (map f xs) = Some e \<Longrightarrow> \<exists>x \<in> set xs. f x = Some e"
proof (induction xs)
  case (Cons x xs)
  then show ?case
    by (cases "f x") auto
qed simp

lemma create_graph_Inl: "create_graph plat ov = Inl err \<Longrightarrow> platform_refuses plat ov pc od err"
  by (auto simp: create_graph_def platform_refuses_def node_graph_def decided_endpoints Let_def
      dest!: first_error_Some split: option.splits)

lemma created_available:
  "fst (create_receivers ov pc od) \<noteq> None \<Longrightarrow> stream_available ov pc"
  "snd (create_receivers ov pc od) \<noteq> None \<Longrightarrow> stream_available ov od"
  using started_slot_ok [of ov PointCloud pc] started_slot_ok [of ov Odometry od]
  by (auto simp: create_receivers_def slot_ok_def split: if_splits)

lemma receiver_threads_available:
  "t \<in> set (receiver_threads (create_receivers ov pc od)) \<Longrightarrow>
     t = ReceiverLoop PointCloud \<and> stream_available ov pc \<or> t = ReceiverLoop Odometry \<and> stream_available ov od"
  using created_available [of ov pc od] by (auto simp: receiver_threads_def split: if_splits)

lemma receivers_refused:
  assumes "first_error (map (create_thread plat) (receiver_threads (create_receivers ov pc od))) = Some msg"
  shows "platform_refuses plat ov pc od (ThreadRefused msg)"
  using first_error_Some [OF assms] receiver_threads_available [of _ ov pc od]
  by (fastforce simp: platform_refuses_def)

text \<open>
  C16. The outcome of the construction, with integer parameters that fit 32 bits. Parameters the validation refuses give
  the validation's first error, before anything is created. Otherwise the construction fails only with a refusal of the
  platform: of an endpoint or broadcaster of the node's graph, of the runtime's thread, or of the thread of a stream
  that is available; the runtime itself is never refused. A constructed node has the graph of its parameters, the
  runtime started and, for each stream, a running receiver with the configured parser, assembler and sender exactly when
  the stream is enabled and its source injected or its UDP socket bound: a socket that fails only skips its stream.
\<close>

theorem construction_outcome:
  assumes "ints_fit ov"
  shows "(case validate_parameters inet_pton ov of
      Some err \<Rightarrow> Impl plat inet_pton ov pc od = Inl (BadParameter err)
    | None \<Rightarrow> (case Impl plat inet_pton ov pc od of
        Inl err \<Rightarrow> platform_refuses plat ov pc od err
      | Inr d \<Rightarrow> dn_graph d = node_graph ov \<and> dn_bridge d = new_bridge \<and>
          (\<exists>s. DirectDriverRuntime (runtime_config ov) = Inr s \<and> dn_runtime d = s\<lparr>worker := Connecting\<rparr>) \<and>
          slot_ok ov PointCloud pc (fst (dn_receivers d)) \<and> slot_ok ov Odometry od (snd (dn_receivers d))))"
proof (cases "validate_parameters inet_pton ov")
  case None
  obtain s where s: "DirectDriverRuntime (runtime_config ov) = Inr s" "worker s = NotStarted" "\<not> stop_requested s"
    using None assms by (rule accepted_runtime)
  show ?thesis
  proof (cases "Impl plat inet_pton ov pc od")
    case (Inl err)
    then have "platform_refuses plat ov pc od err"
      using None s create_graph_Inl [of plat ov err pc od] receivers_refused [of plat ov pc od]
      by (auto simp: Impl_def assemble_runtime_def platform_refuses_def [of _ _ _ _ "ThreadRefused _"] Let_def
          split: sum.splits option.splits)
    then show ?thesis
      using Inl None by simp
  next
    case (Inr d)
    have "dn_runtime d = s\<lparr>worker := Connecting\<rparr>"
      using Impl_Inr(5) [OF Inr] s by (auto simp: assemble_runtime_def rt_start_def split: option.splits)
    then show ?thesis
      using Inr None s(1) Impl_Inr(2-4) [OF Inr] constructed_slots [of d ov pc od] by simp
  qed
qed (simp add: Impl_def)

section \<open>Witnesses\<close>

lemma ex_accepted: "validate_parameters (\<lambda>ip. True) (ex_overrides 1000) = None" "ints_fit (ex_overrides 1000)"
  by (rule ex_overrides_accepted, simp add: to_int_id, rule ex_overrides_fit)

text \<open>A platform that refuses nothing.\<close>

definition willing :: platform where
  "willing = \<lparr>create_endpoint = (\<lambda>x. None), create_broadcaster = (\<lambda>l. None), create_thread = (\<lambda>t. None)\<rparr>"

lemma first_error_Nones: "first_error (map (\<lambda>x. None) xs) = None"
  by (induction xs) auto

lemma willing_constructs:
  assumes "validate_parameters inet_pton ov = None" "ints_fit ov"
  shows "\<exists>d. Impl willing inet_pton ov pc od = Inr d"
proof -
  obtain s where "DirectDriverRuntime (runtime_config ov) = Inr s"
    using assms by (rule accepted_runtime)
  then show ?thesis
    using assms(1) by (simp add: Impl_def assemble_runtime_def create_graph_def willing_def first_error_Nones Let_def)
qed

lemma ex_lidar_on: "as_bool (ex_overrides 1000) ''subscriptions.lidar_enabled''"
  by (simp add: as_bool_def declared_def ex_overrides_def declared_bools_def)

theorem construction_outcome_witness:
  "\<exists>d u r. Impl willing (\<lambda>ip. True) (ex_overrides 1000) (UdpSocket \<lparr>sk_socket = 3, sk_pton = True, sk_bind = - 1\<rparr>) Injected = Inr d \<and>
     fst (dn_receivers d) = None \<and> snd (dn_receivers d) = Some (u, r) \<and> running r"
proof -
  let ?udp = "UdpSocket \<lparr>sk_socket = 3, sk_pton = True, sk_bind = - 1\<rparr>"
  obtain d where d: "Impl willing (\<lambda>ip. True) (ex_overrides 1000) ?udp Injected = Inr d"
    using willing_constructs [OF ex_accepted] by blast
  have "slot_ok (ex_overrides 1000) PointCloud ?udp (fst (dn_receivers d))" "slot_ok (ex_overrides 1000) Odometry Injected (snd (dn_receivers d))"
    using construction_outcome [OF ex_accepted(2), where inet_pton = "\<lambda>ip. True" and plat = willing and pc = ?udp and od = Injected] d ex_accepted(1) by simp_all
  then show ?thesis
    using d ex_lidar_on by (auto simp: slot_ok_def stream_available_def split: option.splits)
qed

definition ex_constructed :: rcv where
  "ex_constructed = receiver_start (LidarStreamReceiver PointCloud (lidar_parse_config (ex_overrides 1000))
     (assembler_config (ex_overrides 1000)) True True True)"

theorem published_clouds_bounded_witness:
  "\<exists>d r. Impl willing (\<lambda>ip. True) (ex_overrides 1000) Injected Injected = Inr d \<and> fst (dn_receivers d) = Some (None, ex_constructed) \<and>
     run rcv_step ex_constructed [Check, Iterate None 0 0 0] r \<and>
     sum_list (map (\<lambda>s. length (concat (map snd (packets s)))) (slots (lr_assembler r))) \<le> 20000000"
proof -
  obtain d where d: "Impl willing (\<lambda>ip. True) (ex_overrides 1000) Injected Injected = Inr d"
    using willing_constructs [OF ex_accepted] by blast
  have d2: "fst (dn_receivers d) = Some (None, ex_constructed)"
    by (simp add: Impl_Inr(4) [OF d] ex_lidar_on create_receivers_def create_receiver_def start_receivers_def ex_constructed_def)
  let ?r = "rcv_next (Iterate None 0 0 0) (rcv_next Check ex_constructed)"
  have r: "run rcv_step ex_constructed [Check, Iterate None 0 0 0] ?r"
    by (intro run.intros) (simp_all add: rcv_step_def time_point_max_def)
  show ?thesis
    by (intro exI conjI) (fact d, fact d2, fact r, rule published_clouds_bounded [THEN conjunct1, OF d ex_accepted(2) d2 r])
qed

end
