(* ===== verification/Runtime_Origins.thy ===== *)
theory Runtime_Origins
  imports Runtime_Properties
begin

text \<open>
  Where the runtime's calls come from: every velocity, mode and authority call the worker makes goes back to a request
  that another thread made, through the controller's history, the callers inside a call, the command queue and the
  worker's trace.
\<close>

section \<open>Origins\<close>

text \<open>What other threads did in a run: the steps between the worker's, and those at its interference points.\<close>

definition requests :: "env \<Rightarrow> rt_label list \<Rightarrow> outside set" where
  "requests e ls = interferences e \<union> {x. Outside x \<in> set ls}"

definition mode_from :: "outside set \<Rightarrow> u16 \<Rightarrow> bool" where
  "mode_from R m \<longleftrightarrow> (\<exists>name. ModeBegin name \<in> R \<and> map_of kModes (normalized_mode name) = Some m)"

fun op_from :: "outside set \<Rightarrow> ctl_op \<Rightarrow> bool" where
  "op_from R (AcceptVelocity v) \<longleftrightarrow> SubmitVelocity v \<in> R"
| "op_from R _ \<longleftrightarrow> True"

fun client_from :: "outside set \<Rightarrow> client \<Rightarrow> bool" where
  "client_from R (AtModeGate p name) \<longleftrightarrow> ModeBegin name \<in> R"
| "client_from R (AtModeEnqueue p m) \<longleftrightarrow> mode_from R m"
| "client_from R (AtEstopMark p) \<longleftrightarrow> True"

fun cmd_from :: "outside set \<Rightarrow> Command \<Rightarrow> bool" where
  "cmd_from R (RequestAuthorityCommand sdk p) \<longleftrightarrow> AuthorityRequest sdk \<in> R"
| "cmd_from R (RequestModeCommand m p) \<longleftrightarrow> mode_from R m"

fun action_from :: "outside set \<Rightarrow> action \<Rightarrow> bool" where
  "action_from R (Tick now c h) \<longleftrightarrow> (\<forall>(u, f) \<in> set h. op_from R f)"
| "action_from R (Popped cmd) \<longleftrightarrow> cmd_from R cmd"
| "action_from R _ \<longleftrightarrow> True"

definition origin_ok :: "outside set \<Rightarrow> rt \<Rightarrow> bool" where
  "origin_ok R s \<longleftrightarrow> (\<forall>(u, f) \<in> set (ctl_history s). op_from R f) \<and> (\<forall>c \<in> set (clients s). client_from R c) \<and>
     (\<forall>cmd \<in> set (items (command_queue s)). cmd_from R cmd) \<and> (\<forall>a \<in> set (trace s). action_from R a)"

lemma origin_frame:
  assumes "ctl_history t = ctl_history s" "clients t = clients s" "command_queue t = command_queue s" "trace t = trace s"
  shows "origin_ok R t = origin_ok R s"
  using assms by (simp add: origin_ok_def)

lemma origin_prims [simp]:
  "origin_ok R (set_promise p r s) = origin_ok R s"
  "origin_ok R (dispatch_observer_safely e ob s) = origin_ok R s"
  "origin_ok R (notify_event e sev msg s) = origin_ok R s"
  by (rule origin_frame; simp add: set_promise_def dispatch_observer_safely_def notify_event_def split: option.split)+

lemma origin_upd [simp]:
  "origin_ok R (s\<lparr>estop_engaged := x\<rparr>) = origin_ok R s" "origin_ok R (s\<lparr>estop_promise := y\<rparr>) = origin_ok R s"
  "origin_ok R (s\<lparr>sdk_linked := x\<rparr>) = origin_ok R s" "origin_ok R (s\<lparr>control_authority := x\<rparr>) = origin_ok R s"
  "origin_ok R (s\<lparr>link_drop_latched := x\<rparr>) = origin_ok R s" "origin_ok R (s\<lparr>motion_refresh_due := x\<rparr>) = origin_ok R s"
  "origin_ok R (s\<lparr>latest_imu := i\<rparr>) = origin_ok R s" "origin_ok R (s\<lparr>latest_sport := j\<rparr>) = origin_ok R s"
  "origin_ok R (s\<lparr>clk := k\<rparr>) = origin_ok R s" "origin_ok R (s\<lparr>stop_requested := x\<rparr>) = origin_ok R s"
  "origin_ok R (s\<lparr>next_promise := n\<rparr>) = origin_ok R s" "origin_ok R (s\<lparr>turn_no := n\<rparr>) = origin_ok R s"
  "origin_ok R (s\<lparr>mode_transition := m\<rparr>) = origin_ok R s" "origin_ok R (s\<lparr>last_sent_nonzero := x\<rparr>) = origin_ok R s"
  "origin_ok R (s\<lparr>driver_ready_armed := x\<rparr>) = origin_ok R s" "origin_ok R (s\<lparr>heartbeat_failures := n\<rparr>) = origin_ok R s"
  "origin_ok R (s\<lparr>next_heartbeat := k\<rparr>) = origin_ok R s" "origin_ok R (s\<lparr>next_state_poll := k\<rparr>) = origin_ok R s"
  "origin_ok R (s\<lparr>next_motion_refresh := k\<rparr>) = origin_ok R s" "origin_ok R (s\<lparr>iteration_now := k\<rparr>) = origin_ok R s"
  "origin_ok R (s\<lparr>last_snapshot_sport_status := u\<rparr>) = origin_ok R s"
  "origin_ok R (s\<lparr>last_snapshot_error_code := v\<rparr>) = origin_ok R s" "origin_ok R (s\<lparr>worker := w\<rparr>) = origin_ok R s"
  "origin_ok R (s\<lparr>connected := x\<rparr>) = origin_ok R s" "origin_ok R (s\<lparr>backoff := l\<rparr>) = origin_ok R s"
  by (rule origin_frame; simp)+

lemma origin_ctl: "origin_ok R s \<Longrightarrow> op_from R f \<Longrightarrow> origin_ok R (ctl_do f s)"
  by (auto simp: origin_ok_def ctl_do_def)

lemma origin_client:
  "origin_ok R s \<Longrightarrow> clients s = cs \<Longrightarrow> client_from R c \<Longrightarrow> origin_ok R (s\<lparr>clients := cs @ [c]\<rparr>)"
  by (auto simp: origin_ok_def)

lemma origin_clients_less: "origin_ok R s \<Longrightarrow> set cs \<subseteq> set (clients s) \<Longrightarrow> origin_ok R (s\<lparr>clients := cs\<rparr>)"
  by (auto simp: origin_ok_def)

lemma origin_queue_less:
  "origin_ok R s \<Longrightarrow> set (items q) \<subseteq> set (items (command_queue s)) \<Longrightarrow> origin_ok R (s\<lparr>command_queue := q\<rparr>)"
  by (auto simp: origin_ok_def)

lemma origin_push:
  "origin_ok R s \<Longrightarrow> cmd_from R cmd \<Longrightarrow> push cmd (command_queue s) = (pushed, q) \<Longrightarrow> origin_ok R (s\<lparr>command_queue := q\<rparr>)"
  by (auto simp: origin_ok_def push_def split: if_splits) (metis list.sel(2) list.set_sel(2))

lemma origin_record: "origin_ok R s \<Longrightarrow> recordable s a \<Longrightarrow> origin_ok R (record_action a s)"
  by (cases a) (auto simp: origin_ok_def record_action_def)

lemma origin_make: "make_promise s = (p, t) \<Longrightarrow> origin_ok R t = origin_ok R s \<and> clients t = clients s \<and> command_queue t = command_queue s"
  by (auto simp: make_promise_def)

text \<open>What another thread does is recorded as its request.\<close>

lemma accepted_mode_known:
  "md_accepted (fst (request_mode now name c)) \<Longrightarrow> map_of kModes (normalized_mode name) = Some (md_mode (fst (request_mode now name c)))"
  by (auto simp: request_mode_def Let_def split: option.splits if_splits)

lemma origin_mode_gate: "origin_ok R s \<Longrightarrow> ModeBegin name \<in> R \<Longrightarrow> origin_ok R (mode_gate p name s)"
  using accepted_mode_known [of "clk s" name "ctrl s"]
  by (auto simp: mode_gate_def Let_def mode_from_def intro!: origin_client origin_ctl)

lemma origin_mode_enqueue: "origin_ok R s \<Longrightarrow> mode_from R m \<Longrightarrow> origin_ok R (mode_enqueue p m s)"
  by (auto simp: mode_enqueue_def Let_def intro!: origin_ctl elim!: origin_push split: prod.split)

lemma origin_estop_mark: "origin_ok R s \<Longrightarrow> origin_ok R (estop_mark p s)"
  by (simp add: estop_mark_def Let_def split: option.split)

lemma origin_resume:
  assumes "origin_ok R s"
  shows "origin_ok R (resume p s)"
proof (cases "find (\<lambda>c. client_promise c = p) (clients s)")
  case (Some c)
  then have "c \<in> set (clients s)"
    by (auto simp: find_Some_iff)
  then have "client_from R c" "origin_ok R (s\<lparr>clients := remove1 c (clients s)\<rparr>)"
    using assms by (auto simp: origin_ok_def dest: notin_set_remove1)
  then show ?thesis
    using Some by (cases c) (simp_all add: resume_def Let_def origin_mode_gate origin_mode_enqueue origin_estop_mark)
qed (use assms in \<open>simp add: resume_def\<close>)

lemma origin_outside:
  assumes "origin_ok R s" "x \<in> R"
  shows "origin_ok R (outside_step e x s)"
proof (cases x)
  case (AuthorityRequest sdk)
  obtain p t where p: "make_promise s = (p, t)"
    by fastforce
  then have "origin_ok R t" "cmd_from R (RequestAuthorityCommand sdk p)"
    using origin_make [OF p] assms AuthorityRequest by auto
  then show ?thesis
    using AuthorityRequest p by (auto simp: rt_request_authority_def Let_def elim!: origin_push split: prod.split)
next
  case (ModeBegin name)
  obtain p t where p: "make_promise s = (p, t)"
    by fastforce
  then show ?thesis
    using origin_make [OF p] assms ModeBegin by (auto simp: rt_request_mode_def intro!: origin_client)
next
  case EstopBegin
  then show ?thesis
    using assms origin_ctl [of R s TriggerEstop]
    by (auto simp: rt_trigger_estop_def Let_def make_promise_def intro!: origin_client)
next
  case (Resume p)
  then show ?thesis
    using assms origin_resume by simp
qed (use assms in \<open>auto simp: handle_status_def handle_imu_def handle_sport_def rt_submit_velocity_def
      rt_stop_def rt_release_estop_def Let_def make_promise_def intro!: origin_ctl\<close>)

lemma not_requested_from: "\<not> requested_op f \<Longrightarrow> op_from R f"
  by (cases f) simp_all

interpretation origins_trace: trace_oblivious e "origin_ok (interferences e \<union> X)" for e X
  by unfold_locales (simp_all add: origin_outside origin_ctl not_requested_from origin_queue_less origin_record)

interpretation origins: worker_predicate e "origin_ok (interferences e \<union> X)" for e X
  by unfold_locales (simp_all add: origin_record)

lemma origin_run:
  assumes "run (rt_step e) s ls t" "origin_ok (interferences e \<union> X) s" "{x. Outside x \<in> set ls} \<subseteq> X"
  shows "origin_ok (interferences e \<union> X) t"
  using assms
proof (induction rule: run.induct)
  case (run_cons s l t ls u)
  have "origin_ok (interferences e \<union> X) t"
    using run_cons.prems run_cons.hyps(1)
    by (auto simp: rt_step_def intro!: origins.step_ok origin_outside)
  then show ?case
    using run_cons by auto
qed

lemma origin_start: "rt_start_state e s \<Longrightarrow> origin_ok R s"
  by (auto simp: rt_start_state_def DirectDriverRuntime_def ThreadSafeQueue_def origin_ok_def split: sum.splits if_splits)

lemma origin_reached:
  "rt_start_state e s0 \<Longrightarrow> run (rt_step e) s0 ls s \<Longrightarrow> origin_ok (requests e ls) s"
  unfolding requests_def by (rule origin_run) (auto simp: origin_start)

lemma run_reach_start:
  assumes "run step s ls t" "reach start step s"
  shows "reach start step t"
  using assms by (induction rule: run.induct) (auto intro: reach.reach_step)

section \<open>What the worker sends goes back to a request\<close>

lemma reached_at:
  assumes "rt_start_state e s0" "run (rt_step e) s0 ls s" "trace s = post @ a # tr"
  shows "warranted e a tr" "all_warranted e tr" "\<forall>b \<in> set tr. action_from (requests e ls) b"
proof -
  have r: "reach (rt_start_state e) (rt_step e) s"
    using run_reach_start [OF assms(2)] assms(1) by (simp add: reach.reach_start)
  show "warranted e a tr" "all_warranted e tr"
    using reachable_warrant [OF r assms(3)] by blast+
  show "\<forall>b \<in> set tr. action_from (requests e ls) b"
    using origin_reached [OF assms(1,2)] assms(3) by (simp add: origin_ok_def)
qed

lemma move_origin:
  assumes "rt_start_state e s0" "run (rt_step e) s0 ls s" "trace s = post @ Move v t # tr" "velocity_nonzero v"
  obtains now c h u0 w rest where "tr = Tick now c h # rest" "(u0, AcceptVelocity w) \<in> set h"
    "now - u0 \<le> ms (deadman_ms (config e))" "v = clamp_velocity w" "SubmitVelocity w \<in> requests e ls"
proof -
  note r = reached_at [OF assms(1-3)]
  obtain now c h rest where tr: "tr = Tick now c h # rest" and acc: "vd_accepted (velocity_for_tick now c)"
    and v: "v = vd_value (velocity_for_tick now c)"
    using r(1) assms(4) by auto
  obtain c0 where c0: "RobotController (deadman_ms (config e)) = Inr c0" and c: "c = ctl_run h c0"
    using r(2) tr by auto
  obtain before u0 w since where o: "h = before @ (u0, AcceptVelocity w) # since"
    "vd_value (velocity_for_tick now c) = clamp_velocity w" "now - u0 \<le> ms (deadman_ms (config e))"
    by (rule accepted_tick_origin [OF c0, of now h]) (use acc c in auto)
  have "SubmitVelocity w \<in> requests e ls"
    using r(3) tr o(1) by auto
  then show ?thesis
    using that tr o v by auto
qed

lemma mode_origin:
  assumes "rt_start_state e s0" "run (rt_step e) s0 ls s" "trace s = post @ SetMode m t # tr"
  shows "(\<exists>u rest. m = 0xA101 \<and> tr = Move zero_velocity u # StopSequence # rest) \<or> mode_from (requests e ls) m"
  using reached_at(1,3) [OF assms] by auto

lemma authority_origin:
  assumes "rt_start_state e s0" "run (rt_step e) s0 ls s" "trace s = post @ RequestAuthority sdk t # tr"
  shows "AuthorityRequest sdk \<in> requests e ls"
  using reached_at(1,3) [OF assms] by auto

end
