(* ===== verification/Driver_System.thy ===== *)
theory Driver_System
  imports Node_Construction Runtime_Origins
begin

text \<open>
  The node and the runtime together: the node is the runtime's only client, so what reaches the robot goes back to
  messages and requests on the ROS graph. The two run on their own threads; what joins them is that a public
  method of the runtime is called only by a handler of the node that is at that call.
\<close>

section \<open>Where the node's calls come from\<close>

text \<open>A message that justifies a call the node makes.\<close>

fun asked_for :: "bridge_label set \<Rightarrow> node_output \<Rightarrow> bool" where
  "asked_for L (CallSubmitVelocity v) \<longleftrightarrow> (\<exists>t x y yaw now. Begin t (CmdVel x y yaw) now \<in> L \<and>
     isfinite x \<and> isfinite y \<and> isfinite yaw \<and> v = \<lparr>vx = clamp_unit x, vy = clamp_unit y, vyaw = clamp_unit yaw\<rparr>)"
| "asked_for L (CallRequestMode name) \<longleftrightarrow> (\<exists>t input now. Begin t (RobotMode input) now \<in> L \<and> name = trimmed_lower input \<and>
     name \<in> set robot_mode_names)"
| "asked_for L (CallRequestAuthority sdk) \<longleftrightarrow> (\<exists>t reply now. Begin t (ControlAuthority sdk reply) now \<in> L)"
| "asked_for L (CallTriggerEstop engage) \<longleftrightarrow> (\<exists>t reply now. Begin t (EmergencyStop engage reply) now \<in> L)"
| "asked_for L _ \<longleftrightarrow> True"

fun crit_asked :: "bridge_label set \<Rightarrow> crit \<Rightarrow> bool" where
  "crit_asked L (Emit x) = asked_for L x"
| "crit_asked L _ = True"

definition asked_inv :: "bridge_label set \<Rightarrow> bridge \<Rightarrow> bool" where
  "asked_inv L b \<longleftrightarrow> list_all (asked_for L) (nd_outputs (br_node b)) \<and> (\<forall>t. list_all (crit_asked L) (br_threads b t))"

lemma handler_asked:
  assumes "Begin t ev now \<in> L"
  shows "list_all (crit_asked L) (handler e now ev)"
proof (cases ev)
  case (CmdVel x y yaw)
  then show ?thesis
    using assms unfolding CmdVel handler.simps on_cmd_vel_def by (simp, blast)
next
  case (Observed ob)
  then show ?thesis
    by (cases ob) (auto simp: on_state_def on_imu_def on_sport_def on_status_def on_event_def split: option.split)
qed (use assms in \<open>auto simp: on_robot_mode_def on_joint_commands_def reject_joint_command_def on_emergency_stop_def
    on_control_authority_def on_lidar_frame_def on_lidar_odometry_def Let_def split: option.split\<close>)

lemma run_section_asked:
  assumes "run_section e now c n = (m, more_crit)" "crit_asked L c" "list_all (asked_for L) (nd_outputs n)"
  shows "list_all (asked_for L) (nd_outputs m)" "list_all (crit_asked L) more_crit"
  using assms by (cases c; auto simp: store_status_def publish_robot_state_def finish_state_def publish_tf_def
      map_cloud_section_def observe_section_def emit_def Let_def split: option.splits if_splits)+

lemma asked_inv_step:
  assumes "bridge_step e b l c" "asked_inv L b" "l \<in> L"
  shows "asked_inv L c"
proof (cases l)
  case (Begin t ev now)
  then show ?thesis
    using assms handler_asked [of t ev now L e] by (auto simp: asked_inv_def bridge_step_def split: if_splits)
next
  case (Section t now)
  then obtain s rest where r: "br_threads b t = s # rest"
    using assms(1) by (auto simp: bridge_step_def split: list.splits)
  obtain m more_crit where x: "run_section e now s (br_node b) = (m, more_crit)"
    by fastforce
  have c: "c = b\<lparr>br_node := m, br_threads := (br_threads b)(t := more_crit @ rest)\<rparr>"
    using assms(1) Section r x by (simp add: bridge_step_def)
  have ok: "list_all (crit_asked L) (br_threads b u)" "list_all (asked_for L) (nd_outputs (br_node b))" for u
    using assms(2) by (simp_all add: asked_inv_def)
  then have "crit_asked L s" "list_all (crit_asked L) rest"
    using ok(1) [of t] r by simp_all
  then show ?thesis
    using run_section_asked [OF x] ok by (simp add: asked_inv_def c)
qed

lemma asked_inv_run:
  "run (bridge_step e) b ls c \<Longrightarrow> asked_inv L b \<Longrightarrow> set ls \<subseteq> L \<Longrightarrow> asked_inv L c"
  by (induction rule: run.induct) (auto dest: asked_inv_step)

lemma node_calls_asked:
  assumes "run (bridge_step e) new_bridge ls b" "x \<in> set (nd_outputs (br_node b))"
  shows "asked_for (set ls) x"
proof -
  have "asked_inv (set ls) new_bridge"
    by (simp add: asked_inv_def new_bridge_def new_node_def)
  then have "asked_inv (set ls) b"
    using asked_inv_run [OF assms(1)] by blast
  then show ?thesis
    using assms(2) by (simp add: asked_inv_def list_all_iff)
qed

section \<open>From the ROS graph to the robot\<close>

text \<open>The node is the runtime's client: every request of the run is a call the node made.\<close>

definition only_client :: "node_output set \<Rightarrow> outside set \<Rightarrow> bool" where
  "only_client calls R \<longleftrightarrow> (\<forall>v. SubmitVelocity v \<in> R \<longrightarrow> CallSubmitVelocity v \<in> calls) \<and>
     (\<forall>name. ModeBegin name \<in> R \<longrightarrow> CallRequestMode name \<in> calls) \<and>
     (\<forall>sdk. AuthorityRequest sdk \<in> R \<longrightarrow> CallRequestAuthority sdk \<in> calls)"

lemma move_from_cmd_vel:
  assumes "run (bridge_step ne) new_bridge bls b" "rt_start_state e s0" "run (rt_step e) s0 ls s"
    and "only_client (set (nd_outputs (br_node b))) (requests e ls)"
    and "trace s = post @ Move v timeout # tr" "velocity_nonzero v"
  shows "\<exists>t x y yaw now. Begin t (CmdVel x y yaw) now \<in> set bls \<and> isfinite x \<and> isfinite y \<and> isfinite yaw \<and>
    v = \<lparr>vx = clamp_unit x, vy = clamp_unit y, vyaw = clamp_unit yaw\<rparr> \<and>
    (\<exists>at_tick c h u0 rest. tr = action.Tick at_tick c h # rest \<and> (u0, AcceptVelocity v) \<in> set h \<and>
       at_tick - u0 \<le> ms (deadman_ms (config e)))"
proof -
  obtain at_tick c h u0 w rest where o: "tr = action.Tick at_tick c h # rest" "(u0, AcceptVelocity w) \<in> set h"
    "at_tick - u0 \<le> ms (deadman_ms (config e))" "v = clamp_velocity w" "SubmitVelocity w \<in> requests e ls"
    by (rule move_origin [OF assms(2,3,5,6)])
  then have w: "CallSubmitVelocity w \<in> set (nd_outputs (br_node b))"
    using assms(4) by (simp add: only_client_def)
  obtain t x y yaw now where m: "Begin t (CmdVel x y yaw) now \<in> set bls" "isfinite x" "isfinite y" "isfinite yaw"
      "w = \<lparr>vx = clamp_unit x, vy = clamp_unit y, vyaw = clamp_unit yaw\<rparr>"
    using node_calls_asked [OF assms(1) w] by auto
  then have "clamp_velocity w = w"
    by (intro clamp_velocity_idle) (simp add: velocity_in_unit_def clamp_unit_range_node)
  then have "v = w"
    using o(4) by simp
  then have "\<exists>at_tick c h u0 rest. tr = action.Tick at_tick c h # rest \<and> (u0, AcceptVelocity v) \<in> set h \<and>
       at_tick - u0 \<le> ms (deadman_ms (config e))"
    using o(1-3) by blast
  with m \<open>v = w\<close> show ?thesis
    by metis
qed

lemma mode_from_ros:
  assumes "run (bridge_step ne) new_bridge bls b" "only_client (set (nd_outputs (br_node b))) R" "mode_from R m"
  shows "\<exists>t input now. Begin t (RobotMode input) now \<in> set bls \<and> map_of kModes (trimmed_lower input) = Some m"
proof -
  obtain name where name: "ModeBegin name \<in> R" "map_of kModes (normalized_mode name) = Some m"
    using assms(3) by (auto simp: mode_from_def)
  then have "CallRequestMode name \<in> set (nd_outputs (br_node b))"
    using assms(2) by (simp add: only_client_def)
  then obtain t input now where "Begin t (RobotMode input) now \<in> set bls" "name = trimmed_lower input"
      "name \<in> set robot_mode_names"
    using node_calls_asked [OF assms(1)] by fastforce
  moreover from this have "map_of kModes (trimmed_lower input) = Some m"
    using name(2) robot_mode_names_normal [of name] by simp
  ultimately show ?thesis
    by blast
qed

text \<open>
  C1. From the ROS graph to the robot: in every run of the node and the runtime, with every interleaving of their
  threads and whatever the SDK does, a nonzero velocity sent to the robot is, component by component, the clamped value
  of one finite velocity message that was received, accepted no longer than the deadman time before the motion
  tick that sent it; a mode sent to the robot was named by a received mode message, unless it is the damping of a
  stop sequence; and the control authority is asked for or given back only when the service was called for it.
\<close>

theorem robot_obeys_ros_graph:
  assumes "run (bridge_step ne) new_bridge bls b"
    and "rt_start_state e s0" "run (rt_step e) s0 ls s"
    and "only_client (set (nd_outputs (br_node b))) (requests e ls)"
    and "trace s = post @ a # tr"
  shows "(case a of
       Move v timeout \<Rightarrow> velocity_nonzero v \<longrightarrow>
         (\<exists>t x y yaw now. Begin t (CmdVel x y yaw) now \<in> set bls \<and> isfinite x \<and> isfinite y \<and> isfinite yaw \<and>
            v = \<lparr>vx = clamp_unit x, vy = clamp_unit y, vyaw = clamp_unit yaw\<rparr> \<and>
            (\<exists>at_tick c h u0 rest. tr = action.Tick at_tick c h # rest \<and> (u0, AcceptVelocity v) \<in> set h \<and>
               at_tick - u0 \<le> ms (deadman_ms (config e))))
     | SetMode m timeout \<Rightarrow>
         (\<exists>t input now. Begin t (RobotMode input) now \<in> set bls \<and> map_of kModes (trimmed_lower input) = Some m) \<or>
         (\<exists>u rest. m = 0xA101 \<and> tr = Move zero_velocity u # StopSequence # rest)
     | RequestAuthority sdk timeout \<Rightarrow> \<exists>t reply now. Begin t (ControlAuthority sdk reply) now \<in> set bls
     | _ \<Rightarrow> True)"
proof (cases a)
  case (Move v timeout)
  then show ?thesis
    using move_from_cmd_vel [OF assms(1-4)] assms(5) by simp
next
  case (SetMode m timeout)
  then show ?thesis
    using mode_origin [OF assms(2,3)] mode_from_ros [OF assms(1,4)] assms(5) unfolding SetMode action.case by blast
next
  case (RequestAuthority sdk timeout)
  then have "CallRequestAuthority sdk \<in> set (nd_outputs (br_node b))"
    using authority_origin [OF assms(2,3)] assms(4,5) by (simp add: only_client_def)
  from node_calls_asked [OF assms(1) this] show ?thesis
    using RequestAuthority by simp
qed simp_all

section \<open>Witness\<close>

definition ex_ros_labels :: "bridge_label list" where
  "ex_ros_labels = [Begin 1 (CmdVel (Fin 3) (Fin 0) (Fin 0)) 0, Section 1 0]"

lemma ex_ros_run:
  "\<exists>b. bridge_run (ex_node_env True) ex_ros_labels new_bridge = Some b \<and>
     nd_outputs (br_node b) = [CallSubmitVelocity \<lparr>vx = Fin 1, vy = Fin 0, vyaw = Fin 0\<rparr>]"
  by (simp add: ex_ros_labels_def bridge_eval clamp_unit_def std_max_def std_min_def fround_small fround_zero)

lemma ex_requests: "requests ex_env (ex_labels @ ex_drive_labels 1) =
    {StatusReport True True, Elapse 500000000, Elapse 20000000, SubmitVelocity \<lparr>vx = Fin 1, vy = Fin 0, vyaw = Fin 0\<rparr>}"
  by (auto simp: requests_def interferences_def ex_env_def ex_turn_def ex_labels_def ex_drive_labels_def ex_elapse_def)

theorem robot_obeys_ros_graph_witness:
  "\<exists>t x y yaw now. Begin t (CmdVel x y yaw) now \<in> set ex_ros_labels \<and>
     \<lparr>vx = Fin 1, vy = Fin 0, vyaw = Fin 0\<rparr> = \<lparr>vx = clamp_unit x, vy = clamp_unit y, vyaw = clamp_unit yaw\<rparr> \<and>
     trace (ex_run (ex_labels @ ex_drive_labels 1) ex_start) =
       Move \<lparr>vx = Fin 1, vy = Fin 0, vyaw = Fin 0\<rparr> 5000 # tl (trace (ex_run (ex_labels @ ex_drive_labels 1) ex_start))"
proof -
  let ?v = "\<lparr>vx = Fin 1, vy = Fin 0, vyaw = Fin 0\<rparr> :: velocity" and ?s = "ex_run (ex_labels @ ex_drive_labels 1) ex_start"
  obtain b where b: "run (bridge_step (ex_node_env True)) new_bridge ex_ros_labels b"
      "nd_outputs (br_node b) = [CallSubmitVelocity ?v]"
    using ex_ros_run bridge_run_run by blast
  have "rt_start_state ex_env ex_start"
    by (simp add: rt_start_state_def ex_start_eq)
  moreover have "only_client (set (nd_outputs (br_node b))) (requests ex_env (ex_labels @ ex_drive_labels 1))"
    by (simp add: only_client_def ex_requests b(2))
  moreover have "trace ?s = [] @ Move ?v 5000 # tl (trace ?s)"
    by (simp add: ex_run_append ex_labels_run ex_drive_trace)
  ultimately have "velocity_nonzero ?v \<longrightarrow> (\<exists>t x y yaw now. Begin t (CmdVel x y yaw) now \<in> set ex_ros_labels \<and>
      ?v = \<lparr>vx = clamp_unit x, vy = clamp_unit y, vyaw = clamp_unit yaw\<rparr>)" "trace ?s = Move ?v 5000 # tl (trace ?s)"
    using robot_obeys_ros_graph [OF b(1) _ ex_run_steps, of _ _ "[]" "Move ?v 5000"] unfolding action.case by (metis, simp)
  then show ?thesis
    by (simp add: velocity_nonzero_def)
qed

end
