(* ===== verification/Owned_Threads.thy ===== *)
theory Owned_Threads
  imports Bridge_Prelude
begin

text \<open>
  The two contracts that the shutdown protocols of the sources share. \<open>owned_thread\<close>: a thread with a handle and
  a flag that ends it, which is gone for good once the flag is set and the handle was joined or never written.
  \<open>progress_system\<close>: callers that may wait for each other, all of which return. They are interpreted on the worker of
  \<^verbatim>\<open>DirectDriverRuntime\<close> in \<open>Thread_Shutdown\<close> and on the receive thread of \<^verbatim>\<open>LidarStreamReceiver\<close> in
  \<open>Receiver_Shutdown\<close>.
\<close>

section \<open>Owned threads\<close>

text \<open>
  What both protocols promise, and what follows: once the flag is set and the handle is not joinable, the owned
  thread is gone for good.
\<close>

locale owned_thread =
  fixes step :: "'s \<Rightarrow> 'l \<Rightarrow> 's \<Rightarrow> bool"
    and good :: "'s \<Rightarrow> bool"
    and flag :: "'s \<Rightarrow> bool"
    and handle :: "'s \<Rightarrow> bool"
    and live :: "'s \<Rightarrow> bool"
  assumes good_step: "good s \<Longrightarrow> step s l t \<Longrightarrow> good t"
    and flag_kept: "good s \<Longrightarrow> step s l t \<Longrightarrow> flag s \<Longrightarrow> flag t"
    and no_new_handle: "good s \<Longrightarrow> step s l t \<Longrightarrow> flag s \<Longrightarrow> handle t \<Longrightarrow> handle s"
    and live_has_handle: "good s \<Longrightarrow> live s \<Longrightarrow> handle s"
begin

lemma gone_for_good:
  assumes "run step s ls t" "good s" "flag s" "\<not> handle s"
  shows "good t \<and> flag t \<and> \<not> handle t \<and> \<not> live t"
  using assms
proof (induction rule: run.induct)
  case (run_cons s l t ls u)
  then show ?case
    using good_step flag_kept no_new_handle by blast
qed (use live_has_handle in blast)

end

section \<open>Bounded progress\<close>

lemma sum_lowered:
  fixes f g :: "nat \<Rightarrow> nat"
  assumes "t < n" "\<And>u. u \<noteq> t \<Longrightarrow> g u = f u" "g t < f t"
  shows "(\<Sum>u<n. g u) < (\<Sum>u<n. f u)"
proof (rule sum_strict_mono_ex1)
  show "\<forall>u \<in> {..<n}. g u \<le> f u"
    using assms(2,3) by (metis less_imp_le order_refl)
qed (use assms in auto)

text \<open>
  A system whose progress steps lower a weight, and which can take one while it is busy, comes to rest: no schedule of
  progress steps is longer than the weight, and none ends while the system is busy.
\<close>

locale progress_system =
  fixes step :: "'s \<Rightarrow> 'l \<Rightarrow> 's \<Rightarrow> bool"
    and good :: "'s \<Rightarrow> bool"
    and progress :: "'l \<Rightarrow> bool"
    and weight :: "'s \<Rightarrow> nat"
    and busy :: "'s \<Rightarrow> bool"
  assumes good_progress: "good s \<Longrightarrow> step s l t \<Longrightarrow> progress l \<Longrightarrow> good t"
    and weight_lowered: "good s \<Longrightarrow> step s l t \<Longrightarrow> progress l \<Longrightarrow> weight t < weight s"
    and not_stuck: "good s \<Longrightarrow> busy s \<Longrightarrow> \<exists>l t. progress l \<and> step s l t"
begin

lemma progress_run:
  assumes "run step s ls t" "list_all progress ls" "good s"
  shows "good t \<and> length ls + weight t \<le> weight s"
  using assms
proof (induction rule: run.induct)
  case (run_cons s l t ls u)
  then have "good t" "weight t < weight s"
    using good_progress weight_lowered by auto
  with run_cons show ?case
    by simp
qed simp

lemma comes_to_rest:
  assumes "good s"
  shows "\<exists>ls t. run step s ls t \<and> list_all progress ls \<and> \<not> busy t"
  using assms
proof (induction "weight s" arbitrary: s rule: less_induct)
  case less
  show ?case
  proof (cases "busy s")
    case False
    then show ?thesis
      by (intro exI [of _ "[]"] exI [of _ s]) (simp add: run_nil)
  next
    case True
    then obtain l t where l: "progress l" "step s l t"
      using not_stuck less.prems by blast
    then obtain ls u where "run step t ls u" "list_all progress ls" "\<not> busy u"
      using less.hyps good_progress weight_lowered less.prems by blast
    with l show ?thesis
      by (intro exI [of _ "l # ls"] exI [of _ u]) (auto intro: run_cons)
  qed
qed

lemma drains:
  assumes "good s"
  shows "(\<exists>ls t. run step s ls t \<and> list_all progress ls \<and> \<not> busy t) \<and>
    (\<forall>ls t. run step s ls t \<and> list_all progress ls \<longrightarrow>
       length ls \<le> weight s \<and> (\<not> busy t \<or> (\<exists>l u. progress l \<and> step t l u)))"
  using comes_to_rest [OF assms] progress_run [OF _ _ assms] not_stuck by (meson add_leD1)

end

end
