(* ===== verification/Thread_Shutdown.thy ===== *)
theory Thread_Shutdown
  imports Owned_Threads
begin

text \<open>
  \<^verbatim>\<open>DirectDriverRuntime::start\<close>, \<^verbatim>\<open>stop\<close> and the observer callback guard (\<^verbatim>\<open>direct_driver_runtime.cpp\<close>) as the
  methods of any number of threads that interleave: \<^verbatim>\<open>stop\<close> sets a flag, leaves when its thread is inside an
  observer callback, and otherwise joins the worker under the stop mutex. The methods are cut at their critical
  sections; a mutex is the thread that holds it, and a step that acquires a mutex or joins is enabled when it would
  not block. Threads are numbers, 0 is the worker. What the worker does in its session is in \<open>Driver_Runtime\<close>;
  here it only matters that it may be inside an SDK call that returns after callbacks on other threads have returned.
\<close>

section \<open>The worker of the runtime\<close>

text \<open>
  The owned thread: not created, running, inside an SDK call that returns only when the callbacks of the given threads have
  returned, or returned.
\<close>

datatype owned = NoThread | Working | InSdkCall "nat set" | Returned

datatype stop_pc = Idle | Starting | Requested | Locking | Locked | Joining

record shutdown =
  sd_stop_requested :: bool
  sd_joinable :: bool
  sd_worker :: owned
  sd_stop_mutex :: "nat option"
  in_observer_callback :: "nat \<Rightarrow> bool"
  guards :: "nat \<Rightarrow> bool list"
  sd_pc :: "nat \<Rightarrow> stop_pc"
  joins :: nat

definition new_shutdown :: shutdown where
  "new_shutdown = \<lparr>sd_stop_requested = False, sd_joinable = False, sd_worker = NoThread, sd_stop_mutex = None,
     in_observer_callback = (\<lambda>t. False), guards = (\<lambda>t. []), sd_pc = (\<lambda>t. Idle), joins = 0\<rparr>"

definition at_pc :: "nat \<Rightarrow> stop_pc \<Rightarrow> shutdown \<Rightarrow> shutdown" where
  "at_pc t p s = s\<lparr>sd_pc := (sd_pc s)(t := p)\<rparr>"

text \<open>The guard of an observer callback: it saves the marker of the thread and restores it.\<close>

definition enter_callback :: "nat \<Rightarrow> shutdown \<Rightarrow> shutdown" where
  "enter_callback t s = s\<lparr>guards := (guards s)(t := in_observer_callback s t # guards s t),
     in_observer_callback := (in_observer_callback s)(t := True)\<rparr>"

definition leave_callback :: "nat \<Rightarrow> shutdown \<Rightarrow> shutdown" where
  "leave_callback t s = s\<lparr>in_observer_callback := (in_observer_callback s)(t := hd (guards s t)),
     guards := (guards s)(t := tl (guards s t))\<rparr>"

text \<open>\<^verbatim>\<open>start\<close> under the stop mutex, and the four sections of \<^verbatim>\<open>stop\<close>.\<close>

definition start_section :: "nat \<Rightarrow> shutdown \<Rightarrow> shutdown" where
  "start_section t s = at_pc t Idle
     (if sd_joinable s \<or> sd_stop_requested s then s else s\<lparr>sd_worker := Working, sd_joinable := True\<rparr>)"

definition stop_request :: "nat \<Rightarrow> shutdown \<Rightarrow> shutdown" where
  "stop_request t s = at_pc t Requested (s\<lparr>sd_stop_requested := True\<rparr>)"

definition stop_guard :: "nat \<Rightarrow> shutdown \<Rightarrow> shutdown" where
  "stop_guard t s = at_pc t (if in_observer_callback s t then Idle else Locking) s"

definition stop_lock :: "nat \<Rightarrow> shutdown \<Rightarrow> shutdown" where
  "stop_lock t s = at_pc t Locked (s\<lparr>sd_stop_mutex := Some t\<rparr>)"

definition stop_check :: "nat \<Rightarrow> shutdown \<Rightarrow> shutdown" where
  "stop_check t s = (if sd_joinable s \<and> t \<noteq> 0 then at_pc t Joining s
     else at_pc t Idle (s\<lparr>sd_stop_mutex := None\<rparr>))"

definition stop_join :: "nat \<Rightarrow> shutdown \<Rightarrow> shutdown" where
  "stop_join t s = at_pc t Idle (s\<lparr>sd_joinable := False, joins := joins s + 1, sd_stop_mutex := None\<rparr>)"

text \<open>
  The steps. A thread that is not the worker exists all along; the worker runs code of its own only while it exists,
  and calls \<^verbatim>\<open>start\<close> and \<^verbatim>\<open>stop\<close> only from a callback.
\<close>

definition exists_thread :: "nat \<Rightarrow> shutdown \<Rightarrow> bool" where
  "exists_thread t s \<longleftrightarrow> t = 0 \<longrightarrow> sd_worker s \<noteq> NoThread \<and> sd_worker s \<noteq> Returned"

definition may_call :: "nat \<Rightarrow> shutdown \<Rightarrow> bool" where
  "may_call t s \<longleftrightarrow> sd_pc s t = Idle \<and> exists_thread t s \<and> (t = 0 \<longrightarrow> guards s 0 \<noteq> [])"

definition worker_free :: "shutdown \<Rightarrow> bool" where
  "worker_free s \<longleftrightarrow> sd_pc s 0 = Idle \<and> guards s 0 = []"

datatype sd_label =
  EnterCallback nat | LeaveCallback nat | StartCall nat | StartSection nat
| StopRequested nat | StopGuard nat | StopLock nat | StopCheck nat | StopJoin nat
| SdkCall "nat set" | SdkReturn | WorkerReturn

inductive sd_step :: "shutdown \<Rightarrow> sd_label \<Rightarrow> shutdown \<Rightarrow> bool" where
  enter: "sd_pc s t = Idle \<Longrightarrow> exists_thread t s \<Longrightarrow> sd_step s (EnterCallback t) (enter_callback t s)"
| leave: "sd_pc s t = Idle \<Longrightarrow> guards s t \<noteq> [] \<Longrightarrow> sd_step s (LeaveCallback t) (leave_callback t s)"
| start: "may_call t s \<Longrightarrow> sd_step s (StartCall t) (at_pc t Starting s)"
| started: "sd_pc s t = Starting \<Longrightarrow> sd_stop_mutex s = None \<Longrightarrow> sd_step s (StartSection t) (start_section t s)"
| request: "may_call t s \<Longrightarrow> sd_step s (StopRequested t) (stop_request t s)"
| guard: "sd_pc s t = Requested \<Longrightarrow> sd_step s (StopGuard t) (stop_guard t s)"
| lock: "sd_pc s t = Locking \<Longrightarrow> sd_stop_mutex s = None \<Longrightarrow> sd_step s (StopLock t) (stop_lock t s)"
| check: "sd_pc s t = Locked \<Longrightarrow> sd_step s (StopCheck t) (stop_check t s)"
| join: "sd_pc s t = Joining \<Longrightarrow> sd_worker s = Returned \<Longrightarrow> sd_step s (StopJoin t) (stop_join t s)"
| call: "sd_worker s = Working \<Longrightarrow> worker_free s \<Longrightarrow> sd_step s (SdkCall W) (s\<lparr>sd_worker := InSdkCall W\<rparr>)"
| return: "sd_worker s = InSdkCall W \<Longrightarrow> worker_free s \<Longrightarrow> \<forall>t \<in> W. guards s t = [] \<Longrightarrow>
     sd_step s SdkReturn (s\<lparr>sd_worker := Working\<rparr>)"
| exit: "sd_worker s = Working \<Longrightarrow> worker_free s \<Longrightarrow> sd_stop_requested s \<Longrightarrow>
     sd_step s WorkerReturn (s\<lparr>sd_worker := Returned\<rparr>)"

inductive_cases sd_stepE: "sd_step s l t"

definition sd_start :: "shutdown \<Rightarrow> bool" where
  "sd_start s \<longleftrightarrow> s = new_shutdown"

text \<open>The steps that do not begin anything new.\<close>

fun sd_progress :: "sd_label \<Rightarrow> bool" where
  "sd_progress (EnterCallback t) = False"
| "sd_progress (StartCall t) = False"
| "sd_progress (StopRequested t) = False"
| "sd_progress (SdkCall W) = False"
| "sd_progress _ = True"

subsection \<open>Invariant\<close>

definition holds_stop_mutex :: "stop_pc \<Rightarrow> bool" where
  "holds_stop_mutex p \<longleftrightarrow> p = Locked \<or> p = Joining"

text \<open>The markers that nested guards have saved: only the outermost one saved that there was no callback.\<close>

fun nested :: "bool list \<Rightarrow> bool" where
  "nested [] = True"
| "nested (b # bs) = (b = (bs \<noteq> []) \<and> nested bs)"

definition thread_inv :: "shutdown \<Rightarrow> nat \<Rightarrow> bool" where
  "thread_inv s t \<longleftrightarrow> (in_observer_callback s t \<longleftrightarrow> guards s t \<noteq> []) \<and> nested (guards s t) \<and>
     (holds_stop_mutex (sd_pc s t) \<longleftrightarrow> sd_stop_mutex s = Some t) \<and>
     (sd_pc s t = Locking \<or> holds_stop_mutex (sd_pc s t) \<longrightarrow> guards s t = [] \<and> sd_stop_requested s \<and> t \<noteq> 0) \<and>
     (sd_pc s t = Requested \<longrightarrow> sd_stop_requested s) \<and>
     (sd_pc s t = Joining \<longrightarrow> sd_joinable s) \<and>
     (t = 0 \<longrightarrow> (sd_pc s t = Requested \<or> sd_pc s t = Starting \<longrightarrow> guards s t \<noteq> []) \<and>
        (sd_worker s = NoThread \<or> sd_worker s = Returned \<longrightarrow> guards s t = [] \<and> sd_pc s t = Idle))"

text \<open>The state the threads share.\<close>

definition worker_gone :: "shutdown \<Rightarrow> bool" where
  "worker_gone s \<longleftrightarrow> sd_worker s = NoThread \<or> sd_worker s = Returned"

definition shared_inv :: "shutdown \<Rightarrow> bool" where
  "shared_inv s \<longleftrightarrow> (\<not> worker_gone s \<longrightarrow> sd_joinable s) \<and> (sd_joinable s \<longrightarrow> sd_worker s \<noteq> NoThread \<and> joins s = 0) \<and>
     joins s \<le> 1 \<and> (joins s \<noteq> 0 \<longrightarrow> sd_stop_requested s) \<and> (sd_worker s \<noteq> NoThread \<and> \<not> sd_joinable s \<longrightarrow> sd_stop_requested s)"

definition sd_inv :: "shutdown \<Rightarrow> bool" where
  "sd_inv s \<longleftrightarrow> (\<forall>t. thread_inv s t) \<and> shared_inv s"

lemma sd_inv_start: "sd_start s \<Longrightarrow> sd_inv s"
  by (simp add: sd_start_def new_shutdown_def sd_inv_def shared_inv_def thread_inv_def holds_stop_mutex_def
      worker_gone_def)

lemmas sd_defs = at_pc_def enter_callback_def leave_callback_def start_section_def stop_request_def stop_guard_def
  stop_lock_def stop_check_def stop_join_def

text \<open>A step of one thread leaves the invariant of the others alone.\<close>

lemma thread_inv_frame:
  assumes "thread_inv s u" "in_observer_callback s' u = in_observer_callback s u" "guards s' u = guards s u"
    "sd_pc s' u = sd_pc s u" "sd_stop_mutex s' = Some u \<longleftrightarrow> sd_stop_mutex s = Some u"
    "sd_stop_requested s \<Longrightarrow> sd_stop_requested s'"
    "sd_pc s u = Joining \<Longrightarrow> sd_joinable s \<Longrightarrow> sd_joinable s'"
    "u = 0 \<Longrightarrow> worker_gone s' \<Longrightarrow> worker_gone s"
  shows "thread_inv s' u"
  using assms unfolding thread_inv_def worker_gone_def by metis

lemma sd_inv_own:
  assumes i: "sd_inv s" and own: "thread_inv s t \<Longrightarrow> shared_inv s \<Longrightarrow> thread_inv s' t"
    and shared: "thread_inv s t \<Longrightarrow> shared_inv s \<Longrightarrow> shared_inv s'"
    and frame: "\<And>u. thread_inv s t \<Longrightarrow> u \<noteq> t \<Longrightarrow> in_observer_callback s' u = in_observer_callback s u \<and> guards s' u = guards s u \<and>
      sd_pc s' u = sd_pc s u \<and> (sd_stop_mutex s' = Some u \<longleftrightarrow> sd_stop_mutex s = Some u)"
    and mono: "sd_stop_requested s \<Longrightarrow> sd_stop_requested s'"
      "thread_inv s t \<Longrightarrow> sd_joinable s \<Longrightarrow> sd_joinable s' \<or> sd_stop_mutex s = Some t" "t \<noteq> 0 \<Longrightarrow> worker_gone s' \<Longrightarrow> worker_gone s"
  shows "sd_inv s'"
proof -
  have t: "thread_inv s u" "shared_inv s" for u
    using i by (simp_all add: sd_inv_def)
  have "thread_inv s' u" if "u \<noteq> t" for u
  proof (rule thread_inv_frame [OF t(1)])
    assume "sd_pc s u = Joining" "sd_joinable s"
    with mono(2) [OF t(1)] that t(1) [of u] show "sd_joinable s'"
      by (auto simp: thread_inv_def holds_stop_mutex_def)
  qed (use frame [OF t(1) that] mono that in auto)
  moreover have "thread_inv s' t" "shared_inv s'"
    using own shared t by blast+
  ultimately show ?thesis
    unfolding sd_inv_def by metis
qed

lemma nested_pop: "nested g \<Longrightarrow> g \<noteq> [] \<Longrightarrow> hd g = (tl g \<noteq> []) \<and> nested (tl g)"
  by (cases g) auto

lemmas sd_own_defs = thread_inv_def shared_inv_def worker_gone_def holds_stop_mutex_def sd_defs

lemma sd_inv_enter: "sd_inv s \<Longrightarrow> sd_pc s t = Idle \<Longrightarrow> exists_thread t s \<Longrightarrow> sd_inv (enter_callback t s)"
  by (erule sd_inv_own [where t = t]) (simp_all add: sd_own_defs exists_thread_def)

lemma sd_inv_leave: "sd_inv s \<Longrightarrow> sd_pc s t = Idle \<Longrightarrow> guards s t \<noteq> [] \<Longrightarrow> sd_inv (leave_callback t s)"
  by (erule sd_inv_own [where t = t])
    (auto simp add: sd_own_defs nested_pop)

lemma sd_inv_call: "sd_inv s \<Longrightarrow> may_call t s \<Longrightarrow> sd_inv (at_pc t Starting s)"
  by (erule sd_inv_own [where t = t]) (simp_all add: sd_own_defs may_call_def exists_thread_def)

lemma sd_inv_start_section: "sd_inv s \<Longrightarrow> sd_pc s t = Starting \<Longrightarrow> sd_stop_mutex s = None \<Longrightarrow> sd_inv (start_section t s)"
  by (cases "sd_joinable s \<or> sd_stop_requested s"; erule sd_inv_own [where t = t]) (auto simp add: sd_own_defs)

lemma sd_inv_request: "sd_inv s \<Longrightarrow> may_call t s \<Longrightarrow> sd_inv (stop_request t s)"
  by (erule sd_inv_own [where t = t]) (simp_all add: sd_own_defs may_call_def exists_thread_def)

lemma sd_inv_guard: "sd_inv s \<Longrightarrow> sd_pc s t = Requested \<Longrightarrow> sd_inv (stop_guard t s)"
  by (cases "in_observer_callback s t"; cases "t = 0"; erule sd_inv_own [where t = t]) (auto simp add: sd_own_defs)

lemma sd_inv_lock: "sd_inv s \<Longrightarrow> sd_pc s t = Locking \<Longrightarrow> sd_stop_mutex s = None \<Longrightarrow> sd_inv (stop_lock t s)"
  by (erule sd_inv_own [where t = t]) (simp_all add: sd_own_defs)

lemma sd_inv_check: "sd_inv s \<Longrightarrow> sd_pc s t = Locked \<Longrightarrow> sd_inv (stop_check t s)"
  by (cases "sd_joinable s \<and> t \<noteq> 0"; erule sd_inv_own [where t = t]) (simp_all add: sd_own_defs)

lemma sd_inv_join: "sd_inv s \<Longrightarrow> sd_pc s t = Joining \<Longrightarrow> sd_worker s = Returned \<Longrightarrow> sd_inv (stop_join t s)"
  by (erule sd_inv_own [where t = t]) (auto simp add: sd_own_defs)

lemma sd_inv_worker:
  "sd_inv s \<Longrightarrow> sd_worker s = Working \<Longrightarrow> worker_free s \<Longrightarrow> sd_inv (s\<lparr>sd_worker := InSdkCall W\<rparr>)"
  "sd_inv s \<Longrightarrow> sd_worker s = InSdkCall W \<Longrightarrow> worker_free s \<Longrightarrow> sd_inv (s\<lparr>sd_worker := Working\<rparr>)"
  "sd_inv s \<Longrightarrow> sd_worker s = Working \<Longrightarrow> worker_free s \<Longrightarrow> sd_stop_requested s \<Longrightarrow> sd_inv (s\<lparr>sd_worker := Returned\<rparr>)"
  by (erule sd_inv_own [where t = 0]; simp add: sd_own_defs worker_free_def)+

lemma sd_inv_step: "sd_inv s \<Longrightarrow> sd_step s l s' \<Longrightarrow> sd_inv s'"
  by (erule sd_stepE; hypsubst; (erule (1) sd_inv_call sd_inv_request sd_inv_guard sd_inv_check |
      erule (2) sd_inv_enter sd_inv_leave sd_inv_start_section sd_inv_lock sd_inv_join sd_inv_worker(1,2) |
      erule (3) sd_inv_worker(3)))

interpretation sd: invariant_system sd_start sd_step sd_inv
  by unfold_locales (auto intro: sd_inv_start sd_inv_step)

lemma sd_flag_kept: "sd_step s l s' \<Longrightarrow> sd_stop_requested s \<Longrightarrow> sd_stop_requested s'"
  by (erule sd_stepE) (simp_all add: sd_defs)

lemma sd_no_new_handle: "sd_step s l s' \<Longrightarrow> sd_stop_requested s \<Longrightarrow> sd_joinable s' \<Longrightarrow> sd_joinable s"
  by (erule sd_stepE) (simp_all add: sd_defs split: if_splits)

interpretation worker: owned_thread sd_step sd_inv sd_stop_requested sd_joinable "\<lambda>s. \<not> worker_gone s"
  by unfold_locales (blast intro: sd_inv_step sd_flag_kept sd_no_new_handle, blast intro: sd_flag_kept,
    blast intro: sd_no_new_handle, simp add: sd_inv_def shared_inv_def)

subsection \<open>Progress\<close>

text \<open>The rule the callers have to keep: \<^verbatim>\<open>start\<close> is not called from inside an observer callback.\<close>

definition start_outside_callbacks :: "shutdown \<Rightarrow> bool" where
  "start_outside_callbacks s \<longleftrightarrow> (\<forall>t. sd_pc s t = Starting \<longrightarrow> guards s t = [])"

text \<open>The thread that joins waits for the worker only, and the worker for callbacks that return.\<close>

lemma join_not_stuck:
  assumes "sd_inv s" "sd_pc s t = Joining" "\<forall>u. guards s u = []" "sd_pc s 0 = Idle"
  shows "\<exists>l s'. sd_progress l \<and> sd_step s l s'"
proof -
  have i: "thread_inv s t" "shared_inv s"
    using assms(1) by (simp_all add: sd_inv_def)
  then have r: "sd_stop_requested s" "sd_worker s \<noteq> NoThread"
    using assms(2) by (auto simp: thread_inv_def shared_inv_def holds_stop_mutex_def)
  have f: "worker_free s"
    using assms(3,4) by (simp add: worker_free_def)
  show ?thesis
  proof (cases "sd_worker s")
    case Working
    then show ?thesis
      using sd_step.exit [OF Working f r(1)] sd_progress.simps by blast
  next
    case (InSdkCall W)
    then show ?thesis
      using sd_step.return [OF InSdkCall f] assms(3) sd_progress.simps by blast
  next
    case Returned
    then show ?thesis
      using sd_step.join [OF assms(2) Returned] sd_progress.simps by blast
  qed (use r(2) in simp)
qed

lemma busy_not_stuck:
  assumes i: "sd_inv s" and t: "sd_pc s t \<noteq> Idle" and c: "start_outside_callbacks s"
  shows "\<exists>l s'. sd_progress l \<and> sd_step s l s'"
proof (rule ccontr)
  assume no: "\<nexists>l s'. sd_progress l \<and> sd_step s l s'"
  have inv: "thread_inv s u" for u
    using i by (simp add: sd_inv_def)
  have pc: "sd_pc s u \<noteq> Requested" "sd_pc s u \<noteq> Locked" for u
    using no sd_step.guard [of s u] sd_step.check [of s u] sd_progress.simps by blast+
  have g: "guards s u = []" for u
  proof (rule ccontr)
    assume "guards s u \<noteq> []"
    with inv [of u] pc [of u] c have "sd_pc s u = Idle"
      by (cases "sd_pc s u") (auto simp: thread_inv_def holds_stop_mutex_def start_outside_callbacks_def)
    then show False
      using no sd_step.leave [of s u] \<open>guards s u \<noteq> []\<close> sd_progress.simps by blast
  qed
  have w: "sd_pc s 0 = Idle"
    using inv [of 0] pc [of 0] g [of 0] by (cases "sd_pc s 0") (auto simp: thread_inv_def holds_stop_mutex_def)
  show False
  proof (cases "sd_stop_mutex s")
    case None
    then have "sd_pc s t \<noteq> Joining"
      using inv [of t] by (auto simp: thread_inv_def holds_stop_mutex_def)
    then show False
      using t pc [of t] no None sd_step.started [of s t] sd_step.lock [of s t] sd_progress.simps
      by (cases "sd_pc s t") blast+
  next
    case (Some u)
    then have "sd_pc s u = Joining"
      using inv [of u] pc [of u] by (auto simp: thread_inv_def holds_stop_mutex_def)
    then show False
      using join_not_stuck [OF i _ _ w, of u] g no by blast
  qed
qed

text \<open>
  How far the threads below a bound are from having returned. Every step that begins nothing new lowers it.
\<close>

fun pc_weight :: "stop_pc \<Rightarrow> nat" where
  "pc_weight Idle = 0"
| "pc_weight Starting = 1"
| "pc_weight Joining = 1"
| "pc_weight Locked = 2"
| "pc_weight Locking = 3"
| "pc_weight Requested = 4"

fun worker_weight :: "owned \<Rightarrow> nat" where
  "worker_weight Returned = 0"
| "worker_weight Working = 1"
| "worker_weight (InSdkCall W) = 2"
| "worker_weight NoThread = 3"

definition thread_weight :: "shutdown \<Rightarrow> nat \<Rightarrow> nat" where
  "thread_weight s t = pc_weight (sd_pc s t) + length (guards s t)"

definition sd_weight :: "nat \<Rightarrow> shutdown \<Rightarrow> nat" where
  "sd_weight n s = (\<Sum>t<n. thread_weight s t) + worker_weight (sd_worker s)"

definition threads_below :: "nat \<Rightarrow> shutdown \<Rightarrow> bool" where
  "threads_below n s \<longleftrightarrow> (\<forall>t \<ge> n. sd_pc s t = Idle \<and> guards s t = [])"

lemma sd_weight_own:
  assumes "threads_below n s" "sd_pc s t \<noteq> Idle \<or> guards s t \<noteq> []"
    and "\<And>u. u \<noteq> t \<Longrightarrow> sd_pc s' u = sd_pc s u \<and> guards s' u = guards s u"
    and "thread_weight s' t < thread_weight s t" "worker_weight (sd_worker s') \<le> worker_weight (sd_worker s)"
  shows "sd_weight n s' < sd_weight n s \<and> threads_below n s'"
proof
  have t: "t < n"
    using assms(1,2) by (meson leI threads_below_def)
  have "(\<Sum>u<n. thread_weight s' u) < (\<Sum>u<n. thread_weight s u)"
    using t assms(3,4) by (intro sum_lowered) (auto simp: thread_weight_def)
  then show "sd_weight n s' < sd_weight n s"
    using assms(5) by (simp add: sd_weight_def)
  show "threads_below n s'"
    using assms(1,3) t by (metis linorder_not_less threads_below_def)
qed

lemma sd_weight_worker:
  "worker_weight w < worker_weight (sd_worker s) \<Longrightarrow>
    sd_weight n (s\<lparr>sd_worker := w\<rparr>) < sd_weight n s \<and> threads_below n (s\<lparr>sd_worker := w\<rparr>) = threads_below n s"
  by (simp add: sd_weight_def thread_weight_def threads_below_def)

lemma sd_progress_weight:
  assumes st: "sd_step s l s'" and p: "sd_progress l" and i: "sd_inv s" and n: "threads_below n s"
  shows "sd_weight n s' < sd_weight n s \<and> threads_below n s'"
  using st
proof cases
  case (leave t)
  then show ?thesis
    by (intro sd_weight_own [OF n, of t]) (simp_all add: sd_defs thread_weight_def)
next
  case (started t)
  have "sd_worker s = NoThread" if "\<not> sd_joinable s" "\<not> sd_stop_requested s"
    using i that by (auto simp: sd_inv_def shared_inv_def worker_gone_def)
  with started show ?thesis
    by (intro sd_weight_own [OF n, of t]) (simp_all add: sd_defs thread_weight_def)
next
  case (guard t)
  then show ?thesis
    by (intro sd_weight_own [OF n, of t]) (simp_all add: sd_defs thread_weight_def)
next
  case (lock t)
  then show ?thesis
    by (intro sd_weight_own [OF n, of t]) (simp_all add: sd_defs thread_weight_def)
next
  case (check t)
  then show ?thesis
    by (cases "sd_joinable s \<and> t \<noteq> 0"; intro sd_weight_own [OF n, of t]) (auto simp add: sd_defs thread_weight_def)
next
  case (join t)
  then show ?thesis
    by (intro sd_weight_own [OF n, of t]) (simp_all add: sd_defs thread_weight_def)
qed (use p n in \<open>simp_all add: sd_weight_worker\<close>)

lemma start_outside_kept: "sd_step s l s' \<Longrightarrow> sd_progress l \<Longrightarrow> start_outside_callbacks s \<Longrightarrow> start_outside_callbacks s'"
  by (erule sd_stepE) (auto simp: sd_defs start_outside_callbacks_def split: if_splits)

text \<open>A caller has not returned.\<close>

definition sd_busy :: "shutdown \<Rightarrow> bool" where
  "sd_busy s \<longleftrightarrow> (\<exists>t. sd_pc s t \<noteq> Idle)"

interpretation callers: progress_system sd_step
  "\<lambda>s. sd_inv s \<and> threads_below n s \<and> start_outside_callbacks s" sd_progress "sd_weight n" sd_busy for n
proof
  fix s l t
  assume s: "sd_inv s \<and> threads_below n s \<and> start_outside_callbacks s"
  show "\<exists>l t. sd_progress l \<and> sd_step s l t" if "sd_busy s"
    using that busy_not_stuck s unfolding sd_busy_def by blast
  assume "sd_step s l t" "sd_progress l"
  with s show "sd_inv t \<and> threads_below n t \<and> start_outside_callbacks t" "sd_weight n t < sd_weight n s"
    using sd_progress_weight sd_inv_step start_outside_kept by blast+
qed

subsection \<open>Examples\<close>

text \<open>Thread 1 starts the worker, which enters an SDK call that waits for a callback on thread 2; thread 1 then stops.\<close>

definition ex_call :: shutdown where
  "ex_call = enter_callback 2 ((start_section 1 (at_pc 1 Starting new_shutdown))\<lparr>sd_worker := InSdkCall {2}\<rparr>)"

definition ex_joining :: shutdown where
  "ex_joining = stop_check 1 (stop_lock 1 (stop_guard 1 (stop_request 1 ex_call)))"

lemmas ex_step_defs = sd_defs may_call_def exists_thread_def worker_free_def new_shutdown_def

lemma ex_call_simps [simp]:
  "sd_stop_requested ex_call = False" "sd_joinable ex_call = True" "sd_worker ex_call = InSdkCall {2}"
  "sd_stop_mutex ex_call = None" "in_observer_callback ex_call t = (t = 2)"
  "guards ex_call t = (if t = 2 then [False] else [])" "sd_pc ex_call t = Idle" "joins ex_call = 0"
  by (simp_all add: ex_call_def sd_defs new_shutdown_def)

lemma ex_joining_simps [simp]:
  "sd_stop_requested ex_joining = True" "sd_joinable ex_joining = True" "sd_worker ex_joining = InSdkCall {2}"
  "sd_stop_mutex ex_joining = Some 1" "guards ex_joining t = (if t = 2 then [False] else [])"
  "sd_pc ex_joining t = (if t = 1 then Joining else Idle)"
  by (simp_all add: ex_joining_def sd_defs)

lemma reach_ex_call: "reach sd_start sd_step ex_call"
proof -
  have "run sd_step new_shutdown [StartCall 1, StartSection 1, SdkCall {2}, EnterCallback 2] ex_call"
    unfolding ex_call_def
    by ((rule run_cons, rule sd_step.intros, (simp add: ex_step_defs; fail)+) | rule run_nil)+
  then show ?thesis
    by (rule reach_run) (simp add: reach_start sd_start_def)
qed

lemma reach_ex_joining: "reach sd_start sd_step ex_joining"
proof -
  have "run sd_step ex_call [StopRequested 1, StopGuard 1, StopLock 1, StopCheck 1] ex_joining"
    unfolding ex_joining_def
    by ((rule run_cons, rule sd_step.intros, (simp add: ex_step_defs; fail)+) | rule run_nil)+
  then show ?thesis
    using reach_ex_call by (rule reach_run)
qed

section \<open>Properties\<close>

text \<open>
  C23. As long as no observer callback calls \<^verbatim>\<open>start\<close>, every caller returns: of \<^verbatim>\<open>start\<close> on a plain thread, and of
  \<^verbatim>\<open>stop\<close> on a plain thread or in an observer callback on any thread. From a reachable state in which no callback is inside
  \<^verbatim>\<open>start\<close> (without that, two callers can wait for ever), a schedule that begins no new call or
  callback has at most \<open>sd_weight n s\<close> steps, and as long as some caller has not returned it can be continued:
  the thread that joins, the worker inside an SDK call that waits for callbacks, and the callbacks that call
  \<^verbatim>\<open>stop\<close> never wait for each other in a circle.
\<close>

theorem stop_always_returns:
  assumes "reach sd_start sd_step s" "threads_below n s" "start_outside_callbacks s"
  shows "(\<exists>ls s'. run sd_step s ls s' \<and> list_all sd_progress ls \<and> \<not> sd_busy s') \<and>
    (\<forall>ls s'. run sd_step s ls s' \<and> list_all sd_progress ls \<longrightarrow>
       length ls \<le> sd_weight n s \<and> (\<not> sd_busy s' \<or> (\<exists>l s''. sd_progress l \<and> sd_step s' l s'')))"
  by (rule callers.drains) (simp add: assms sd.inv_reach)

theorem stop_always_returns_witness:
  "\<exists>ls s'. run sd_step ex_joining ls s' \<and> list_all sd_progress ls \<and> \<not> sd_busy s'"
  using stop_always_returns [OF reach_ex_joining, of 3]
  by (simp add: threads_below_def start_outside_callbacks_def)

lemma joins_once: "sd_inv s \<Longrightarrow> joins s \<le> Suc 0"
  by (simp add: sd_inv_def shared_inv_def)

lemma stop_mutex_holder: "sd_inv s \<Longrightarrow> holds_stop_mutex (sd_pc s t) \<longleftrightarrow> sd_stop_mutex s = Some t"
  by (simp add: sd_inv_def thread_inv_def)

lemma stop_returned:
  assumes "sd_inv s" "sd_step s l s'" "l \<in> {StopCheck t, StopJoin t}" "sd_pc s' t = Idle"
  shows "sd_stop_requested s' \<and> \<not> sd_joinable s'"
proof -
  have i: "thread_inv s t"
    using assms(1) by (simp add: sd_inv_def)
  show ?thesis
    using assms(2)
  proof cases
    case (check u)
    with i assms(3,4) show ?thesis
      by (cases "sd_joinable s \<and> t \<noteq> 0") (simp_all add: sd_defs thread_inv_def holds_stop_mutex_def)
  next
    case (join u)
    with i assms(3) show ?thesis
      by (simp add: sd_defs thread_inv_def holds_stop_mutex_def)
  qed (use assms(3) in simp_all)
qed

text \<open>
  C24. When \<^verbatim>\<open>stop\<close> returns to a plain thread, the worker has ended or never existed, and it stays so whatever any thread
  does later: no new worker is started, the handle is not joinable, and it was joined at most once over all concurrent
  calls of \<^verbatim>\<open>stop\<close>. So the destructor, which deinitialises the SDK after \<^verbatim>\<open>stop\<close>, finds no worker inside an SDK call.
\<close>

theorem stop_leaves_no_worker:
  assumes "reach sd_start sd_step s" "sd_step s l s'" "l \<in> {StopCheck t, StopJoin t}" "sd_pc s' t = Idle"
    and "run sd_step s' ls s''"
  shows "worker_gone s'' \<and> \<not> sd_joinable s'' \<and> sd_stop_requested s'' \<and> joins s'' \<le> 1"
proof -
  have i: "sd_inv s" "sd_inv s'"
    using assms(1) reach_step [OF assms(1,2)] by (simp_all add: sd.inv_reach)
  have "sd_stop_requested s' \<and> \<not> sd_joinable s'"
    using stop_returned [OF i(1) assms(2,3,4)] .
  with worker.gone_for_good [OF assms(5) i(2)] show ?thesis
    by (simp add: joins_once)
qed

definition ex_joined :: shutdown where
  "ex_joined = stop_join 1 ((leave_callback 2 ex_joining)\<lparr>sd_worker := Returned\<rparr>)"

theorem stop_leaves_no_worker_witness: "worker_gone ex_joined \<and> \<not> sd_joinable ex_joined \<and> joins ex_joined = 1"
proof -
  let ?s = "leave_callback 2 ex_joining"
  let ?e = "?s\<lparr>sd_worker := Returned\<rparr>"
  have "run sd_step ex_joining [LeaveCallback 2, SdkReturn, WorkerReturn] (?s\<lparr>sd_worker := Working, sd_worker := Returned\<rparr>)"
    by ((rule run_cons, rule sd_step.intros, (simp add: ex_step_defs; fail)+) | rule run_nil)+
  then have "reach sd_start sd_step ?e"
    using reach_run [OF _ reach_ex_joining] by simp
  moreover have "sd_step ?e (StopJoin 1) ex_joined"
    unfolding ex_joined_def by (intro sd_step.intros) (simp_all add: sd_defs)
  moreover have "joins ex_joined = 1" "sd_pc ex_joined 1 = Idle"
    by (simp_all add: ex_joined_def sd_defs) (simp add: ex_joining_def sd_defs)
  ultimately show ?thesis
    using stop_leaves_no_worker [OF _ _ _ _ run_nil, of ?e "StopJoin 1" ex_joined 1] by simp
qed

text \<open>
  Why callbacks may not call \<^verbatim>\<open>start\<close>: it takes the stop mutex without looking at the marker. Thread 2 calls it from the
  callback the worker waits for while thread 1 joins, and neither call ever returns, whatever any thread does.
\<close>

definition start_deadlock :: "shutdown \<Rightarrow> bool" where
  "start_deadlock s \<longleftrightarrow> sd_pc s 1 = Joining \<and> sd_pc s 2 = Starting \<and> guards s 2 \<noteq> [] \<and> sd_worker s = InSdkCall {2} \<and>
     sd_stop_mutex s = Some 1"

lemma start_deadlock_step:
  assumes "sd_step s l s'" "sd_inv s" "start_deadlock s"
  shows "start_deadlock s'"
  using assms(1)
proof cases
  case (check t)
  then show ?thesis
    using stop_mutex_holder [OF assms(2), of t] assms(3) by (auto simp: start_deadlock_def holds_stop_mutex_def)
qed (use assms(3) in \<open>auto simp: start_deadlock_def sd_defs may_call_def\<close>)

lemma start_in_callback_deadlocks:
  "\<exists>s. reach sd_start sd_step s \<and> (\<forall>ls s'. run sd_step s ls s' \<longrightarrow> sd_pc s' 1 = Joining \<and> sd_pc s' 2 = Starting)"
proof (intro exI conjI allI impI)
  let ?s = "at_pc 2 Starting ex_joining"
  have "sd_step ex_joining (StartCall 2) ?s"
    by (intro sd_step.intros) (simp add: may_call_def exists_thread_def)
  then show r: "reach sd_start sd_step ?s"
    by (rule reach_step [OF reach_ex_joining])
  fix ls s' assume "run sd_step ?s ls s'"
  then have "sd_inv ?s \<longrightarrow> start_deadlock ?s \<longrightarrow> start_deadlock s'"
    by (induction rule: run.induct) (auto intro: start_deadlock_step sd_inv_step)
  moreover have "start_deadlock ?s" "sd_inv ?s"
    using r by (simp_all add: start_deadlock_def at_pc_def sd.inv_reach)
  ultimately show "sd_pc s' 1 = Joining" "sd_pc s' 2 = Starting"
    by (simp_all add: start_deadlock_def)
qed

end
