(* ===== verification/Receiver_Shutdown.thy ===== *)
theory Receiver_Shutdown
  imports Owned_Threads Lidar_Receiver
begin

text \<open>
  \<^verbatim>\<open>LidarStreamReceiver::start\<close> and \<^verbatim>\<open>stop\<close> (\<^verbatim>\<open>lidar_stream.cpp\<close>) with the thread handle, as the methods of any
  number of threads that interleave with the receive loop of \<open>Lidar_Receiver\<close>. A section under \<^verbatim>\<open>mutex\<close> is one step;
  the stop mutex is the thread that holds it. Thread 0 is the receive thread, which calls \<^verbatim>\<open>start\<close> and \<^verbatim>\<open>stop\<close> only
  from a callback of its iteration.
\<close>

section \<open>The handle\<close>

datatype join_pc = Outside | External | Joinable | Joins

record rcv_handle =
  h_rcv :: rcv
  h_joinable :: bool
  h_thread_id :: "nat option"
  h_stop_mutex :: "nat option"
  h_pc :: "nat \<Rightarrow> join_pc"
  h_joins :: nat

definition new_handle :: "rcv \<Rightarrow> rcv_handle" where
  "new_handle r = \<lparr>h_rcv = r, h_joinable = False, h_thread_id = None, h_stop_mutex = None, h_pc = (\<lambda>t. Outside),
     h_joins = 0\<rparr>"

definition at_join :: "nat \<Rightarrow> join_pc \<Rightarrow> rcv_handle \<Rightarrow> rcv_handle" where
  "at_join t p h = h\<lparr>h_pc := (h_pc h)(t := p)\<rparr>"

definition handle_start :: "rcv_handle \<Rightarrow> rcv_handle" where
  "handle_start h =
     (if lr_stop_requested (h_rcv h) \<or> lr_start_called (h_rcv h) then h
      else h\<lparr>h_rcv := receiver_start (h_rcv h), h_joinable := True, h_thread_id := Some 0\<rparr>)"

text \<open>The request of \<^verbatim>\<open>stop\<close> and its test for the receive thread, in one section.\<close>

definition handle_request :: "nat \<Rightarrow> rcv_handle \<Rightarrow> rcv_handle" where
  "handle_request t h =
     (let h = h\<lparr>h_rcv := receiver_stop (h_rcv h)\<rparr> in if h_thread_id h = Some t then h else at_join t External h)"

definition handle_lock :: "nat \<Rightarrow> rcv_handle \<Rightarrow> rcv_handle" where
  "handle_lock t h = at_join t Joinable (h\<lparr>h_stop_mutex := Some t\<rparr>)"

definition handle_check :: "nat \<Rightarrow> rcv_handle \<Rightarrow> rcv_handle" where
  "handle_check t h = (if h_joinable h then at_join t Joins h else at_join t Outside (h\<lparr>h_stop_mutex := None\<rparr>))"

definition handle_join :: "nat \<Rightarrow> rcv_handle \<Rightarrow> rcv_handle" where
  "handle_join t h = at_join t Outside (h\<lparr>h_joinable := False, h_joins := h_joins h + 1, h_stop_mutex := None\<rparr>)"

lemmas handle_defs = at_join_def handle_start_def handle_request_def handle_lock_def handle_check_def handle_join_def

section \<open>Runs\<close>

definition caller :: "nat \<Rightarrow> rcv_handle \<Rightarrow> bool" where
  "caller t h \<longleftrightarrow> h_pc h t = Outside \<and> (t = 0 \<longrightarrow> lr_phase (h_rcv h) = Receiving)"

datatype handle_label =
  HStart nat | HRequest nat | HLock nat | HCheck nat | HJoin nat | LoopCheck | LoopIterate "byte list option" time time time

inductive handle_step :: "rcv_handle \<Rightarrow> handle_label \<Rightarrow> rcv_handle \<Rightarrow> bool" where
  start: "caller t h \<Longrightarrow> handle_step h (HStart t) (handle_start h)"
| request: "caller t h \<Longrightarrow> handle_step h (HRequest t) (handle_request t h)"
| lock: "h_pc h t = External \<Longrightarrow> h_stop_mutex h = None \<Longrightarrow> handle_step h (HLock t) (handle_lock t h)"
| check: "h_pc h t = Joinable \<Longrightarrow> handle_step h (HCheck t) (handle_check t h)"
| join: "h_pc h t = Joins \<Longrightarrow> lr_phase (h_rcv h) = Returned \<Longrightarrow> handle_step h (HJoin t) (handle_join t h)"
| loop_check: "lr_phase (h_rcv h) = AtCheck \<Longrightarrow>
     handle_step h LoopCheck (h\<lparr>h_rcv := rcv_next Check (h_rcv h)\<rparr>)"
| loop_iterate: "lr_phase (h_rcv h) = Receiving \<Longrightarrow> readable_times (Iterate got t u v) \<Longrightarrow>
     handle_step h (LoopIterate got t u v) (h\<lparr>h_rcv := rcv_next (Iterate got t u v) (h_rcv h)\<rparr>)"

inductive_cases handle_stepE: "handle_step h l h'"

definition handle_init :: "rcv_handle \<Rightarrow> bool" where
  "handle_init h \<longleftrightarrow> (\<exists>r. rcv_start r \<and> h = new_handle r)"

fun handle_progress :: "handle_label \<Rightarrow> bool" where
  "handle_progress (HStart t) = False"
| "handle_progress (HRequest t) = False"
| "handle_progress _ = True"

text \<open>A run of threads and receive loop is a run of the receiver: what is shown of the receiver holds here.\<close>

lemma handle_step_receiver:
  assumes "handle_step h l h'"
  shows "h_rcv h' = h_rcv h \<or> (\<exists>e. rcv_step (h_rcv h) e (h_rcv h'))"
  using assms
proof cases
  case (start t)
  then have "h_rcv h' = rcv_next StartCall (h_rcv h)"
    by (simp add: handle_start_def receiver_start_def)
  then show ?thesis
    unfolding rcv_step_def by (metis readable_times.simps(2))
next
  case (request t)
  then have "h_rcv h' = rcv_next StopCall (h_rcv h)"
    by (simp add: handle_request_def Let_def at_join_def)
  then show ?thesis
    unfolding rcv_step_def by (metis readable_times.simps(3))
next
  case loop_check
  then show ?thesis
    unfolding rcv_step_def by (metis rcv_handle.select_convs(1) rcv_handle.surjective rcv_handle.update_convs(1) readable_times.simps(4))
next
  case (loop_iterate got t u v)
  then show ?thesis
    unfolding rcv_step_def by (metis rcv_handle.select_convs(1) rcv_handle.surjective rcv_handle.update_convs(1))
qed (simp_all add: handle_defs)

lemma handle_reach_receiver: "reach handle_init handle_step h \<Longrightarrow> reach rcv_start rcv_step (h_rcv h)"
proof (induction rule: reach.induct)
  case (reach_start h)
  then show ?case
    by (auto simp: handle_init_def new_handle_def intro: reach.reach_start)
next
  case (reach_step h l h')
  then show ?case
    using handle_step_receiver [of h l h'] by (metis reach.reach_step)
qed

section \<open>Invariant\<close>

definition owns_stop_mutex :: "join_pc \<Rightarrow> bool" where
  "owns_stop_mutex p \<longleftrightarrow> p = Joinable \<or> p = Joins"

definition caller_inv :: "rcv_handle \<Rightarrow> nat \<Rightarrow> bool" where
  "caller_inv h t \<longleftrightarrow> (owns_stop_mutex (h_pc h t) \<longleftrightarrow> h_stop_mutex h = Some t) \<and>
     (h_pc h t \<noteq> Outside \<longrightarrow> lr_stop_requested (h_rcv h) \<and> t \<noteq> 0) \<and> (h_pc h t = Joins \<longrightarrow> h_joinable h)"

definition thread_live :: "rcv_handle \<Rightarrow> bool" where
  "thread_live h \<longleftrightarrow> lr_phase (h_rcv h) = AtCheck \<or> lr_phase (h_rcv h) = Receiving"

definition handle_shared :: "rcv_handle \<Rightarrow> bool" where
  "handle_shared h \<longleftrightarrow> h_thread_id h = (if lr_start_called (h_rcv h) then Some 0 else None) \<and>
     (lr_phase (h_rcv h) = NoThread \<longleftrightarrow> \<not> lr_start_called (h_rcv h)) \<and>
     (h_joinable h \<longrightarrow> lr_start_called (h_rcv h)) \<and> (thread_live h \<longrightarrow> h_joinable h) \<and>
     h_joins h = (if lr_start_called (h_rcv h) \<and> \<not> h_joinable h then 1 else 0)"

definition handle_inv :: "rcv_handle \<Rightarrow> bool" where
  "handle_inv h \<longleftrightarrow> (\<forall>t. caller_inv h t) \<and> handle_shared h"

lemma handle_inv_init: "handle_init h \<Longrightarrow> handle_inv h"
  by (auto simp: handle_init_def new_handle_def rcv_start_def LidarStreamReceiver_def handle_inv_def caller_inv_def
      handle_shared_def thread_live_def owns_stop_mutex_def)

lemma handle_invD: "handle_inv h \<Longrightarrow> caller_inv h t" "handle_inv h \<Longrightarrow> handle_shared h"
  by (simp_all add: handle_inv_def)

lemmas handle_inv_defs = caller_inv_def handle_shared_def thread_live_def owns_stop_mutex_def

text \<open>A step of one thread: its own invariant, the shared one, and what it leaves alone.\<close>

lemma handle_inv_own:
  assumes i: "handle_inv h" and own: "caller_inv h t \<Longrightarrow> handle_shared h \<Longrightarrow> caller_inv h' t \<and> handle_shared h'"
    and frame: "\<And>u. caller_inv h t \<Longrightarrow> u \<noteq> t \<Longrightarrow> h_pc h' u = h_pc h u \<and> (h_stop_mutex h' = Some u \<longleftrightarrow> h_stop_mutex h = Some u)"
    and mono: "lr_stop_requested (h_rcv h) \<Longrightarrow> lr_stop_requested (h_rcv h')"
      "caller_inv h t \<Longrightarrow> h_joinable h \<Longrightarrow> h_joinable h' \<or> h_stop_mutex h = Some t"
  shows "handle_inv h'"
proof -
  have "caller_inv h' u" if "u \<noteq> t" for u
    using handle_invD(1) [OF i, of u] handle_invD(1) [OF i, of t] frame [OF _ that] mono that
    by (auto simp: caller_inv_def owns_stop_mutex_def)
  then show ?thesis
    using own handle_invD [OF i] unfolding handle_inv_def by metis
qed

lemma handle_inv_request: "handle_inv h \<Longrightarrow> caller t h \<Longrightarrow> handle_inv (handle_request t h)"
  by (cases "h_thread_id h = Some t"; erule handle_inv_own [where t = t])
    (auto simp: handle_inv_defs handle_defs caller_def receiver_stop_def Let_def split: if_splits)

lemma handle_inv_start: "handle_inv h \<Longrightarrow> handle_inv (handle_start h)"
  by (erule handle_inv_own [where t = 0]) (auto simp: handle_inv_defs handle_defs receiver_start_def)

lemma handle_inv_lock: "handle_inv h \<Longrightarrow> h_pc h t = External \<Longrightarrow> h_stop_mutex h = None \<Longrightarrow> handle_inv (handle_lock t h)"
  by (erule handle_inv_own [where t = t]) (simp_all add: handle_inv_defs handle_defs)

lemma handle_inv_check: "handle_inv h \<Longrightarrow> h_pc h t = Joinable \<Longrightarrow> handle_inv (handle_check t h)"
  by (erule handle_inv_own [where t = t]) (auto simp add: handle_inv_defs handle_defs)

lemma handle_inv_join:
  "handle_inv h \<Longrightarrow> h_pc h t = Joins \<Longrightarrow> lr_phase (h_rcv h) = Returned \<Longrightarrow> handle_inv (handle_join t h)"
  by (erule handle_inv_own [where t = t]) (auto simp add: handle_inv_defs handle_defs)

lemma handle_inv_loop:
  "handle_inv h \<Longrightarrow> lr_phase (h_rcv h) = AtCheck \<Longrightarrow> handle_inv (h\<lparr>h_rcv := rcv_next Check (h_rcv h)\<rparr>)"
  "handle_inv h \<Longrightarrow> lr_phase (h_rcv h) = Receiving \<Longrightarrow> handle_inv (h\<lparr>h_rcv := rcv_next (Iterate got x u v) (h_rcv h)\<rparr>)"
  by (erule handle_inv_own [where t = 0]; auto simp: handle_inv_defs loop_check_def)+

lemma handle_inv_step:
  assumes "handle_inv h" "handle_step h l h'"
  shows "handle_inv h'"
  using assms(2)
  by cases (use assms(1) in \<open>simp_all only: handle_inv_start handle_inv_request handle_inv_lock handle_inv_check
    handle_inv_join handle_inv_loop\<close>)

interpretation handle: invariant_system handle_init handle_step handle_inv
  by unfold_locales (auto intro: handle_inv_init handle_inv_step)

lemma handle_flag_kept: "handle_step h l h' \<Longrightarrow> lr_stop_requested (h_rcv h) \<Longrightarrow> lr_stop_requested (h_rcv h')"
  by (erule handle_stepE) (simp_all add: handle_defs Let_def receiver_start_def receiver_stop_def loop_check_def)

lemma handle_not_new: "handle_step h l h' \<Longrightarrow> lr_stop_requested (h_rcv h) \<Longrightarrow> h_joinable h' \<Longrightarrow> h_joinable h"
  by (erule handle_stepE) (simp_all add: handle_defs Let_def split: if_splits)

interpretation receive_thread: owned_thread handle_step handle_inv "\<lambda>h. lr_stop_requested (h_rcv h)" h_joinable
  thread_live
  by unfold_locales (blast intro: handle_inv_step, blast intro: handle_flag_kept, blast intro: handle_not_new,
    simp add: handle_inv_def handle_shared_def)

text \<open>
  While a thread inspects or joins the handle it is the only one, it is not the receive thread, and \<^verbatim>\<open>start\<close>, which
  writes the handle under the other mutex, leaves everything alone.
\<close>

lemma handle_exclusive:
  assumes "handle_inv h" "owns_stop_mutex (h_pc h t)"
  shows "t \<noteq> 0 \<and> handle_start h = h \<and> (owns_stop_mutex (h_pc h u) \<longleftrightarrow> u = t)"
  using handle_invD(1) [OF assms(1), of t] handle_invD(1) [OF assms(1), of u] assms(2)
  by (auto simp: caller_inv_def handle_start_def owns_stop_mutex_def)

section \<open>Progress\<close>

fun join_weight :: "join_pc \<Rightarrow> nat" where
  "join_weight Outside = 0"
| "join_weight Joins = 1"
| "join_weight Joinable = 2"
| "join_weight External = 3"

fun phase_weight :: "loop_phase \<Rightarrow> nat" where
  "phase_weight Receiving = 2"
| "phase_weight AtCheck = 1"
| "phase_weight _ = 0"

definition handle_weight :: "nat \<Rightarrow> rcv_handle \<Rightarrow> nat" where
  "handle_weight n h = (\<Sum>t<n. join_weight (h_pc h t)) + phase_weight (lr_phase (h_rcv h))"

definition callers_below :: "nat \<Rightarrow> rcv_handle \<Rightarrow> bool" where
  "callers_below n h \<longleftrightarrow> (\<forall>t \<ge> n. h_pc h t = Outside)"

definition handle_busy :: "rcv_handle \<Rightarrow> bool" where
  "handle_busy h \<longleftrightarrow> (\<exists>t. h_pc h t \<noteq> Outside)"

lemma handle_weight_own:
  assumes "callers_below n h" "h_pc h t \<noteq> Outside" "\<And>u. u \<noteq> t \<Longrightarrow> h_pc h' u = h_pc h u"
    and "join_weight (h_pc h' t) < join_weight (h_pc h t)" "h_rcv h' = h_rcv h"
  shows "handle_weight n h' < handle_weight n h \<and> callers_below n h'"
proof
  have t: "t < n"
    using assms(1,2) by (meson leI callers_below_def)
  then have "(\<Sum>u<n. join_weight (h_pc h' u)) < (\<Sum>u<n. join_weight (h_pc h u))"
    using assms(3,4) by (intro sum_lowered) auto
  then show "handle_weight n h' < handle_weight n h"
    using assms(5) by (simp add: handle_weight_def)
  show "callers_below n h'"
    using assms(1,3) t by (metis linorder_not_less callers_below_def)
qed

lemma handle_progress_weight:
  assumes "handle_step h l h'" "handle_progress l" "lr_stop_requested (h_rcv h)" "callers_below n h"
  shows "handle_weight n h' < handle_weight n h \<and> callers_below n h'"
  using assms(1)
proof cases
  case (lock t)
  then show ?thesis
    by (intro handle_weight_own [OF assms(4), of t]) (simp_all add: handle_defs)
next
  case (check t)
  then show ?thesis
    by (cases "h_joinable h"; intro handle_weight_own [OF assms(4), of t]) (auto simp: handle_defs)
next
  case (join t)
  then show ?thesis
    by (intro handle_weight_own [OF assms(4), of t]) (simp_all add: handle_defs)
qed (use assms(2-4) in \<open>simp_all add: handle_weight_def callers_below_def loop_check_def\<close>)

lemma handle_not_stuck:
  assumes i: "handle_inv h" and s: "lr_stop_requested (h_rcv h)" and t: "h_pc h t \<noteq> Outside"
  shows "\<exists>l h'. handle_progress l \<and> handle_step h l h'"
proof (cases "h_stop_mutex h")
  case None
  then have "h_pc h t = External"
    using handle_invD(1) [OF i, of t] t by (cases "h_pc h t") (auto simp: caller_inv_def owns_stop_mutex_def)
  then show ?thesis
    using handle_step.lock [OF _ None] handle_progress.simps by blast
next
  case (Some u)
  then consider "h_pc h u = Joinable" | "h_pc h u = Joins" "h_joinable h"
    using handle_invD(1) [OF i, of u] by (auto simp: caller_inv_def owns_stop_mutex_def)
  then show ?thesis
  proof cases
    case 1
    then show ?thesis
      using handle_step.check handle_progress.simps by blast
  next
    case 2
    then have "lr_phase (h_rcv h) \<noteq> NoThread"
      using handle_invD(2) [OF i] by (simp add: handle_shared_def)
    then consider "lr_phase (h_rcv h) = Returned" | "lr_phase (h_rcv h) = AtCheck" | "lr_phase (h_rcv h) = Receiving"
      by (cases "lr_phase (h_rcv h)") simp_all
    then show ?thesis
    proof cases
      case 3
      moreover have "readable_times (Iterate None 0 0 0)"
        by (simp add: time_point_max_def)
      ultimately show ?thesis
        using handle_step.loop_iterate handle_progress.simps by blast
    qed (use handle_step.join [OF 2(1)] handle_step.loop_check handle_progress.simps in blast)+
  qed
qed

interpretation stoppers: progress_system handle_step
  "\<lambda>h. handle_inv h \<and> callers_below n h \<and> lr_stop_requested (h_rcv h)" handle_progress "handle_weight n" handle_busy for n
proof
  fix h l h'
  assume h: "handle_inv h \<and> callers_below n h \<and> lr_stop_requested (h_rcv h)"
  show "\<exists>l t. handle_progress l \<and> handle_step h l t" if "handle_busy h"
    using that handle_not_stuck h unfolding handle_busy_def by blast
  assume "handle_step h l h'" "handle_progress l"
  with h show "handle_inv h' \<and> callers_below n h' \<and> lr_stop_requested (h_rcv h')" "handle_weight n h' < handle_weight n h"
    using handle_progress_weight handle_inv_step handle_flag_kept by blast+
qed

section \<open>Properties\<close>

lemma handle_stop_returned:
  assumes "handle_inv h" "handle_step h l h'" "l \<in> {HCheck t, HJoin t}" "h_pc h' t = Outside"
  shows "lr_stop_requested (h_rcv h') \<and> \<not> h_joinable h'"
  using assms(2)
proof cases
  case (check u)
  with handle_invD(1) [OF assms(1), of t] assms(3,4) show ?thesis
    by (cases "h_joinable h") (simp_all add: handle_defs caller_inv_def)
next
  case (join u)
  with handle_invD(1) [OF assms(1), of t] assms(3) show ?thesis
    by (simp add: handle_defs caller_inv_def)
qed (use assms(3) in simp_all)

text \<open>
  C25. When \<^verbatim>\<open>stop\<close> of a receiver returns to a thread other than the receive thread, the receive thread has returned or
  was never started, and it stays so whatever any thread does later, calls of \<^verbatim>\<open>start\<close> included. A thread that was started has been joined exactly once, by none of its own callbacks.
\<close>

theorem receiver_stop_leaves_no_thread:
  assumes "reach handle_init handle_step h" "handle_step h l h'" "l \<in> {HCheck t, HJoin t}" "h_pc h' t = Outside"
    and "run handle_step h' ls h''"
  shows "t \<noteq> 0 \<and> \<not> thread_live h'' \<and> \<not> h_joinable h'' \<and>
    h_joins h'' = (if lr_start_called (h_rcv h'') then 1 else 0)"
proof -
  have i: "handle_inv h" "handle_inv h'"
    using assms(1) reach_step [OF assms(1,2)] by (simp_all add: handle.inv_reach)
  have "owns_stop_mutex (h_pc h t)"
    using assms(2,3) by (auto simp: owns_stop_mutex_def elim: handle_stepE)
  then have "t \<noteq> 0"
    using handle_exclusive [OF i(1)] by blast
  moreover have "lr_stop_requested (h_rcv h') \<and> \<not> h_joinable h'"
    using handle_stop_returned [OF i(1) assms(2,3,4)] .
  ultimately show ?thesis
    using receive_thread.gone_for_good [OF assms(5) i(2)] by (simp add: handle_inv_def handle_shared_def)
qed

text \<open>
  Every call of \<^verbatim>\<open>stop\<close> of a receiver returns, from any number of threads and from the callbacks of the receive
  thread alike: once a stop was requested, a schedule that begins no new call has at most \<open>handle_weight n h\<close> steps, and as long as
  some caller has not returned it can be continued.
\<close>

theorem receiver_stop_always_returns:
  assumes "reach handle_init handle_step h" "callers_below n h" "lr_stop_requested (h_rcv h)"
  shows "(\<exists>ls h'. run handle_step h ls h' \<and> list_all handle_progress ls \<and> \<not> handle_busy h') \<and>
    (\<forall>ls h'. run handle_step h ls h' \<and> list_all handle_progress ls \<longrightarrow>
       length ls \<le> handle_weight n h \<and> (\<not> handle_busy h' \<or> (\<exists>l h''. handle_progress l \<and> handle_step h' l h'')))"
  by (rule stoppers.drains) (simp add: assms handle.inv_reach)

section \<open>Witnesses\<close>

text \<open>Thread 1 starts the receiver and stops it while the loop is at its check.\<close>

definition ex_handle :: rcv_handle where
  "ex_handle = handle_check 1 (handle_lock 1 (handle_request 1 (handle_start (new_handle ex_rcv))))"

definition ex_handle_done :: rcv_handle where
  "ex_handle_done = ex_handle\<lparr>h_rcv := rcv_next Check (h_rcv ex_handle)\<rparr>"

lemmas ex_handle_eval = handle_defs caller_def new_handle_def ex_rcv_def LidarStreamReceiver_def receiver_start_def
  receiver_stop_def loop_check_def Let_def

lemma reach_ex_handle: "reach handle_init handle_step ex_handle"
proof (rule reach_run)
  show "reach handle_init handle_step (new_handle ex_rcv)"
    by (rule reach_start) (unfold handle_init_def rcv_start_def ex_rcv_def, blast)
  show "run handle_step (new_handle ex_rcv) [HStart 1, HRequest 1, HLock 1, HCheck 1] ex_handle"
    unfolding ex_handle_def
    by ((rule run_cons, rule handle_step.intros, (simp add: ex_handle_eval; fail)+) | rule run_nil)+
qed

lemma ex_handle_simps:
  "lr_phase (h_rcv ex_handle) = AtCheck" "lr_stop_requested (h_rcv ex_handle)" "lr_start_called (h_rcv ex_handle)"
  "h_pc ex_handle t = (if t = 1 then Joins else Outside)"
  by (simp_all add: ex_handle_def ex_handle_eval)

theorem receiver_stop_leaves_no_thread_witness:
  "\<not> thread_live (handle_join 1 ex_handle_done) \<and> h_joins (handle_join 1 ex_handle_done) = 1"
proof -
  let ?h = "handle_join 1 ex_handle_done"
  have "handle_step ex_handle LoopCheck ex_handle_done"
    unfolding ex_handle_done_def by (rule handle_step.loop_check) (simp add: ex_handle_simps)
  then have "reach handle_init handle_step ex_handle_done"
    using reach_ex_handle by (rule reach_step [rotated])
  moreover have "handle_step ex_handle_done (HJoin 1) ?h"
    by (rule handle_step.join) (simp_all add: ex_handle_done_def ex_handle_simps loop_check_def)
  moreover have "lr_start_called (h_rcv ?h)" "h_pc ?h 1 = Outside"
    by (simp_all add: handle_join_def at_join_def ex_handle_done_def ex_handle_simps loop_check_def)
  ultimately show ?thesis
    using receiver_stop_leaves_no_thread [of ex_handle_done "HJoin 1" ?h 1, OF _ _ _ _ run_nil] by simp
qed

theorem receiver_stop_always_returns_witness:
  "\<exists>ls h'. run handle_step ex_handle ls h' \<and> list_all handle_progress ls \<and> \<not> handle_busy h'"
  using receiver_stop_always_returns [OF reach_ex_handle, of 2] by (simp add: callers_below_def ex_handle_simps)

end
