(* ===== verification/Callback_Context.thy ===== *)
theory Callback_Context
  imports Bridge_Prelude
begin

text \<open>
  How a thread knows that it is inside a callback of an adapter (\<^verbatim>\<open>direct_astrall_sdk.cpp\<close>): the thread-local marker
  \<^verbatim>\<open>t_active_impl\<close> with its scope guard, the thread-local stack \<^verbatim>\<open>t_vendor_frames\<close> with its own, and the test
  \<^verbatim>\<open>in_callback_context\<close> with which every public method begins, \<^verbatim>\<open>deinit\<close> included. Any number of adapters, named by numbers,
  call each other on one thread: a project callback may call public methods of any adapter, and the library may run project
  callbacks inside a vendor call, inside a vendor deinit, or on an empty stack, a thread of its own. The calls that are
  open, with the value each guard saved, are ghost state: the stack of the thread, innermost first. The vendor deinit runs
  under the teardown and the lifecycle mutex of its adapter and leaves no thread-local record. A thread that locks a mutex
  it holds, or waits for a callback on its own stack, waits for ever: it is stuck on that adapter.
\<close>

section \<open>The thread-local state\<close>

datatype frame = VendorCall nat | VendorDeinit nat | ProjectCallback nat "nat option"

record ctx =
  t_active_impl :: "nat option"
  t_vendor_frames :: "nat list"
  call_stack :: "frame list"
  stuck :: "nat option"

definition new_thread :: ctx where
  "new_thread = \<lparr>t_active_impl = None, t_vendor_frames = [], call_stack = [], stuck = None\<rparr>"

definition in_vendor_frames :: "nat \<Rightarrow> ctx \<Rightarrow> bool" where
  "in_vendor_frames a c \<longleftrightarrow> a \<in> set (t_vendor_frames c)"

definition in_callback_context :: "nat \<Rightarrow> ctx \<Rightarrow> bool" where
  "in_callback_context a c \<longleftrightarrow> t_active_impl c = Some a \<or> in_vendor_frames a c"

fun callback_of :: "nat \<Rightarrow> frame \<Rightarrow> bool" where
  "callback_of a (ProjectCallback b p) \<longleftrightarrow> b = a"
| "callback_of a f \<longleftrightarrow> False"

text \<open>
  The wait of the teardown for the callbacks in flight: those of other threads end, one on the stack of this thread
  does not.
\<close>

definition wait_drained :: "nat \<Rightarrow> ctx \<Rightarrow> ctx" where
  "wait_drained a c = (if list_ex (callback_of a) (call_stack c) then c\<lparr>stuck := Some a\<rparr> else c)"

text \<open>The constructors of \<^verbatim>\<open>CallbackScopeGuard\<close> and \<^verbatim>\<open>VendorCallScope\<close>, and the end of the innermost call.\<close>

definition callback_scope :: "nat \<Rightarrow> ctx \<Rightarrow> ctx" where
  "callback_scope a c = c\<lparr>t_active_impl := Some a, call_stack := ProjectCallback a (t_active_impl c) # call_stack c\<rparr>"

definition vendor_scope :: "nat \<Rightarrow> ctx \<Rightarrow> ctx" where
  "vendor_scope a c = c\<lparr>t_vendor_frames := t_vendor_frames c @ [a], call_stack := VendorCall a # call_stack c\<rparr>"

definition leave_scope :: "ctx \<Rightarrow> ctx" where
  "leave_scope c = (case call_stack c of
       [] \<Rightarrow> c
     | ProjectCallback a previous # fs \<Rightarrow> c\<lparr>t_active_impl := previous, call_stack := fs\<rparr>
     | VendorCall a # fs \<Rightarrow> c\<lparr>t_vendor_frames := butlast (t_vendor_frames c), call_stack := fs\<rparr>
     | VendorDeinit a # fs \<Rightarrow> wait_drained a (c\<lparr>call_stack := fs\<rparr>))"

text \<open>
  \<^verbatim>\<open>ensure_uninitialized\<close> up to the vendor deinit, when there is a session to end, or up to the wait; and the public
  methods up to their vendor call. A call from the adapter's own callback context is rejected, a \<^verbatim>\<open>deinit\<close>
  only recorded. While the vendor deinit of the adapter is open the thread holds both of its mutexes.
\<close>

definition ensure_uninitialized :: "nat \<Rightarrow> bool \<Rightarrow> ctx \<Rightarrow> ctx" where
  "ensure_uninitialized a run_vendor_deinit c =
     (if VendorDeinit a \<in> set (call_stack c) then c\<lparr>stuck := Some a\<rparr>
      else if run_vendor_deinit then c\<lparr>call_stack := VendorDeinit a # call_stack c\<rparr>
      else wait_drained a c)"

definition deinit_call :: "nat \<Rightarrow> bool \<Rightarrow> ctx \<Rightarrow> ctx" where
  "deinit_call a run_vendor_deinit c = (if in_callback_context a c then c else ensure_uninitialized a run_vendor_deinit c)"

definition public_call :: "nat \<Rightarrow> ctx \<Rightarrow> ctx" where
  "public_call a c =
     (if in_callback_context a c then c
      else if VendorDeinit a \<in> set (call_stack c) then c\<lparr>stuck := Some a\<rparr>
      else vendor_scope a c)"

text \<open>The tail of a public method when a teardown was deferred.\<close>

definition finish_with_deferred_teardown :: "nat \<Rightarrow> bool \<Rightarrow> ctx \<Rightarrow> ctx" where
  "finish_with_deferred_teardown a run_vendor_deinit c =
     (if in_vendor_frames a c then c else ensure_uninitialized a run_vendor_deinit c)"

section \<open>Runs of a thread\<close>

text \<open>Whether the code of a project, or of the library, is what runs now.\<close>

fun project_runs :: "frame list \<Rightarrow> bool" where
  "project_runs [] = True"
| "project_runs (ProjectCallback a p # fs) = True"
| "project_runs fs = False"

fun library_runs :: "frame list \<Rightarrow> bool" where
  "library_runs (ProjectCallback a p # fs) = False"
| "library_runs fs = True"

text \<open>
  The gate of an adapter is closed while its vendor deinit is open, so none of its callbacks is delivered. What other
  threads did to an adapter decides whether a teardown finds a session, a free choice of the label.
\<close>

datatype ctx_label = Deliver nat | PublicCall nat | Deinit nat bool | Leave | LeaveDeferred bool

inductive ctx_step :: "ctx \<Rightarrow> ctx_label \<Rightarrow> ctx \<Rightarrow> bool" where
  deliver: "stuck c = None \<Longrightarrow> library_runs (call_stack c) \<Longrightarrow> VendorDeinit a \<notin> set (call_stack c) \<Longrightarrow>
    ctx_step c (Deliver a) (callback_scope a c)"
| call: "stuck c = None \<Longrightarrow> project_runs (call_stack c) \<Longrightarrow> ctx_step c (PublicCall a) (public_call a c)"
| deinit: "stuck c = None \<Longrightarrow> project_runs (call_stack c) \<Longrightarrow> ctx_step c (Deinit a v) (deinit_call a v c)"
| leave: "stuck c = None \<Longrightarrow> call_stack c \<noteq> [] \<Longrightarrow> ctx_step c Leave (leave_scope c)"
| leave_deferred: "stuck c = None \<Longrightarrow> call_stack c = VendorCall a # fs \<Longrightarrow>
    ctx_step c (LeaveDeferred v) (finish_with_deferred_teardown a v (leave_scope c))"

inductive_cases ctx_stepE: "ctx_step c l c'"

definition ctx_start :: "ctx \<Rightarrow> bool" where
  "ctx_start c \<longleftrightarrow> c = new_thread"

section \<open>What the markers say of the stack\<close>

fun vendor_calls :: "frame list \<Rightarrow> nat list" where
  "vendor_calls [] = []"
| "vendor_calls (VendorCall a # fs) = vendor_calls fs @ [a]"
| "vendor_calls (f # fs) = vendor_calls fs"

text \<open>Every entry point of the library that is open, the deinits included.\<close>

fun vendor_entries :: "frame list \<Rightarrow> nat list" where
  "vendor_entries [] = []"
| "vendor_entries (ProjectCallback a p # fs) = vendor_entries fs"
| "vendor_entries (VendorCall a # fs) = a # vendor_entries fs"
| "vendor_entries (VendorDeinit a # fs) = a # vendor_entries fs"

fun innermost_callback :: "frame list \<Rightarrow> nat option" where
  "innermost_callback [] = None"
| "innermost_callback (ProjectCallback a p # fs) = Some a"
| "innermost_callback (f # fs) = innermost_callback fs"

text \<open>
  Each callback saved the marker of the callback around it and is not inside a deinit of its own adapter; each entry of
  the library was made outside the callback context of its adapter.
\<close>

fun frames_ok :: "frame list \<Rightarrow> bool" where
  "frames_ok [] = True"
| "frames_ok (ProjectCallback a p # fs) \<longleftrightarrow> p = innermost_callback fs \<and> VendorDeinit a \<notin> set fs \<and> frames_ok fs"
| "frames_ok (VendorCall a # fs) \<longleftrightarrow> innermost_callback fs \<noteq> Some a \<and> a \<notin> set (vendor_entries fs) \<and> frames_ok fs"
| "frames_ok (VendorDeinit a # fs) \<longleftrightarrow> innermost_callback fs \<noteq> Some a \<and> a \<notin> set (vendor_entries fs) \<and> frames_ok fs"

text \<open>A stuck thread has a callback or the deinit of that adapter open, under a callback of another one.\<close>

definition stuck_ok :: "ctx \<Rightarrow> bool" where
  "stuck_ok c \<longleftrightarrow> (case stuck c of None \<Rightarrow> True | Some a \<Rightarrow>
     (VendorDeinit a \<in> set (call_stack c) \<or> list_ex (callback_of a) (call_stack c)) \<and>
     (\<exists>b. b \<noteq> a \<and> innermost_callback (call_stack c) = Some b))"

definition ctx_inv :: "ctx \<Rightarrow> bool" where
  "ctx_inv c \<longleftrightarrow> t_vendor_frames c = vendor_calls (call_stack c) \<and> t_active_impl c = innermost_callback (call_stack c) \<and>
     frames_ok (call_stack c) \<and> stuck_ok c"

lemma vendor_calls_set: "a \<in> set (vendor_calls fs) \<longleftrightarrow> VendorCall a \<in> set fs"
  by (induction fs rule: vendor_calls.induct) auto

lemma vendor_entries_set: "a \<in> set (vendor_entries fs) \<longleftrightarrow> VendorCall a \<in> set fs \<or> VendorDeinit a \<in> set fs"
  by (induction fs rule: vendor_entries.induct) auto

lemma callback_has_innermost: "list_ex (callback_of a) fs \<Longrightarrow> \<exists>b. innermost_callback fs = Some b"
  by (induction fs rule: innermost_callback.induct) auto

lemma project_in_callback: "project_runs fs \<Longrightarrow> fs \<noteq> [] \<Longrightarrow> \<exists>b. innermost_callback fs = Some b"
  by (cases fs rule: project_runs.cases) auto

lemma frames_ok_distinct: "frames_ok fs \<Longrightarrow> distinct (vendor_entries fs)"
  by (induction fs rule: frames_ok.induct) auto

lemma context_from_stack:
  "ctx_inv c \<Longrightarrow> in_callback_context a c \<longleftrightarrow> innermost_callback (call_stack c) = Some a \<or> VendorCall a \<in> set (call_stack c)"
  by (auto simp: ctx_inv_def in_callback_context_def in_vendor_frames_def vendor_calls_set)

lemma ctx_inv_start: "ctx_start c \<Longrightarrow> ctx_inv c"
  by (simp add: ctx_start_def new_thread_def ctx_inv_def stuck_ok_def)

lemma ctx_inv_deliver:
  "ctx_inv c \<Longrightarrow> stuck c = None \<Longrightarrow> VendorDeinit a \<notin> set (call_stack c) \<Longrightarrow> ctx_inv (callback_scope a c)"
  by (auto simp: ctx_inv_def callback_scope_def stuck_ok_def)

lemma ctx_inv_wait:
  assumes "ctx_inv c" "stuck c = None" "innermost_callback (call_stack c) \<noteq> Some a"
  shows "ctx_inv (wait_drained a c)"
  using assms callback_has_innermost [of a "call_stack c"] by (auto simp: ctx_inv_def wait_drained_def stuck_ok_def)

text \<open>Both ways into the teardown: outside the callback context, with another callback around an open deinit.\<close>

lemma ctx_inv_ensure:
  assumes "ctx_inv c" "stuck c = None" "\<not> in_callback_context a c"
    and "VendorDeinit a \<in> set (call_stack c) \<Longrightarrow> \<exists>b. innermost_callback (call_stack c) = Some b"
  shows "ctx_inv (ensure_uninitialized a v c)"
proof -
  have n: "innermost_callback (call_stack c) \<noteq> Some a" "VendorCall a \<notin> set (call_stack c)"
    using assms(1,3) context_from_stack by auto
  show ?thesis
    using n assms ctx_inv_wait [OF assms(1,2) n(1)]
    by (auto simp: ensure_uninitialized_def ctx_inv_def stuck_ok_def vendor_entries_set)
qed

lemma open_deinit_in_callback:
  "project_runs (call_stack c) \<Longrightarrow> VendorDeinit a \<in> set (call_stack c) \<Longrightarrow> \<exists>b. innermost_callback (call_stack c) = Some b"
  using project_in_callback by fastforce

lemma ctx_inv_deinit:
  "ctx_inv c \<Longrightarrow> stuck c = None \<Longrightarrow> project_runs (call_stack c) \<Longrightarrow> ctx_inv (deinit_call a v c)"
  using ctx_inv_ensure [of c a v] open_deinit_in_callback [of c a] by (auto simp: deinit_call_def)

lemma ctx_inv_call:
  assumes "ctx_inv c" "stuck c = None" "project_runs (call_stack c)"
  shows "ctx_inv (public_call a c)"
proof (cases "in_callback_context a c")
  case False
  then have n: "innermost_callback (call_stack c) \<noteq> Some a" "VendorCall a \<notin> set (call_stack c)"
    using assms(1) context_from_stack by auto
  then show ?thesis
    using False assms open_deinit_in_callback [of c a]
    by (auto simp: public_call_def vendor_scope_def ctx_inv_def stuck_ok_def vendor_entries_set)
qed (simp add: public_call_def assms)

lemma ctx_inv_pop_deinit:
  assumes "ctx_inv c" "call_stack c = VendorDeinit a # fs" "stuck c = None"
  shows "ctx_inv (c\<lparr>call_stack := fs\<rparr>)" "innermost_callback fs \<noteq> Some a"
  using assms by (auto simp: ctx_inv_def stuck_ok_def)

lemma ctx_inv_leave:
  assumes "ctx_inv c" "stuck c = None" "call_stack c \<noteq> []"
  shows "ctx_inv (leave_scope c)"
proof (cases "call_stack c")
  case (Cons f fs)
  show ?thesis
  proof (cases f)
    case (VendorDeinit a)
    then show ?thesis
      using ctx_inv_wait [of "c\<lparr>call_stack := fs\<rparr>" a] ctx_inv_pop_deinit [of c a fs] assms Cons
      by (simp add: leave_scope_def)
  qed (use assms Cons in \<open>auto simp: leave_scope_def ctx_inv_def stuck_ok_def\<close>)
qed (use assms in simp)

lemma ctx_inv_leave_deferred:
  assumes "ctx_inv c" "stuck c = None" "call_stack c = VendorCall a # fs"
  shows "ctx_inv (finish_with_deferred_teardown a v (leave_scope c))"
proof -
  have "frames_ok (VendorCall a # fs)"
    using assms by (simp add: ctx_inv_def)
  then have fs: "innermost_callback fs \<noteq> Some a" "VendorCall a \<notin> set fs" "VendorDeinit a \<notin> set fs"
    by (simp_all add: vendor_entries_set)
  have l: "ctx_inv (leave_scope c)" "stuck (leave_scope c) = None" "call_stack (leave_scope c) = fs"
    using ctx_inv_leave [OF assms(1,2)] assms(2,3) by (simp_all add: leave_scope_def)
  then show ?thesis
    using ctx_inv_ensure [OF l(1,2), of a v] fs context_from_stack [OF l(1), of a] by (simp add: finish_with_deferred_teardown_def)
qed

interpretation ctx: invariant_system ctx_start ctx_step ctx_inv
  by unfold_locales
    (auto intro: ctx_inv_start ctx_inv_deliver ctx_inv_call ctx_inv_deinit ctx_inv_leave ctx_inv_leave_deferred elim: ctx_stepE)

fun frame_adapter :: "frame \<Rightarrow> nat" where
  "frame_adapter (VendorCall a) = a"
| "frame_adapter (VendorDeinit a) = a"
| "frame_adapter (ProjectCallback a p) = a"

lemma innermost_in_stack: "innermost_callback fs = Some a \<Longrightarrow> \<exists>f \<in> set fs. frame_adapter f = a"
  by (induction fs rule: innermost_callback.induct) auto

lemma callback_of_adapter: "callback_of a f \<Longrightarrow> frame_adapter f = a"
  by (cases f) auto

lemma callback_adapter: "list_ex (callback_of a) fs \<Longrightarrow> \<exists>f \<in> set fs. frame_adapter f = a"
  using callback_of_adapter by (auto simp: list_ex_iff)

lemma frame_kinds: "frame_adapter f = a \<Longrightarrow> f = VendorCall a \<or> f = VendorDeinit a \<or> callback_of a f"
  by (cases f) auto

section \<open>Properties\<close>

text \<open>
  C26. Whatever adapters call each other on a thread, deinits and deferred teardowns included, no entry point of the library is
  entered for an adapter while one of its own, deinit included, is still open on that thread. While only one adapter
  is involved the test is exact wherever project code runs, the thread being in its callback context just when a call of
  it is open, and the thread never waits for itself. With several adapters a thread can come to wait for itself, and a
  call of an adapter can pass its test although something of it is open below, but only inside a callback of
  another adapter, and what is open is then a callback or the vendor deinit of the adapter, not one of its vendor calls.
\<close>

theorem no_recursive_vendor_call:
  assumes "reach ctx_start ctx_step c"
  shows "distinct (vendor_entries (call_stack c)) \<and>
    ((\<forall>f \<in> set (call_stack c). frame_adapter f = a) \<longrightarrow>
       stuck c = None \<and> (project_runs (call_stack c) \<longrightarrow> (in_callback_context a c \<longleftrightarrow> call_stack c \<noteq> []))) \<and>
    (stuck c = Some a \<or> project_runs (call_stack c) \<and> (\<exists>f \<in> set (call_stack c). frame_adapter f = a) \<and> \<not> in_callback_context a c \<longrightarrow>
       (VendorDeinit a \<in> set (call_stack c) \<or> list_ex (callback_of a) (call_stack c)) \<and>
       (\<exists>b. b \<noteq> a \<and> innermost_callback (call_stack c) = Some b))"
proof (intro conjI impI)
  have i: "ctx_inv c"
    using assms by (rule ctx.inv_reach)
  then have f: "frames_ok (call_stack c)" and s: "stuck_ok c"
    by (simp_all add: ctx_inv_def)
  show "distinct (vendor_entries (call_stack c))"
    using f by (rule frames_ok_distinct)
  {
    assume one: "\<forall>f \<in> set (call_stack c). frame_adapter f = a"
    then show "stuck c = None"
      using s innermost_in_stack [of "call_stack c"] callback_adapter [of _ "call_stack c"]
      by (fastforce simp: stuck_ok_def split: option.splits)
    show "in_callback_context a c \<longleftrightarrow> call_stack c \<noteq> []" if "project_runs (call_stack c)"
      using project_in_callback [OF that] innermost_in_stack [of "call_stack c"] one by (auto simp: context_from_stack [OF i])
  }
  {
    assume h: "stuck c = Some a \<or>
      project_runs (call_stack c) \<and> (\<exists>f \<in> set (call_stack c). frame_adapter f = a) \<and> \<not> in_callback_context a c"
    have o: "list_ex (callback_of a) (call_stack c) \<or> VendorDeinit a \<in> set (call_stack c)"
      if "f \<in> set (call_stack c)" "frame_adapter f = a" "\<not> in_callback_context a c" for f
      using that frame_kinds [of f a] by (auto simp: context_from_stack [OF i] list_ex_iff)
    then show "VendorDeinit a \<in> set (call_stack c) \<or> list_ex (callback_of a) (call_stack c)"
      using h s by (auto simp: stuck_ok_def)
    show "\<exists>b. b \<noteq> a \<and> innermost_callback (call_stack c) = Some b"
      using h s project_in_callback [of "call_stack c"] by (fastforce simp: stuck_ok_def context_from_stack [OF i])
  }
qed

text \<open>
  Adapter 1 runs a callback on a thread of the library; the callback calls adapter 2, whose call delivers a callback
  synchronously. That callback is under a callback of adapter 1 which the test of adapter 1 does not see: the marker
  names adapter 2. Its \<^verbatim>\<open>deinit\<close> of adapter 1 then waits for the callback on its own stack.
\<close>

lemmas ctx_eval = callback_scope_def public_call_def deinit_call_def vendor_scope_def new_thread_def ensure_uninitialized_def
  wait_drained_def leave_scope_def in_callback_context_def in_vendor_frames_def

definition ex_nested :: ctx where
  "ex_nested = callback_scope 2 (public_call 2 (callback_scope 1 new_thread))"

lemma ex_nested_eval: "ex_nested = \<lparr>t_active_impl = Some 2, t_vendor_frames = [2],
    call_stack = [ProjectCallback 2 (Some 1), VendorCall 2, ProjectCallback 1 None], stuck = None\<rparr>"
  by (simp add: ex_nested_def ctx_eval)

lemma reach_ctx_run: "run ctx_step new_thread ls c \<Longrightarrow> reach ctx_start ctx_step c"
  by (rule reach_run) (auto intro: reach_start simp: ctx_start_def)

lemma reach_ex_nested: "reach ctx_start ctx_step ex_nested"
proof (rule reach_ctx_run)
  show "run ctx_step new_thread [Deliver 1, PublicCall 2, Deliver 2] ex_nested"
    unfolding ex_nested_def by ((rule run_cons, rule ctx_step.intros, (simp add: ctx_eval; fail)+) | rule run_nil)+
qed

lemma outer_callback_missed:
  "reach ctx_start ctx_step ex_nested \<and> ProjectCallback 1 None \<in> set (call_stack ex_nested) \<and> \<not> in_callback_context 1 ex_nested"
  using reach_ex_nested by (simp add: ex_nested_eval in_callback_context_def in_vendor_frames_def)

text \<open>
  The vendor deinit of adapter 1 delivers a callback of adapter 2 synchronously. No frame of adapter 1 is recorded, so a
  public method that this callback calls on adapter 1 passes the test and locks the lifecycle mutex its thread holds.
\<close>

definition ex_relock :: ctx where
  "ex_relock = public_call 1 (callback_scope 2 (deinit_call 1 True new_thread))"

lemma deinit_frame_missed: "reach ctx_start ctx_step ex_relock \<and> stuck ex_relock = Some 1"
proof
  show "reach ctx_start ctx_step ex_relock"
  proof (rule reach_ctx_run)
    show "run ctx_step new_thread [Deinit 1 True, Deliver 2, PublicCall 1] ex_relock"
      unfolding ex_relock_def by ((rule run_cons, rule ctx_step.intros, (simp add: ctx_eval; fail)+) | rule run_nil)+
  qed
qed (simp add: ex_relock_def ctx_eval)

theorem no_recursive_vendor_call_witness:
  "distinct (vendor_entries (call_stack ex_nested)) \<and> (\<exists>b. b \<noteq> 1 \<and> innermost_callback (call_stack ex_nested) = Some b)"
  using no_recursive_vendor_call [OF reach_ex_nested, of 1]
  by (simp add: ex_nested_eval in_callback_context_def in_vendor_frames_def)

end
