(* ===== verification/Vendor_Binding.thy ===== *)
theory Vendor_Binding
  imports Direct_Sdk
begin

text \<open>
  The binding of the adapter to the official library: \<^verbatim>\<open>vendor_frequency\<close> and \<^verbatim>\<open>make_real_astrall_vendor_api\<close> of
  \<^verbatim>\<open>direct_astrall_sdk.cpp\<close>, and the calls the public methods and the teardown of the adapter make through the function table. The
  library itself is not part of the sources: its functions and the values of its enumerators are the parameter
  \<open>official\<close>, over a state of the library that stays abstract. A raw callback is an element of a type of its own, and
  what a function handed to the library does is the list of calls it makes.
\<close>

section \<open>The official library\<close>

text \<open>The fields of the status structures that are read; those of the power status after their conversion.\<close>

record AstrallSystemStatus =
  ss_sysStatus :: int
  ss_errorCode :: int
  ss_warnCode :: int

type_synonym ('c, 'd) handed = "'d \<Rightarrow> ('c \<times> 'd) list"

record ('s, 'c, 'd) official =
  ASTRALL_RES_SUCCESSED :: u16
  ASTRALL_AUTH_SDK :: u16
  ASTRALL_AUTH_JOYSTICK :: u16
  ASTRALL_SUB_TOPIC_ID_IMU :: u16
  ASTRALL_SUB_TOPIC_ID_SPORT :: u16
  ASTRALL_SUB_TOPIC_ID_LIDAR :: u16
  ASTRALL_SUB_FREQ_CLOSE :: u16
  ASTRALL_SUB_FREQ_1HZ :: u16
  ASTRALL_SUB_FREQ_25HZ :: u16
  ASTRALL_SUB_FREQ_50HZ :: u16
  ASTRALL_SUB_FREQ_125HZ :: u16
  ASTRALL_SUB_FREQ_250HZ :: u16
  AstrallSdkInit :: "('c, 'd) handed \<Rightarrow> ('c, 'd) handed \<Rightarrow> u32 \<Rightarrow> 's \<Rightarrow> u16 \<times> 's"
  AstrallSdkDeinit :: "'s \<Rightarrow> 's"
  AstrallHeartbeat :: "u32 \<Rightarrow> 's \<Rightarrow> u16 \<times> 's"
  AstrallAuthControl :: "u16 \<Rightarrow> u32 \<Rightarrow> 's \<Rightarrow> u16 \<times> 's"
  AstrallSubscriptionData :: "u16 \<Rightarrow> u16 \<Rightarrow> ('c, 'd) handed \<Rightarrow> u32 \<Rightarrow> 's \<Rightarrow> u16 \<times> 's"
  AstrallSportModeControl :: "u16 \<Rightarrow> u32 \<Rightarrow> 's \<Rightarrow> u16 \<times> 's"
  AstrallMove :: "fl \<Rightarrow> fl \<Rightarrow> fl \<Rightarrow> u32 \<Rightarrow> 's \<Rightarrow> u16 \<times> 's"
  AstrallGetSystemStatus :: "'s \<Rightarrow> (u16 \<times> AstrallSystemStatus) \<times> 's"
  AstrallGetPowerStatus :: "'s \<Rightarrow> (u16 \<times> RawPowerStatus) \<times> 's"
  AstrallGetSportStatus :: "'s \<Rightarrow> u16 \<times> 's"

text \<open>
  The enumerators of a kind have different values: authority targets, topics and rates. Their values are those of
  the library's own headers and are not used.
\<close>

definition distinct_values :: "('s, 'c, 'd) official \<Rightarrow> bool" where
  "distinct_values v \<longleftrightarrow> ASTRALL_AUTH_SDK v \<noteq> ASTRALL_AUTH_JOYSTICK v \<and>
     distinct [ASTRALL_SUB_TOPIC_ID_IMU v, ASTRALL_SUB_TOPIC_ID_SPORT v, ASTRALL_SUB_TOPIC_ID_LIDAR v] \<and>
     distinct [ASTRALL_SUB_FREQ_CLOSE v, ASTRALL_SUB_FREQ_1HZ v, ASTRALL_SUB_FREQ_25HZ v, ASTRALL_SUB_FREQ_50HZ v,
       ASTRALL_SUB_FREQ_125HZ v, ASTRALL_SUB_FREQ_250HZ v]"

section \<open>The function table\<close>

datatype AuthorityTarget = TargetSdk | TargetJoystick

text \<open>The numbers of the project's enumerations.\<close>

primrec frequency_value :: "SubscriptionFrequency \<Rightarrow> u16" where
  "frequency_value Disabled = 0"
| "frequency_value Hz1 = 1"
| "frequency_value Hz25 = 2"
| "frequency_value Hz50 = 3"
| "frequency_value Hz125 = 4"
| "frequency_value Hz250 = 5"

definition vendor_frequency :: "('s, 'c, 'd) official \<Rightarrow> u16 \<Rightarrow> u16" where
  "vendor_frequency v frequency =
     (if frequency = frequency_value Disabled then ASTRALL_SUB_FREQ_CLOSE v
      else if frequency = frequency_value Hz1 then ASTRALL_SUB_FREQ_1HZ v
      else if frequency = frequency_value Hz25 then ASTRALL_SUB_FREQ_25HZ v
      else if frequency = frequency_value Hz50 then ASTRALL_SUB_FREQ_50HZ v
      else if frequency = frequency_value Hz125 then ASTRALL_SUB_FREQ_125HZ v
      else if frequency = frequency_value Hz250 then ASTRALL_SUB_FREQ_250HZ v
      else ASTRALL_SUB_FREQ_CLOSE v)"

record ('s, 'c) AstrallVendorApi =
  api_init :: "'c option \<Rightarrow> 'c option \<Rightarrow> u32 \<Rightarrow> 's \<Rightarrow> u16 \<times> 's"
  api_deinit :: "'s \<Rightarrow> 's"
  api_heartbeat :: "u32 \<Rightarrow> 's \<Rightarrow> u16 \<times> 's"
  api_request_authority :: "AuthorityTarget \<Rightarrow> u32 \<Rightarrow> 's \<Rightarrow> u16 \<times> 's"
  api_subscribe :: "SubscriptionTopic \<Rightarrow> u16 \<Rightarrow> 'c option \<Rightarrow> u32 \<Rightarrow> 's \<Rightarrow> u16 \<times> 's"
  api_set_mode :: "u16 \<Rightarrow> u32 \<Rightarrow> 's \<Rightarrow> u16 \<times> 's"
  api_move :: "fl \<Rightarrow> fl \<Rightarrow> fl \<Rightarrow> u32 \<Rightarrow> 's \<Rightarrow> u16 \<times> 's"
  api_get_system_status :: "RawSystemStatus \<Rightarrow> 's \<Rightarrow> (u16 \<times> RawSystemStatus) \<times> 's"
  api_get_power_status :: "RawPowerStatus \<Rightarrow> 's \<Rightarrow> (u16 \<times> RawPowerStatus) \<times> 's"
  api_get_sport_status :: "'s \<Rightarrow> u16 \<times> 's"

text \<open>The function handed to the library in place of a raw callback: an empty one is not called.\<close>

definition forward_raw :: "'c option \<Rightarrow> ('c, 'd) handed" where
  "forward_raw cb data = (case cb of None \<Rightarrow> [] | Some f \<Rightarrow> [(f, data)])"

definition bind_authority :: "('s, 'c, 'd) official \<Rightarrow> AuthorityTarget \<Rightarrow> u32 \<Rightarrow> 's \<Rightarrow> u16 \<times> 's" where
  "bind_authority v target timeout =
     (let auth = (if target = TargetSdk then ASTRALL_AUTH_SDK v else ASTRALL_AUTH_JOYSTICK v)
      in AstrallAuthControl v auth timeout)"

definition bind_subscribe :: "('s, 'c, 'd) official \<Rightarrow> SubscriptionTopic \<Rightarrow> u16 \<Rightarrow> 'c option \<Rightarrow> u32 \<Rightarrow> 's \<Rightarrow> u16 \<times> 's" where
  "bind_subscribe v topic frequency data_cb timeout =
     (let id = (case topic of Imu \<Rightarrow> ASTRALL_SUB_TOPIC_ID_IMU v | Sport \<Rightarrow> ASTRALL_SUB_TOPIC_ID_SPORT v
                | Lidar \<Rightarrow> ASTRALL_SUB_TOPIC_ID_LIDAR v)
      in AstrallSubscriptionData v id (vendor_frequency v frequency) (forward_raw data_cb) timeout)"

text \<open>The getters write their output argument on success only; the conversions keep the low bits.\<close>

definition bind_system_status :: "('s, 'c, 'd) official \<Rightarrow> RawSystemStatus \<Rightarrow> 's \<Rightarrow> (u16 \<times> RawSystemStatus) \<times> 's" where
  "bind_system_status v out s =
     (let ((code, status), s) = AstrallGetSystemStatus v s
      in ((code, if code = ASTRALL_RES_SUCCESSED v
                 then out\<lparr>sys_status := of_int (ss_sysStatus status), raw_error_code := of_int (ss_errorCode status),
                          raw_warn_code := of_int (ss_warnCode status)\<rparr>
                 else out), s))"

definition bind_power_status :: "('s, 'c, 'd) official \<Rightarrow> RawPowerStatus \<Rightarrow> 's \<Rightarrow> (u16 \<times> RawPowerStatus) \<times> 's" where
  "bind_power_status v out s =
     (let ((code, power), s) = AstrallGetPowerStatus v s
      in ((code, if code = ASTRALL_RES_SUCCESSED v
                 then out\<lparr>soc := soc power, temp := temp power, voltage := voltage power,
                          cycle_count := cycle_count power, charged := charged power\<rparr>
                 else out), s))"

definition make_real_astrall_vendor_api :: "('s, 'c, 'd) official \<Rightarrow> ('s, 'c) AstrallVendorApi" where
  "make_real_astrall_vendor_api v = \<lparr>
     api_init = (\<lambda>heartbeat_cb status_cb. AstrallSdkInit v (forward_raw heartbeat_cb) (forward_raw status_cb)),
     api_deinit = AstrallSdkDeinit v,
     api_heartbeat = AstrallHeartbeat v,
     api_request_authority = bind_authority v,
     api_subscribe = bind_subscribe v,
     api_set_mode = AstrallSportModeControl v,
     api_move = AstrallMove v,
     api_get_system_status = bind_system_status v,
     api_get_power_status = bind_power_status v,
     api_get_sport_status = AstrallGetSportStatus v\<rparr>"

section \<open>The calls of the adapter\<close>

text \<open>The callbacks the adapter hands to the table.\<close>

datatype adapter_callback = HeartbeatIgnored | StatusForwarded | ImuForwarded | SportForwarded | LidarDiscarded

definition zero_system :: RawSystemStatus where
  "zero_system = \<lparr>sys_status = 0, raw_error_code = 0, raw_warn_code = 0\<rparr>"

definition zero_power :: RawPowerStatus where
  "zero_power = \<lparr>soc = Fin 0, temp = Fin 0, voltage = Fin 0, cycle_count = 0, charged = 0\<rparr>"

definition code_reply :: "u16 \<times> 's \<Rightarrow> vendor_reply \<times> 's" where
  "code_reply r = (\<lparr>vr_code = fst r, vr_system = (0, zero_system), vr_power = (0, zero_power), vr_sport = 0\<rparr>, snd r)"

definition call_init :: "('s, adapter_callback) AstrallVendorApi \<Rightarrow> u32 \<Rightarrow> 's \<Rightarrow> vendor_reply \<times> 's" where
  "call_init api timeout s = code_reply (api_init api (Some HeartbeatIgnored) (Some StatusForwarded) timeout s)"

definition call_heartbeat :: "('s, 'c) AstrallVendorApi \<Rightarrow> u32 \<Rightarrow> 's \<Rightarrow> vendor_reply \<times> 's" where
  "call_heartbeat api timeout s = code_reply (api_heartbeat api timeout s)"

definition call_request_authority :: "('s, 'c) AstrallVendorApi \<Rightarrow> bool \<Rightarrow> u32 \<Rightarrow> 's \<Rightarrow> vendor_reply \<times> 's" where
  "call_request_authority api sdk timeout s =
     code_reply (api_request_authority api (if sdk then TargetSdk else TargetJoystick) timeout s)"

definition call_subscribe_imu ::
  "('s, adapter_callback) AstrallVendorApi \<Rightarrow> SubscriptionFrequency \<Rightarrow> u32 \<Rightarrow> 's \<Rightarrow> vendor_reply \<times> 's" where
  "call_subscribe_imu api f timeout s = code_reply (api_subscribe api Imu (frequency_value f) (Some ImuForwarded) timeout s)"

definition call_subscribe_sport ::
  "('s, adapter_callback) AstrallVendorApi \<Rightarrow> SubscriptionFrequency \<Rightarrow> u32 \<Rightarrow> 's \<Rightarrow> vendor_reply \<times> 's" where
  "call_subscribe_sport api f timeout s = code_reply (api_subscribe api Sport (frequency_value f) (Some SportForwarded) timeout s)"

definition call_subscribe_lidar ::
  "('s, adapter_callback) AstrallVendorApi \<Rightarrow> SubscriptionFrequency \<Rightarrow> u32 \<Rightarrow> 's \<Rightarrow> vendor_reply \<times> 's" where
  "call_subscribe_lidar api f timeout s = code_reply (api_subscribe api Lidar (frequency_value f) (Some LidarDiscarded) timeout s)"

definition call_move :: "('s, 'c) AstrallVendorApi \<Rightarrow> velocity \<Rightarrow> u32 \<Rightarrow> 's \<Rightarrow> vendor_reply \<times> 's" where
  "call_move api v timeout s = code_reply (api_move api (vx v) (vy v) (vyaw v) timeout s)"

definition call_set_mode :: "('s, 'c) AstrallVendorApi \<Rightarrow> u16 \<Rightarrow> u32 \<Rightarrow> 's \<Rightarrow> vendor_reply \<times> 's" where
  "call_set_mode api mode timeout s = code_reply (api_set_mode api mode timeout s)"

definition call_getters :: "('s, 'c) AstrallVendorApi \<Rightarrow> 's \<Rightarrow> vendor_reply \<times> 's" where
  "call_getters api s =
     (let (system, s) = api_get_system_status api zero_system s;
          (power, s) = api_get_power_status api zero_power s;
          (sport, s) = api_get_sport_status api s
      in (\<lparr>vr_code = 0, vr_system = system, vr_power = power, vr_sport = sport\<rparr>, s))"

definition call_deinit :: "('s, 'c) AstrallVendorApi \<Rightarrow> 's \<Rightarrow> vendor_reply \<times> 's" where
  "call_deinit api s = code_reply (0, api_deinit api s)"

text \<open>What the adapter asks of the library: the vendor call of a public method, or that of the teardown.\<close>

datatype vendor_request = Method sdk_call | Teardown

fun ask :: "('s, adapter_callback) AstrallVendorApi \<Rightarrow> vendor_request \<Rightarrow> 's \<Rightarrow> vendor_reply \<times> 's" where
  "ask api (Method (Init callbacks timeout)) s = call_init api timeout s"
| "ask api (Method (Heartbeat timeout)) s = call_heartbeat api timeout s"
| "ask api (Method (RequestAuthority sdk timeout)) s = call_request_authority api sdk timeout s"
| "ask api (Method (SubscribeImu f callback timeout)) s = call_subscribe_imu api f timeout s"
| "ask api (Method (SubscribeSport f callback timeout)) s = call_subscribe_sport api f timeout s"
| "ask api (Method (SubscribeLidar f timeout)) s = call_subscribe_lidar api f timeout s"
| "ask api (Method (Move v timeout)) s = call_move api v timeout s"
| "ask api (Method (SetMode mode timeout)) s = call_set_mode api mode timeout s"
| "ask api (Method Snapshot) s = call_getters api s"
| "ask api Teardown s = call_deinit api s"

section \<open>What the library hears\<close>

text \<open>The calls of the official functions, and a library that logs each with the code it returned.\<close>

datatype ('c, 'd) official_call =
  SdkInitCalled "('c, 'd) handed" "('c, 'd) handed" u32
| SdkDeinitCalled
| HeartbeatCalled u32
| AuthControlCalled u16 u32
| SubscriptionDataCalled u16 u16 "('c, 'd) handed" u32
| SportModeControlCalled u16 u32
| MoveCalled fl fl fl u32
| GetSystemStatusCalled
| GetPowerStatusCalled
| GetSportStatusCalled

type_synonym ('c, 'd) call_log = "(('c, 'd) official_call \<times> u16 option) list"

definition log_code ::
  "('c, 'd) official_call \<Rightarrow> ('s \<Rightarrow> u16 \<times> 's) \<Rightarrow> 's \<times> ('c, 'd) call_log \<Rightarrow> u16 \<times> ('s \<times> ('c, 'd) call_log)" where
  "log_code c f p = (let (code, s) = f (fst p) in (code, (s, snd p @ [(c, Some code)])))"

definition log_status ::
  "('c, 'd) official_call \<Rightarrow> ('s \<Rightarrow> (u16 \<times> 'r) \<times> 's) \<Rightarrow> 's \<times> ('c, 'd) call_log \<Rightarrow> (u16 \<times> 'r) \<times> ('s \<times> ('c, 'd) call_log)" where
  "log_status c f p = (let (r, s) = f (fst p) in (r, (s, snd p @ [(c, Some (fst r))])))"

definition logged :: "('s, 'c, 'd) official \<Rightarrow> ('s \<times> ('c, 'd) call_log, 'c, 'd) official" where
  "logged v = \<lparr>
     ASTRALL_RES_SUCCESSED = ASTRALL_RES_SUCCESSED v,
     ASTRALL_AUTH_SDK = ASTRALL_AUTH_SDK v,
     ASTRALL_AUTH_JOYSTICK = ASTRALL_AUTH_JOYSTICK v,
     ASTRALL_SUB_TOPIC_ID_IMU = ASTRALL_SUB_TOPIC_ID_IMU v,
     ASTRALL_SUB_TOPIC_ID_SPORT = ASTRALL_SUB_TOPIC_ID_SPORT v,
     ASTRALL_SUB_TOPIC_ID_LIDAR = ASTRALL_SUB_TOPIC_ID_LIDAR v,
     ASTRALL_SUB_FREQ_CLOSE = ASTRALL_SUB_FREQ_CLOSE v,
     ASTRALL_SUB_FREQ_1HZ = ASTRALL_SUB_FREQ_1HZ v,
     ASTRALL_SUB_FREQ_25HZ = ASTRALL_SUB_FREQ_25HZ v,
     ASTRALL_SUB_FREQ_50HZ = ASTRALL_SUB_FREQ_50HZ v,
     ASTRALL_SUB_FREQ_125HZ = ASTRALL_SUB_FREQ_125HZ v,
     ASTRALL_SUB_FREQ_250HZ = ASTRALL_SUB_FREQ_250HZ v,
     AstrallSdkInit = (\<lambda>hb st timeout. log_code (SdkInitCalled hb st timeout) (AstrallSdkInit v hb st timeout)),
     AstrallSdkDeinit = (\<lambda>(s, l). (AstrallSdkDeinit v s, l @ [(SdkDeinitCalled, None)])),
     AstrallHeartbeat = (\<lambda>timeout. log_code (HeartbeatCalled timeout) (AstrallHeartbeat v timeout)),
     AstrallAuthControl = (\<lambda>a timeout. log_code (AuthControlCalled a timeout) (AstrallAuthControl v a timeout)),
     AstrallSubscriptionData = (\<lambda>topic f cb timeout.
        log_code (SubscriptionDataCalled topic f cb timeout) (AstrallSubscriptionData v topic f cb timeout)),
     AstrallSportModeControl = (\<lambda>mode timeout. log_code (SportModeControlCalled mode timeout) (AstrallSportModeControl v mode timeout)),
     AstrallMove = (\<lambda>x y w timeout. log_code (MoveCalled x y w timeout) (AstrallMove v x y w timeout)),
     AstrallGetSystemStatus = log_status GetSystemStatusCalled (AstrallGetSystemStatus v),
     AstrallGetPowerStatus = log_status GetPowerStatusCalled (AstrallGetPowerStatus v),
     AstrallGetSportStatus = log_code GetSportStatusCalled (AstrallGetSportStatus v)\<rparr>"

text \<open>
  What the calls mean to the library, read from the names of its enumerators; a call that names none of them, or any
  other sequence, means nothing. The project callback of a request stays in the adapter: it is erased.
\<close>

definition heard_rate :: "('s, 'c, 'd) official \<Rightarrow> u16 \<Rightarrow> SubscriptionFrequency option" where
  "heard_rate v f = map_of [(ASTRALL_SUB_FREQ_CLOSE v, Disabled), (ASTRALL_SUB_FREQ_1HZ v, Hz1), (ASTRALL_SUB_FREQ_25HZ v, Hz25),
     (ASTRALL_SUB_FREQ_50HZ v, Hz50), (ASTRALL_SUB_FREQ_125HZ v, Hz125), (ASTRALL_SUB_FREQ_250HZ v, Hz250)] f"

definition heard_subscription :: "('s, 'c, 'd) official \<Rightarrow> u16 \<Rightarrow> SubscriptionFrequency \<Rightarrow> u32 \<Rightarrow> vendor_request option" where
  "heard_subscription v topic f timeout =
     (if topic = ASTRALL_SUB_TOPIC_ID_IMU v then Some (Method (SubscribeImu f None timeout))
      else if topic = ASTRALL_SUB_TOPIC_ID_SPORT v then Some (Method (SubscribeSport f None timeout))
      else if topic = ASTRALL_SUB_TOPIC_ID_LIDAR v then Some (Method (SubscribeLidar f timeout))
      else None)"

fun heard_one :: "('s, 'c, 'd) official \<Rightarrow> ('c, 'd) official_call \<Rightarrow> vendor_request option" where
  "heard_one v (SdkInitCalled hb st timeout) = Some (Method (Init None timeout))"
| "heard_one v SdkDeinitCalled = Some Teardown"
| "heard_one v (HeartbeatCalled timeout) = Some (Method (Heartbeat timeout))"
| "heard_one v (AuthControlCalled a timeout) =
     (if a = ASTRALL_AUTH_SDK v then Some (Method (RequestAuthority True timeout))
      else if a = ASTRALL_AUTH_JOYSTICK v then Some (Method (RequestAuthority False timeout)) else None)"
| "heard_one v (SubscriptionDataCalled topic f cb timeout) =
     Option.bind (heard_rate v f) (\<lambda>rate. heard_subscription v topic rate timeout)"
| "heard_one v (SportModeControlCalled mode timeout) = Some (Method (SetMode mode timeout))"
| "heard_one v (MoveCalled x y w timeout) = Some (Method (Move \<lparr>vx = x, vy = y, vyaw = w\<rparr> timeout))"
| "heard_one v GetSystemStatusCalled = None"
| "heard_one v GetPowerStatusCalled = None"
| "heard_one v GetSportStatusCalled = None"

definition heard :: "('s, 'c, 'd) official \<Rightarrow> ('c, 'd) official_call list \<Rightarrow> vendor_request option" where
  "heard v cs = (case cs of
       [c] \<Rightarrow> heard_one v c
     | [GetSystemStatusCalled, GetPowerStatusCalled, GetSportStatusCalled] \<Rightarrow> Some (Method Snapshot)
     | _ \<Rightarrow> None)"

fun erase_callback :: "vendor_request \<Rightarrow> vendor_request" where
  "erase_callback (Method (Init callbacks timeout)) = Method (Init None timeout)"
| "erase_callback (Method (SubscribeImu f callback timeout)) = Method (SubscribeImu f None timeout)"
| "erase_callback (Method (SubscribeSport f callback timeout)) = Method (SubscribeSport f None timeout)"
| "erase_callback r = r"

text \<open>The codes a reply carries back, and the functions a call hands to the library.\<close>

fun reply_codes :: "vendor_request \<Rightarrow> vendor_reply \<Rightarrow> u16 option list" where
  "reply_codes Teardown r = [None]"
| "reply_codes (Method Snapshot) r = [Some (fst (vr_system r)), Some (fst (vr_power r)), Some (vr_sport r)]"
| "reply_codes (Method c) r = [Some (vr_code r)]"

fun handed_over :: "('c, 'd) official_call \<Rightarrow> ('c, 'd) handed list" where
  "handed_over (SdkInitCalled hb st timeout) = [hb, st]"
| "handed_over (SubscriptionDataCalled topic f cb timeout) = [cb]"
| "handed_over c = []"

fun own_callbacks :: "vendor_request \<Rightarrow> adapter_callback list" where
  "own_callbacks (Method (Init callbacks timeout)) = [HeartbeatIgnored, StatusForwarded]"
| "own_callbacks (Method (SubscribeImu f callback timeout)) = [ImuForwarded]"
| "own_callbacks (Method (SubscribeSport f callback timeout)) = [SportForwarded]"
| "own_callbacks (Method (SubscribeLidar f timeout)) = [LidarDiscarded]"
| "own_callbacks r = []"

text \<open>
  A library that writes anything, here the given structures, into the status structure of a call that failed.
\<close>

definition scribbled :: "AstrallSystemStatus \<Rightarrow> RawPowerStatus \<Rightarrow> ('s, 'c, 'd) official \<Rightarrow> ('s, 'c, 'd) official" where
  "scribbled x y v = v\<lparr>
     AstrallGetSystemStatus := (\<lambda>s. let ((c, st), s) = AstrallGetSystemStatus v s
        in ((c, if c = ASTRALL_RES_SUCCESSED v then st else x), s)),
     AstrallGetPowerStatus := (\<lambda>s. let ((c, st), s) = AstrallGetPowerStatus v s
        in ((c, if c = ASTRALL_RES_SUCCESSED v then st else y), s))\<rparr>"

section \<open>The binding on the logging library\<close>

lemmas table_defs = make_real_astrall_vendor_api_def bind_authority_def bind_subscribe_def

lemmas call_defs = call_init_def call_heartbeat_def call_request_authority_def call_subscribe_imu_def
  call_subscribe_sport_def call_subscribe_lidar_def call_move_def call_set_mode_def call_deinit_def

lemma forward_raw_Some: "forward_raw (Some f) = (\<lambda>d. [(f, d)])"
  by (simp add: forward_raw_def fun_eq_iff)

lemma logged_values [simp]:
  "ASTRALL_RES_SUCCESSED (logged v) = ASTRALL_RES_SUCCESSED v"
  "ASTRALL_AUTH_SDK (logged v) = ASTRALL_AUTH_SDK v"
  "ASTRALL_AUTH_JOYSTICK (logged v) = ASTRALL_AUTH_JOYSTICK v"
  "ASTRALL_SUB_TOPIC_ID_IMU (logged v) = ASTRALL_SUB_TOPIC_ID_IMU v"
  "ASTRALL_SUB_TOPIC_ID_SPORT (logged v) = ASTRALL_SUB_TOPIC_ID_SPORT v"
  "ASTRALL_SUB_TOPIC_ID_LIDAR (logged v) = ASTRALL_SUB_TOPIC_ID_LIDAR v"
  "ASTRALL_SUB_FREQ_CLOSE (logged v) = ASTRALL_SUB_FREQ_CLOSE v"
  "ASTRALL_SUB_FREQ_1HZ (logged v) = ASTRALL_SUB_FREQ_1HZ v"
  "ASTRALL_SUB_FREQ_25HZ (logged v) = ASTRALL_SUB_FREQ_25HZ v"
  "ASTRALL_SUB_FREQ_50HZ (logged v) = ASTRALL_SUB_FREQ_50HZ v"
  "ASTRALL_SUB_FREQ_125HZ (logged v) = ASTRALL_SUB_FREQ_125HZ v"
  "ASTRALL_SUB_FREQ_250HZ (logged v) = ASTRALL_SUB_FREQ_250HZ v"
  by (simp_all add: logged_def)

lemma logged_functions [simp]:
  "AstrallSdkInit (logged v) hb st timeout = log_code (SdkInitCalled hb st timeout) (AstrallSdkInit v hb st timeout)"
  "AstrallSdkDeinit (logged v) (s, l) = (AstrallSdkDeinit v s, l @ [(SdkDeinitCalled, None)])"
  "AstrallHeartbeat (logged v) timeout = log_code (HeartbeatCalled timeout) (AstrallHeartbeat v timeout)"
  "AstrallAuthControl (logged v) a timeout = log_code (AuthControlCalled a timeout) (AstrallAuthControl v a timeout)"
  "AstrallSubscriptionData (logged v) topic f cb timeout =
     log_code (SubscriptionDataCalled topic f cb timeout) (AstrallSubscriptionData v topic f cb timeout)"
  "AstrallSportModeControl (logged v) mode timeout =
     log_code (SportModeControlCalled mode timeout) (AstrallSportModeControl v mode timeout)"
  "AstrallMove (logged v) x y w timeout = log_code (MoveCalled x y w timeout) (AstrallMove v x y w timeout)"
  "AstrallGetSystemStatus (logged v) = log_status GetSystemStatusCalled (AstrallGetSystemStatus v)"
  "AstrallGetPowerStatus (logged v) = log_status GetPowerStatusCalled (AstrallGetPowerStatus v)"
  "AstrallGetSportStatus (logged v) = log_code GetSportStatusCalled (AstrallGetSportStatus v)"
  by (simp_all add: logged_def)

lemma logged_frequency [simp]: "vendor_frequency (logged v) f = vendor_frequency v f"
  by (simp add: vendor_frequency_def)

lemma heard_vendor_frequency: "distinct_values v \<Longrightarrow> heard_rate v (vendor_frequency v (frequency_value f)) = Some f"
  by (cases f) (auto simp: distinct_values_def heard_rate_def vendor_frequency_def)

lemma logged_system_status:
  "bind_system_status (logged v) out (s, l) =
     (let (r, s) = bind_system_status v out s in (r, (s, l @ [(GetSystemStatusCalled, Some (fst r))])))"
  by (simp add: bind_system_status_def log_status_def Let_def split_beta)

lemma logged_power_status:
  "bind_power_status (logged v) out (s, l) =
     (let (r, s) = bind_power_status v out s in (r, (s, l @ [(GetPowerStatusCalled, Some (fst r))])))"
  by (simp add: bind_power_status_def log_status_def Let_def split_beta)

lemma logged_getters:
  "call_getters (make_real_astrall_vendor_api (logged v)) (s, l) =
     (let (r, s) = call_getters (make_real_astrall_vendor_api v) s
      in (r, (s, l @ [(GetSystemStatusCalled, Some (fst (vr_system r))), (GetPowerStatusCalled, Some (fst (vr_power r))),
           (GetSportStatusCalled, Some (vr_sport r))])))"
  by (simp add: call_getters_def make_real_astrall_vendor_api_def logged_system_status logged_power_status
      log_code_def Let_def split_beta)

text \<open>The one call of a request other than the snapshot.\<close>

fun made_call :: "('s, adapter_callback, 'd) official \<Rightarrow> vendor_request \<Rightarrow> (adapter_callback, 'd) official_call" where
  "made_call v (Method (Init callbacks timeout)) =
     SdkInitCalled (forward_raw (Some HeartbeatIgnored)) (forward_raw (Some StatusForwarded)) timeout"
| "made_call v (Method (Heartbeat timeout)) = HeartbeatCalled timeout"
| "made_call v (Method (RequestAuthority sdk timeout)) =
     AuthControlCalled (if sdk then ASTRALL_AUTH_SDK v else ASTRALL_AUTH_JOYSTICK v) timeout"
| "made_call v (Method (SubscribeImu f callback timeout)) = SubscriptionDataCalled (ASTRALL_SUB_TOPIC_ID_IMU v)
     (vendor_frequency v (frequency_value f)) (forward_raw (Some ImuForwarded)) timeout"
| "made_call v (Method (SubscribeSport f callback timeout)) = SubscriptionDataCalled (ASTRALL_SUB_TOPIC_ID_SPORT v)
     (vendor_frequency v (frequency_value f)) (forward_raw (Some SportForwarded)) timeout"
| "made_call v (Method (SubscribeLidar f timeout)) = SubscriptionDataCalled (ASTRALL_SUB_TOPIC_ID_LIDAR v)
     (vendor_frequency v (frequency_value f)) (forward_raw (Some LidarDiscarded)) timeout"
| "made_call v (Method (Move w timeout)) = MoveCalled (vx w) (vy w) (vyaw w) timeout"
| "made_call v (Method (SetMode mode timeout)) = SportModeControlCalled mode timeout"
| "made_call v (Method Snapshot) = GetSportStatusCalled"
| "made_call v Teardown = SdkDeinitCalled"

definition made_calls :: "('s, adapter_callback, 'd) official \<Rightarrow> vendor_request \<Rightarrow> (adapter_callback, 'd) official_call list" where
  "made_calls v r = (if r = Method Snapshot then [GetSystemStatusCalled, GetPowerStatusCalled, GetSportStatusCalled]
     else [made_call v r])"

lemma logged_method:
  fixes v :: "('s, adapter_callback, 'd) official"
  assumes "c \<noteq> Snapshot"
  shows "ask (make_real_astrall_vendor_api (logged v)) (Method c) (s, l) =
    (let (reply, s) = ask (make_real_astrall_vendor_api v) (Method c) s
     in (reply, (s, l @ [(made_call v (Method c), Some (vr_code reply))])))"
  using assms by (cases c) (auto simp: call_defs table_defs log_code_def code_reply_def Let_def split_beta)

lemma logged_ask:
  fixes v :: "('s, adapter_callback, 'd) official"
  shows "ask (make_real_astrall_vendor_api (logged v)) r (s, l) =
    (let (reply, s) = ask (make_real_astrall_vendor_api v) r s
     in (reply, (s, l @ zip (made_calls v r) (reply_codes r reply))))"
proof (cases r)
  case (Method c)
  show ?thesis
  proof (cases "c = Snapshot")
    case False
    then have "reply_codes r q = [Some (vr_code q)]" for q
      using Method by (cases c) auto
    with False Method show ?thesis
      by (simp add: logged_method [OF False] made_calls_def)
  qed (simp add: Method logged_getters made_calls_def)
qed (simp add: call_deinit_def make_real_astrall_vendor_api_def code_reply_def made_calls_def)

lemma made_calls_heard: "distinct_values v \<Longrightarrow> heard v (made_calls v r) = Some (erase_callback r)"
proof (cases r)
  case (Method c)
  assume d: "distinct_values v"
  show ?thesis
    using d heard_vendor_frequency [OF d] Method
    by (cases c) (auto simp: made_calls_def heard_def heard_subscription_def distinct_values_def)
qed (simp add: made_calls_def heard_def)

lemma made_calls_handed:
  "map (\<lambda>h. h d) (concat (map handed_over (made_calls v r))) = map (\<lambda>cb. [(cb, d)]) (own_callbacks r)"
proof (cases r)
  case (Method c)
  then show ?thesis
    by (cases c) (simp_all add: made_calls_def forward_raw_Some)
qed (simp add: made_calls_def)

lemma made_calls_length: "length (made_calls v r) = length (reply_codes r q)"
proof (cases r)
  case (Method c)
  then show ?thesis
    by (cases c) (simp_all add: made_calls_def)
qed (simp add: made_calls_def)

lemma failed_getters_hidden:
  "ask (make_real_astrall_vendor_api (scribbled x y v)) r = ask (make_real_astrall_vendor_api v) r"
proof -
  have "bind_system_status (scribbled x y v) = bind_system_status v"
    "bind_power_status (scribbled x y v) = bind_power_status v"
    by (intro ext; simp add: bind_system_status_def bind_power_status_def scribbled_def Let_def split_beta)+
  moreover have "bind_subscribe (scribbled x y v) = bind_subscribe v" "bind_authority (scribbled x y v) = bind_authority v"
    by (intro ext; simp add: bind_subscribe_def bind_authority_def vendor_frequency_def scribbled_def cong: SubscriptionTopic.case_cong)+
  ultimately have "make_real_astrall_vendor_api (scribbled x y v) = make_real_astrall_vendor_api v"
    by (simp add: make_real_astrall_vendor_api_def scribbled_def)
  then show ?thesis
    by simp
qed

section \<open>Properties\<close>

text \<open>
  C28. The library hears what the adapter asks. For any library whose enumerators of a kind differ, the calls that the
  vendor call of any public method, snapshot included, or of the teardown makes through the binding, read by the
  names of the library's enumerators, are the request again: its operation, authority, topic, rate, velocity, mode and
  timeout. The functions handed over pass each datum exactly once to the adapter's own callback, the codes
  the functions returned are those of the reply, logging the calls changes neither the reply nor the library's
  state, and what the library leaves in the structure of a failed getter makes no difference.
\<close>

theorem library_hears_request:
  fixes v :: "('s, adapter_callback, 'd) official"
  assumes "distinct_values v"
  shows "\<exists>log. ask (make_real_astrall_vendor_api (logged v)) r (s, []) =
      (let (reply, s') = ask (make_real_astrall_vendor_api v) r s in (reply, (s', log))) \<and>
    heard v (map fst log) = Some (erase_callback r) \<and>
    map snd log = reply_codes r (fst (ask (make_real_astrall_vendor_api v) r s)) \<and>
    (\<forall>d. map (\<lambda>h. h d) (concat (map (handed_over \<circ> fst) log)) = map (\<lambda>cb. [(cb, d)]) (own_callbacks r)) \<and>
    (\<forall>x y. ask (make_real_astrall_vendor_api (scribbled x y v)) r s = ask (make_real_astrall_vendor_api v) r s)"
proof -
  let ?reply = "fst (ask (make_real_astrall_vendor_api v) r s)"
  let ?log = "zip (made_calls v r) (reply_codes r ?reply)"
  have l: "map fst ?log = made_calls v r" "map snd ?log = reply_codes r ?reply"
    using made_calls_length [of v r ?reply] by simp_all
  have "map (handed_over \<circ> fst) ?log = map handed_over (made_calls v r)"
    by (simp flip: map_map add: l(1))
  then show ?thesis
    using made_calls_heard [OF assms] l made_calls_handed [of _ v r] failed_getters_hidden [of _ _ v r] logged_ask [of v r s "[]"]
    by (intro exI [of _ ?log]) (simp add: split_beta Let_def)
qed

text \<open>A library with enumerator values of its own, whose state counts its calls.\<close>

definition counting :: "(nat, adapter_callback, nat) official" where
  "counting = \<lparr>ASTRALL_RES_SUCCESSED = kSdkResSuccess, ASTRALL_AUTH_SDK = 7, ASTRALL_AUTH_JOYSTICK = 4,
     ASTRALL_SUB_TOPIC_ID_IMU = 1, ASTRALL_SUB_TOPIC_ID_SPORT = 2, ASTRALL_SUB_TOPIC_ID_LIDAR = 5,
     ASTRALL_SUB_FREQ_CLOSE = 0, ASTRALL_SUB_FREQ_1HZ = 1, ASTRALL_SUB_FREQ_25HZ = 25, ASTRALL_SUB_FREQ_50HZ = 50,
     ASTRALL_SUB_FREQ_125HZ = 125, ASTRALL_SUB_FREQ_250HZ = 250,
     AstrallSdkInit = (\<lambda>hb st timeout n. (kSdkResSuccess, n + 1)), AstrallSdkDeinit = (\<lambda>n. n + 1),
     AstrallHeartbeat = (\<lambda>timeout n. (kSdkResSuccess, n + 1)),
     AstrallAuthControl = (\<lambda>a timeout n. (kSdkResSuccess, n + 1)),
     AstrallSubscriptionData = (\<lambda>topic f cb timeout n. (kSdkResSuccess, n + 1)),
     AstrallSportModeControl = (\<lambda>mode timeout n. (kSdkResSuccess, n + 1)),
     AstrallMove = (\<lambda>x y w timeout n. (kSdkResSuccess, n + 1)),
     AstrallGetSystemStatus = (\<lambda>n. ((kSdkResFailed, \<lparr>ss_sysStatus = 1, ss_errorCode = 0, ss_warnCode = 0\<rparr>), n + 1)),
     AstrallGetPowerStatus = (\<lambda>n. ((kSdkResFailed, zero_power), n + 1)),
     AstrallGetSportStatus = (\<lambda>n. (kSdkResFailed, n + 1))\<rparr>"

theorem library_hears_request_witness:
  "\<exists>log. heard counting (map fst log) = Some (Method (SubscribeLidar Hz25 500)) \<and> map snd log = [Some kSdkResSuccess] \<and>
     snd (ask (make_real_astrall_vendor_api (logged counting)) (Method (SubscribeLidar Hz25 500)) (0, [])) = (1, log)"
proof -
  have d: "distinct_values counting"
    by (simp add: distinct_values_def counting_def)
  have a: "ask (make_real_astrall_vendor_api counting) (Method (SubscribeLidar Hz25 500)) 0 = code_reply (kSdkResSuccess, 1)"
    by (simp add: counting_def call_defs table_defs)
  show ?thesis
    using library_hears_request [OF d, of "Method (SubscribeLidar Hz25 500)" 0] unfolding a
    by (auto simp: code_reply_def)
qed

end
