(* ===== verification/Node_Graph.thy ===== *)
theory Node_Graph
  imports Node_Construction
begin

text \<open>
  The destructor of the driver node (\<^verbatim>\<open>driver_node.cpp\<close>), and the graph its constructor created in use: whatever a handler of
  \<open>Node_Bridge\<close> publishes has a publisher.
\<close>

section \<open>The destructor\<close>

datatype stats_log = StreamNotActive | StreamStats Stats

text \<open>The log of the statistics, from the assembler of the stopped point-cloud receiver.\<close>

definition log_lidar_stats :: "overrides \<Rightarrow> receiver_slot \<Rightarrow> stats_log option" where
  "log_lidar_stats ov point_cloud =
     (case point_cloud of
        None \<Rightarrow> if mem_lidar_enabled (load_members ov) then Some StreamNotActive else None
      | Some (src, r) \<Rightarrow> Some (StreamStats (stats (lr_assembler r))))"

definition destroy :: "overrides \<Rightarrow> driver_node \<Rightarrow> driver_node \<times> stats_log option" where
  "destroy ov d =
     (let receivers = stop_receivers (dn_receivers d); runtime = rt_stop (dn_runtime d)
      in (d\<lparr>dn_receivers := receivers, dn_runtime := runtime\<rparr>, log_lidar_stats ov (fst receivers)))"

section \<open>Lemmas\<close>

text \<open>What an output is sent through; a missing publisher or broadcaster would be a null pointer.\<close>

fun has_carrier :: "graph \<Rightarrow> node_output \<Rightarrow> bool" where
  "has_carrier g (PublishState k m) \<longleftrightarrow> gr_robot_state_pub g \<noteq> None"
| "has_carrier g (PublishImu m) \<longleftrightarrow> gr_imu_pub g \<noteq> None"
| "has_carrier g (PublishOdom m) \<longleftrightarrow> gr_odom_pub g \<noteq> None"
| "has_carrier g (SendTransform t) \<longleftrightarrow> gr_tf_broadcaster g"
| "has_carrier g (PublishPoints m) \<longleftrightarrow> gr_points_pub g \<noteq> None"
| "has_carrier g (PublishOdomLidar m) \<longleftrightarrow> gr_odom_lidar_pub g \<noteq> None"
| "has_carrier g (SendLidarTransform t) \<longleftrightarrow> gr_lidar_tf_broadcaster g"
| "has_carrier g _ \<longleftrightarrow> True"

fun section_carrier :: "graph \<Rightarrow> crit \<Rightarrow> bool" where
  "section_carrier g (Emit x) \<longleftrightarrow> has_carrier g x"
| "section_carrier g CheckPose \<longleftrightarrow> gr_tf_broadcaster g"
| "section_carrier g ReadPose \<longleftrightarrow> gr_tf_broadcaster g"
| "section_carrier g (MapCloud f) \<longleftrightarrow> gr_points_pub g \<noteq> None"
| "section_carrier g (ObserveOdometry od len) \<longleftrightarrow> gr_odom_lidar_pub g \<noteq> None"
| "section_carrier g _ \<longleftrightarrow> True"

definition graph_inv :: "node_env \<Rightarrow> bridge \<Rightarrow> bool" where
  "graph_inv e b \<longleftrightarrow> list_all (has_carrier (node_graph (ne_ov e))) (nd_outputs (br_node b)) \<and>
     (\<forall>t. list_all (section_carrier (node_graph (ne_ov e))) (br_threads b t))"

lemma decided_broadcasters:
  "gr_tf_broadcaster (decide_tf_broadcaster ov g) =
     (if as_bool ov ''odom.publish_tf'' then as_bool ov ''odometry.scale_verified'' else gr_tf_broadcaster g)"
  "gr_lidar_tf_broadcaster (decide_tf_broadcaster ov g) =
     (if as_bool ov ''odom_lidar.publish_tf'' then as_bool ov ''odometry.scale_verified'' else gr_lidar_tf_broadcaster g)"
  by (simp_all add: decide_tf_broadcaster_def Let_def)

lemma created_fields:
  "gr_tf_broadcaster (create_graph_interfaces ov m) = False"
  "gr_lidar_tf_broadcaster (create_graph_interfaces ov m) = False"
  "gr_points_pub (create_graph_interfaces ov m) \<noteq> None \<longleftrightarrow> mem_lidar_enabled m"
  "gr_odom_lidar_pub (create_graph_interfaces ov m) \<noteq> None \<longleftrightarrow> mem_lidar_enabled m"
  "gr_imu_pub (create_graph_interfaces ov m) \<noteq> None"
  "gr_odom_pub (create_graph_interfaces ov m) \<noteq> None"
  "gr_robot_state_pub (create_graph_interfaces ov m) \<noteq> None"
  by (simp_all add: create_graph_interfaces_def)

lemma loaded_lidar_enabled: "mem_lidar_enabled (load_members (ne_ov e)) = lidar_enabled e"
  by (simp add: load_members_def lidar_enabled_def)

lemma graph_broadcasters:
  "gr_tf_broadcaster (node_graph (ne_ov e)) = tf_broadcaster e"
  "gr_lidar_tf_broadcaster (node_graph (ne_ov e)) = lidar_tf_broadcaster e"
  unfolding node_graph_def decided_broadcasters created_fields tf_broadcaster_def lidar_tf_broadcaster_def
  by (simp_all only: if_bool_eq_conj simp_thms) blast+

lemma graph_lidar:
  "gr_points_pub (node_graph (ne_ov e)) \<noteq> None \<longleftrightarrow> lidar_enabled e"
  "gr_odom_lidar_pub (node_graph (ne_ov e)) \<noteq> None \<longleftrightarrow> lidar_enabled e"
  unfolding node_graph_def decided_others created_fields loaded_lidar_enabled by (rule refl)+

lemma graph_always:
  "gr_imu_pub (node_graph ov) \<noteq> None" "gr_odom_pub (node_graph ov) \<noteq> None" "gr_robot_state_pub (node_graph ov) \<noteq> None"
  unfolding node_graph_def decided_others by (rule created_fields)+

lemmas graph_facts = graph_broadcasters graph_lidar graph_always

lemma handler_carried: "list_all (section_carrier (node_graph (ne_ov e))) (handler e now ev)"
proof (cases ev)
  case (Observed ob)
  then show ?thesis
    by (cases ob) (simp_all add: on_state_def on_imu_def on_sport_def on_status_def on_event_def graph_facts
        del: not_None_eq split: option.split)
qed (simp_all add: on_cmd_vel_def on_robot_mode_def on_joint_commands_def reject_joint_command_def on_emergency_stop_def
    on_control_authority_def on_lidar_frame_def on_lidar_odometry_def graph_facts Let_def
    del: not_None_eq split: option.split)

lemma section_carried:
  assumes "section_carrier (node_graph (ne_ov e)) c" "list_all (has_carrier (node_graph (ne_ov e))) (nd_outputs n)"
    "run_section e now c n = (m, cs)"
  shows "list_all (has_carrier (node_graph (ne_ov e))) (nd_outputs m)" "list_all (section_carrier (node_graph (ne_ov e))) cs"
  using assms
  by (cases c; auto simp: store_status_def publish_robot_state_def finish_state_def publish_tf_def map_cloud_section_def
      observe_section_def emit_def graph_facts Let_def simp del: not_None_eq split: option.splits if_splits)+

lemma graph_inv_step:
  assumes "graph_inv e b" "bridge_step e b l c"
  shows "graph_inv e c"
proof (cases l)
  case (Begin t ev now)
  then show ?thesis
    using assms handler_carried by (auto simp: graph_inv_def bridge_step_def split: if_splits)
next
  case (Section t now)
  then obtain x rest where r: "br_threads b t = x # rest"
    using assms(2) by (auto simp: bridge_step_def split: list.splits)
  obtain m cs where y: "run_section e now x (br_node b) = (m, cs)"
    by fastforce
  have c: "c = b\<lparr>br_node := m, br_threads := (br_threads b)(t := cs @ rest)\<rparr>"
    using assms(2) Section r y by (simp add: bridge_step_def)
  have "section_carrier (node_graph (ne_ov e)) x \<and> list_all (section_carrier (node_graph (ne_ov e))) rest"
    using assms(1) r by (metis graph_inv_def list.pred_inject(2))
  then show ?thesis
    using section_carried [OF _ _ y] assms(1) by (simp add: graph_inv_def c)
qed

lemma graph_inv_start: "bridge_start b \<Longrightarrow> graph_inv e b"
  by (simp add: bridge_start_def new_bridge_def new_node_def graph_inv_def)

interpretation carried: invariant_system bridge_start "bridge_step e" "graph_inv e" for e
  by unfold_locales (blast intro: graph_inv_start graph_inv_step)+

section \<open>Properties\<close>

text \<open>
  C27. A constructed node never publishes through a missing publisher or broadcaster: over any interleaving of its handlers
  every message and transform it sends has one, although the lidar publishers exist only when the stream is enabled, the
  broadcasters only when their transform is wanted and the odometry scale verified, and several handlers use theirs
  unchecked. With the stream disabled the node has no lidar publisher and no receiver.
\<close>

theorem publishes_through_created_publishers:
  assumes "Impl plat inet_pton (ne_ov e) pc od = Inr d" "run (bridge_step e) (dn_bridge d) ls b" "x \<in> set (nd_outputs (br_node b))"
  shows "dn_graph d = node_graph (ne_ov e) \<and> has_carrier (dn_graph d) x \<and>
    (lidar_enabled e \<or> gr_points_pub (dn_graph d) = None \<and> gr_odom_lidar_pub (dn_graph d) = None \<and>
       dn_receivers d = (None, None))"
proof (intro conjI)
  show g: "dn_graph d = node_graph (ne_ov e)"
    by (rule Impl_Inr(2) [OF assms(1)])
  have "graph_inv e b"
    using carried.inv_run [OF assms(2)] graph_inv_start Impl_Inr(3) [OF assms(1)] by (simp add: bridge_start_def)
  then show "has_carrier (dn_graph d) x"
    using assms(3) g by (simp add: graph_inv_def list_all_iff)
  have "dn_receivers d = (None, None)" if "\<not> lidar_enabled e"
    using Impl_Inr(4) [OF assms(1)] that by (simp add: create_receivers_def start_receivers_def lidar_enabled_def)
  then show "lidar_enabled e \<or> gr_points_pub (dn_graph d) = None \<and> gr_odom_lidar_pub (dn_graph d) = None \<and>
       dn_receivers d = (None, None)"
    using graph_lidar [of e] g by auto
qed

text \<open>The first act of a constructed node: the state its constructor publishes.\<close>

definition ex_graph_env :: node_env where
  "ex_graph_env = \<lparr>ne_ov = ex_overrides 1000, ne_sin = (\<lambda>x. Fin 0), ne_cos = (\<lambda>x. Fin 1)\<rparr>"

theorem publishes_through_created_publishers_witness:
  "\<exists>d b x. Impl willing (\<lambda>ip. True) (ne_ov ex_graph_env) Injected Injected = Inr d \<and>
     run (bridge_step ex_graph_env) (dn_bridge d) [Section 0 1, Section 0 2, Section 0 3] b \<and>
     nd_outputs (br_node b) = [x] \<and> has_carrier (node_graph (ne_ov ex_graph_env)) x"
proof -
  have e: "ne_ov ex_graph_env = ex_overrides 1000"
    by (simp add: ex_graph_env_def)
  obtain d where d: "Impl willing (\<lambda>ip. True) (ne_ov ex_graph_env) Injected Injected = Inr d" "dn_bridge d = new_bridge"
    using willing_constructs [OF ex_accepted] Impl_Inr(3) unfolding e by blast
  let ?m = "robot_state ex_graph_env 1 new_node"
  let ?x = "PublishState 0 (?m\<lparr>rs_stamp := 2, rs_rejected_joint_commands := 0\<rparr>)"
  let ?b = "new_bridge\<lparr>br_node := new_node\<lparr>nd_outputs := [?x]\<rparr>, br_threads := (\<lambda>t. [])\<rparr>"
  have "bridge_run ex_graph_env [Section 0 1, Section 0 2, Section 0 3] new_bridge = Some ?b"
    by (simp add: new_bridge_def new_node_def publish_robot_state_def finish_state_def emit_def fun_eq_iff)
  then have r: "run (bridge_step ex_graph_env) (dn_bridge d) [Section 0 1, Section 0 2, Section 0 3] ?b"
    unfolding d(2) by (rule bridge_run_run)
  then have "has_carrier (node_graph (ne_ov ex_graph_env)) ?x"
    using publishes_through_created_publishers [OF d(1) r, of ?x] by auto
  then show ?thesis
    using d(1) r by (intro exI [of _ d] exI [of _ ?b] exI [of _ ?x]) simp
qed

end
