(* ===== verification/Node_Telemetry.thy ===== *)
theory Node_Telemetry
  imports Node_Graph
begin

text \<open>
  What a constructed node publishes of what it measures: the IMU and odometry messages, the point clouds and the
  transforms of both trees. The lidar data of its handlers are what its own receivers deliver, so the checks of the
  parsers and those of the handlers together keep every published number finite.
\<close>

section \<open>Finite messages\<close>

definition pose_finite :: "node_pose \<Rightarrow> bool" where
  "pose_finite p \<longleftrightarrow> list_all isfinite [ps_x p, ps_y p, ps_z p, ps_qx p, ps_qy p, ps_qz p, ps_qw p]"

definition point_finite :: "LidarPoint \<Rightarrow> bool" where
  "point_finite p \<longleftrightarrow> isfinite (pt_x p) \<and> isfinite (pt_y p) \<and> isfinite (pt_z p)"

definition position_finite :: "LidarOdometry \<Rightarrow> bool" where
  "position_finite od \<longleftrightarrow> isfinite (od_x od) \<and> isfinite (od_y od) \<and> isfinite (od_z od)"

fun telemetry_finite :: "node_output \<Rightarrow> bool" where
  "telemetry_finite (PublishImu m) \<longleftrightarrow>
     list_all isfinite (mi_orientation m) \<and> list_all isfinite (mi_angular_velocity m) \<and> list_all isfinite (mi_linear_acceleration m)"
| "telemetry_finite (PublishOdom m) \<longleftrightarrow> pose_finite (mo_pose m) \<and> list_all isfinite (mo_covariance m)"
| "telemetry_finite (SendTransform t) \<longleftrightarrow> pose_finite (mt_transform t)"
| "telemetry_finite (PublishPoints m) \<longleftrightarrow> list_all (\<lambda>(x, y, z, c). isfinite x \<and> isfinite y \<and> isfinite z) (mc_data m)"
| "telemetry_finite (PublishOdomLidar m) \<longleftrightarrow> pose_finite (mo_pose m) \<and> list_all isfinite (mo_covariance m)"
| "telemetry_finite (SendLidarTransform t) \<longleftrightarrow> pose_finite (mt_transform t)"
| "telemetry_finite _ \<longleftrightarrow> True"

fun section_finite :: "crit \<Rightarrow> bool" where
  "section_finite (Emit x) \<longleftrightarrow> telemetry_finite x"
| "section_finite (StorePose p) \<longleftrightarrow> pose_finite p"
| "section_finite (MapCloud f) \<longleftrightarrow> list_all point_finite (fr_points f)"
| "section_finite (ObserveOdometry od len) \<longleftrightarrow> pose_finite (lidar_pose od len)"
| "section_finite _ \<longleftrightarrow> True"

section \<open>Quotients by a norm\<close>

lemma norm4_finite:
  assumes "isfinite (norm4 F x y z w)" "emin F \<le> emax F" "0 < prec F" "emax F + 1 = 2 * k" "a \<in> {x, y, z, w}"
  shows "\<exists>r. a = Fin r \<and> \<bar>r\<bar> \<le> 2 powi k"
proof -
  have "isfinite v" if "isfinite (fl_sqrt F v)" for v
    using that by (cases v) (auto split: if_splits)
  then have "isfinite (fl_mul F x x) \<and> isfinite (fl_mul F y y) \<and> isfinite (fl_mul F z z) \<and> isfinite (fl_mul F w w)"
    using assms(1) fl_add_finite unfolding norm4_def by blast
  then have "isfinite (fl_mul F a a)"
    using assms(5) by auto
  then show ?thesis
    using assms(2-4) by (rule fl_square_finite)
qed

lemma quotient_by_norm_finite:
  assumes "n = norm4 F x y z w" "isfinite n" "\<not> fl_less n (Fin (2 powi (- j)))" "a \<in> {x, y, z, w}"
    and "emin F \<le> k + j" "k + j \<le> emax F" "0 < prec F" "emax F + 1 = 2 * k"
  shows "isfinite (fl_div F a n)"
proof -
  obtain r where r: "a = Fin r" "\<bar>r\<bar> \<le> 2 powi k"
    using norm4_finite [of F x y z w k a] assms by auto
  obtain m where m: "n = Fin m" "2 powi (- j) \<le> m"
    using assms(2,3) by (cases n) auto
  show ?thesis
    unfolding r m using r(2) m(2) assms(5-7) by (rule fl_div_bounded)
qed

lemma thresholds: "(1 / 2 ^ 21 :: rat) = 2 powi (- 21)" "(1 / 2 ^ 50 :: rat) = 2 powi (- 50)"
  by (simp_all add: power_int_minus_divide)

lemma orientation_finite:
  assumes "orientation_quaternion wxyz s = Some q"
  shows "list_all isfinite q"
proof -
  obtain x y z w n where q: "n = norm4 binary32 x y z w" "isfinite n" "\<not> fl_less n (Fin (2 powi (- 21)))"
      "q = [fl_div binary32 x n, fl_div binary32 y n, fl_div binary32 z n, fl_div binary32 w n]"
    using assms by (auto simp: orientation_quaternion_def thresholds Let_def split: prod.splits if_splits)
  have "isfinite (fl_div binary32 a n)" if "a \<in> {x, y, z, w}" for a
    by (rule quotient_by_norm_finite [OF q(1-3) that, of 64]) simp_all
  then show ?thesis
    by (simp add: q(4))
qed

lemma lidar_pose_finite:
  assumes "position_finite od" "n = norm4 binary64 (od_qx od) (od_qy od) (od_qz od) (od_qw od)" "isfinite n"
    "\<not> fl_less n (Fin (1 / 2 ^ 50))"
  shows "pose_finite (lidar_pose od n)"
proof -
  have "isfinite (fl_div binary64 a n)" if "a \<in> {od_qx od, od_qy od, od_qz od, od_qw od}" for a
    by (rule quotient_by_norm_finite [OF assms(2,3) assms(4) [unfolded thresholds] that, of 512]) simp_all
  then show ?thesis
    using assms(1) by (simp add: pose_finite_def lidar_pose_def position_finite_def)
qed

section \<open>The handlers\<close>

text \<open>
  The library functions \<^verbatim>\<open>std::sin\<close> and \<^verbatim>\<open>std::cos\<close> are finite on finite arguments, and the yaw of a sample is a
  \<^verbatim>\<open>float\<close>.
\<close>

definition trig_finite :: "node_env \<Rightarrow> bool" where
  "trig_finite e \<longleftrightarrow> (\<forall>x. isfinite (ne_sin e (Fin x)) \<and> isfinite (ne_cos e (Fin x)))"

definition float_range :: "fl \<Rightarrow> bool" where
  "float_range v \<longleftrightarrow> (case v of Fin x \<Rightarrow> \<bar>x\<bar> \<le> 2 ^ 128 | _ \<Rightarrow> True)"

fun event_finite :: "node_event \<Rightarrow> bool" where
  "event_finite (Observed (OnImu s)) \<longleftrightarrow> float_range (imu_yaw s)"
| "event_finite (LidarFrame f) \<longleftrightarrow> list_all point_finite (fr_points f)"
| "event_finite (LidarOdometrySample od) \<longleftrightarrow> position_finite od"
| "event_finite _ \<longleftrightarrow> True"

lemma imu_pose_finite:
  assumes "imu_sample_finite s" "float_range (imu_yaw s)" "trig_finite e"
  shows "pose_finite (imu_pose e s)"
proof -
  obtain yaw where yaw: "imu_yaw s = Fin yaw" "\<bar>yaw\<bar> \<le> 2 powi 128"
    using assms(1,2) by (auto simp: imu_sample_finite_def float_range_def elim!: isfiniteE)
  have "\<bar>1 / 2 :: rat\<bar> \<le> 2 powi 0"
    by simp
  then obtain h where "fl_mul binary64 (imu_yaw s) (Fin (1 / 2)) = Fin h"
    using fl_mul_bounded [OF yaw(1) refl yaw(2), of "1 / 2" 0 binary64] by auto
  then show ?thesis
    using assms(1,3) by (simp add: pose_finite_def imu_pose_def imu_sample_finite_def trig_finite_def Let_def)
qed

lemma pose_covariance_finite: "list_all isfinite (pose_covariance diag)"
  by (auto simp: pose_covariance_def Let_def list_all_iff)

lemma points_msg_finite: "list_all point_finite (fr_points f) \<Longrightarrow> telemetry_finite (PublishPoints (points_msg e t f))"
  by (auto simp: points_msg_def Let_def list_all_iff point_finite_def)

lemma on_imu_finite:
  assumes "float_range (imu_yaw s)" "trig_finite e"
  shows "list_all section_finite (on_imu e now s)"
proof (cases "imu_sample_finite s")
  case True
  then show ?thesis
    using imu_pose_finite [OF True assms] orientation_finite
    by (auto simp: on_imu_def imu_msg_def odom_msg_def imu_sample_finite_def list_all_iff split: option.split)
qed (simp add: on_imu_def)

lemma handler_finite:
  assumes "event_finite ev" "trig_finite e"
  shows "list_all section_finite (handler e now ev)"
proof (cases ev)
  case (Observed ob)
  then show ?thesis
    using assms on_imu_finite by (cases ob) (simp_all add: on_state_def on_sport_def on_status_def on_event_def)
next
  case (LidarOdometrySample od)
  then show ?thesis
    using assms(1) lidar_pose_finite [of od] by (simp add: on_lidar_odometry_def Let_def)
qed (use assms in \<open>auto simp: on_cmd_vel_def on_robot_mode_def on_joint_commands_def reject_joint_command_def on_emergency_stop_def
    on_control_authority_def on_lidar_frame_def Let_def split: option.split\<close>)

definition finite_inv :: "bridge \<Rightarrow> bool" where
  "finite_inv b \<longleftrightarrow> list_all telemetry_finite (nd_outputs (br_node b)) \<and> pred_option pose_finite (nd_pose (br_node b)) \<and>
     (\<forall>t. list_all section_finite (br_threads b t))"

lemma run_section_finite:
  assumes "run_section e now c n = (m, cs)" "section_finite c"
    "list_all telemetry_finite (nd_outputs n)" "pred_option pose_finite (nd_pose n)"
  shows "list_all telemetry_finite (nd_outputs m)" "pred_option pose_finite (nd_pose m)" "list_all section_finite cs"
  using assms points_msg_finite pose_covariance_finite
  by (cases c; auto simp: store_status_def publish_robot_state_def finish_state_def publish_tf_def map_cloud_section_def
      observe_section_def emit_def Let_def simp del: telemetry_finite.simps(4) split: option.splits if_splits)+

lemma finite_inv_step:
  assumes "bridge_step e b l c" "finite_inv b" "trig_finite e" "\<forall>t ev now. l = Begin t ev now \<longrightarrow> event_finite ev"
  shows "finite_inv c"
proof (cases l)
  case (Begin t ev now)
  then show ?thesis
    using assms handler_finite by (auto simp: finite_inv_def bridge_step_def split: if_splits)
next
  case (Section t now)
  then obtain x rest where r: "br_threads b t = x # rest"
    using assms(1) by (auto simp: bridge_step_def split: list.splits)
  obtain m cs where y: "run_section e now x (br_node b) = (m, cs)"
    by fastforce
  have c: "c = b\<lparr>br_node := m, br_threads := (br_threads b)(t := cs @ rest)\<rparr>"
    using assms(1) Section r y by (simp add: bridge_step_def)
  have "section_finite x \<and> list_all section_finite rest"
    using assms(2) r by (metis finite_inv_def list.pred_inject(2))
  then show ?thesis
    using run_section_finite [OF y] assms(2) by (simp add: finite_inv_def c)
qed

lemma finite_inv_run:
  "run (bridge_step e) b ls c \<Longrightarrow> finite_inv b \<Longrightarrow> trig_finite e \<Longrightarrow>
   \<forall>t ev now. Begin t ev now \<in> set ls \<longrightarrow> event_finite ev \<Longrightarrow> finite_inv c"
proof (induction rule: run.induct)
  case (run_cons s l t ls u)
  then show ?case
    using finite_inv_step [of e s l t] by (metis list.set_intros(1,2))
qed

lemma finite_inv_new: "finite_inv new_bridge"
  by (simp add: finite_inv_def new_bridge_def new_node_def)

section \<open>What the receivers deliver\<close>

lemma odom_with_layout_finite:
  "results (\<lambda>(ok, r). if ok then position_finite (op_odometry r) else op_ok r = op_ok result)
     (ParseOdomWithLayout data L lc result)"
  unfolding ParseOdomWithLayout_def Let_def
  by (auto simp: results_if position_finite_def split: prod.split)

lemma odom_with_layout_cases:
  "ParseOdomWithLayout data L lc result = Some (True, r) \<Longrightarrow> position_finite (op_odometry r)"
  "ParseOdomWithLayout data L lc result = Some (False, r) \<Longrightarrow> op_ok r = op_ok result"
  using resultsD [OF odom_with_layout_finite] by fastforce+

lemma odom_with_layout_ok:
  "ParseOdomWithLayout data L lc result = Some (fin, r) \<Longrightarrow> op_ok r \<Longrightarrow> \<not> op_ok result \<Longrightarrow> position_finite (op_odometry r)"
  by (cases fin) (auto dest: odom_with_layout_cases)

lemma odometry_packet_finite:
  assumes "ParseOdometryPacket dat lc = Some r" "op_ok r"
  shows "position_finite (op_odometry r)"
proof -
  have "results (\<lambda>r. op_ok r \<longrightarrow> position_finite (op_odometry r)) (ParseOdometryPacket dat lc)"
    unfolding ParseOdometryPacket_def Let_def
    by (auto simp: results_if empty_odometry_result_def dest: odom_with_layout_cases split: option.split)
      (metis odom_with_layout_ok odom_with_layout_cases(2) OdometryPacketResult.select_convs(1))+
  then show ?thesis
    using assms by (auto simp: results_def)
qed

definition odometry_ok :: "rcv \<Rightarrow> bool" where
  "odometry_ok r \<longleftrightarrow> list_all position_finite (odometry_out r)"

lemma odometry_ok_iteration: "odometry_ok r \<Longrightarrow> odometry_ok (loop_iteration got t u v r)"
  using odometry_packet_finite
  by (auto simp: odometry_ok_def loop_iteration_def loop_odometry_def loop_point_cloud_def feed_assembler_def expire_frames_def
      warn_if_due_def should_emit_warning_def Let_def split: option.splits LidarStreamKind.splits prod.splits if_splits)

lemma odometry_ok_next: "odometry_ok r \<Longrightarrow> odometry_ok (rcv_next l r)"
  using odometry_ok_iteration
  by (cases l) (auto simp: odometry_ok_def receiver_start_def receiver_stop_def loop_check_def)

lemma odometry_ok_run: "run rcv_step r es t \<Longrightarrow> odometry_ok r \<Longrightarrow> odometry_ok t"
  by (induction rule: run.induct) (auto simp: rcv_step_def odometry_ok_next)

lemma frame_points_finite:
  assumes "rcv_inv r" "f \<in> set (frames_out r)"
  shows "list_all point_finite (fr_points f)"
proof -
  have "point_finite (fr_points f ! k)" if k: "k < length (fr_points f)" for k
  proof -
    have c: "carried r f k"
      using assms k by (simp add: rcv_inv_def complete_frame_def)
    obtain d q where q: "ParsePointCloudPacket (Some d) (lr_config r) = Some q" "pk_ok q"
        "unat (pk_index q) \<le> k" "k < unat (pk_index q) + length (pk_points q)"
        "fr_points f ! k = pk_points q ! (k - unat (pk_index q))"
      using c unfolding carried_def by blast
    then have "fr_points f ! k \<in> set (pk_points q)"
      by simp
    then show ?thesis
      using accepted_packet_sane [OF q(1,2)] by (fastforce simp: bounded_point_def point_finite_def)
  qed
  then show ?thesis
    by (simp add: list_all_length)
qed

text \<open>
  The events of a constructed node: its lidar handlers are called by its own receivers. An IMU sample is any sample
  whose yaw is a \<^verbatim>\<open>float\<close>.
\<close>

definition delivers :: "receiver_slot \<Rightarrow> (rcv \<Rightarrow> bool) \<Rightarrow> bool" where
  "delivers slot P \<longleftrightarrow> (\<exists>src r0 es r. slot = Some (src, r0) \<and> run rcv_step r0 es r \<and> P r)"

fun event_of :: "driver_node \<Rightarrow> node_event \<Rightarrow> bool" where
  "event_of d (Observed (OnImu s)) \<longleftrightarrow> float_range (imu_yaw s)"
| "event_of d (LidarFrame f) \<longleftrightarrow> delivers (fst (dn_receivers d)) (\<lambda>r. f \<in> set (frames_out r))"
| "event_of d (LidarOdometrySample od) \<longleftrightarrow> delivers (snd (dn_receivers d)) (\<lambda>r. od \<in> set (odometry_out r))"
| "event_of d _ \<longleftrightarrow> True"

lemma created_slot:
  assumes "Impl plat inet_pton ov pc od = Inr d" "fst (dn_receivers d) = Some (src, r) \<or> snd (dn_receivers d) = Some (src, r)"
  shows "\<exists>kind. r = receiver_start (LidarStreamReceiver kind (lidar_parse_config ov) (assembler_config ov) True True True)"
  using Impl_Inr(4) [OF assms(1)] assms(2)
  by (auto simp: create_receivers_def create_receiver_def start_receivers_def Let_def
      split: option.splits if_splits source_choice.splits prod.splits)

lemma started_receiver:
  assumes "r0 = receiver_start (LidarStreamReceiver kind c ac True True True)" "run rcv_step r0 es r"
  shows "rcv_inv r" "odometry_ok r"
proof -
  have "rcv_start (LidarStreamReceiver kind c ac True True True)"
    unfolding rcv_start_def by blast
  then have "reach rcv_start rcv_step r0"
    unfolding assms(1) by (rule reach.reach_step [OF reach.reach_start, of _ _ _ StartCall]) (simp add: rcv_step_def)
  then show "rcv_inv r"
    using reach_run [OF assms(2)] receiver.inv_reach by blast
  have "odometry_ok r0"
    by (simp add: assms(1) odometry_ok_def receiver_start_def LidarStreamReceiver_def)
  then show "odometry_ok r"
    by (rule odometry_ok_run [OF assms(2)])
qed

lemma event_of_finite:
  assumes "Impl plat inet_pton ov pc od = Inr d" "event_of d ev"
  shows "event_finite ev"
proof (cases ev)
  case (LidarFrame f)
  then obtain src r0 es r where "fst (dn_receivers d) = Some (src, r0)" "run rcv_step r0 es r" "f \<in> set (frames_out r)"
    using assms(2) by (auto simp: delivers_def)
  then show ?thesis
    using LidarFrame created_slot [OF assms(1)] started_receiver(1) frame_points_finite by (metis event_finite.simps(2))
next
  case (LidarOdometrySample s)
  then obtain src r0 es r where "snd (dn_receivers d) = Some (src, r0)" "run rcv_step r0 es r" "s \<in> set (odometry_out r)"
    using assms(2) by (auto simp: delivers_def)
  then have "odometry_ok r" "s \<in> set (odometry_out r)"
    using created_slot [OF assms(1)] started_receiver(2) by blast+
  then show ?thesis
    using LidarOdometrySample by (simp add: odometry_ok_def list_all_iff)
next
  case (Observed ob)
  then show ?thesis
    using assms(2) by (cases ob) simp_all
qed simp_all

section \<open>Properties\<close>

text \<open>
  C39. Published telemetry is usable. Over any interleaving of the handlers of a constructed node, whose lidar events are what
  its own receivers deliver for any datagrams and whose IMU samples hold any values with a yaw that is a float, and with
  sine and cosine finite on finite arguments: every number of a published IMU orientation, rate or acceleration, of the
  position, orientation and covariance of both odometry topics, of both transforms and of the points of a cloud is
  finite, and a transform of either tree is sent only when the configuration says the odometry scale is verified.
\<close>

theorem published_telemetry_finite:
  assumes "Impl plat inet_pton (ne_ov e) pc od = Inr d" "run (bridge_step e) (dn_bridge d) ls b"
    and "\<forall>t ev now. Begin t ev now \<in> set ls \<longrightarrow> event_of d ev" "trig_finite e"
    and "x \<in> set (nd_outputs (br_node b))"
  shows "(case x of
       PublishImu m \<Rightarrow> list_all isfinite (mi_orientation m @ mi_angular_velocity m @ mi_linear_acceleration m)
     | PublishOdom m \<Rightarrow> pose_finite (mo_pose m) \<and> list_all isfinite (mo_covariance m)
     | PublishOdomLidar m \<Rightarrow> pose_finite (mo_pose m) \<and> list_all isfinite (mo_covariance m)
     | SendTransform t \<Rightarrow> pose_finite (mt_transform t) \<and> as_bool (ne_ov e) ''odometry.scale_verified''
     | SendLidarTransform t \<Rightarrow> pose_finite (mt_transform t) \<and> as_bool (ne_ov e) ''odometry.scale_verified''
     | PublishPoints m \<Rightarrow> (\<forall>(px, py, pz, c) \<in> set (mc_data m). isfinite px \<and> isfinite py \<and> isfinite pz)
     | _ \<Rightarrow> True)"
proof -
  have n: "dn_bridge d = new_bridge"
    by (rule Impl_Inr(3) [OF assms(1)])
  have "finite_inv b"
    using finite_inv_run [OF assms(2)] finite_inv_new assms(3,4) event_of_finite [OF assms(1)] unfolding n by blast
  then have f: "telemetry_finite x"
    using assms(5) by (simp add: finite_inv_def list_all_iff)
  have "reach bridge_start (bridge_step e) b"
    using reach_run [OF assms(2), of bridge_start] reach_start [of bridge_start new_bridge "bridge_step e"] by (simp add: n bridge_start_def)
  from bridge_output_ok [OF this assms(5)] f show ?thesis
    by (cases x) (auto simp: scale_verified_def list_all_iff)
qed

section \<open>Witness\<close>

text \<open>A constructed node whose receiver completed a cloud, and which received an IMU sample.\<close>

lemma ex_parse_config: "lidar_parse_config (ex_overrides 1000) = example_config"
  by (simp add: lidar_parse_config_def example_config_def param_eval)

lemma ex_assembler_config: "assembler_config (ex_overrides 1000) =
    \<lparr>max_parallel_frames = 4, frame_timeout = 300, max_points_per_frame = 1000, max_packets_per_frame = 4096\<rparr>"
  by (simp add: assembler_config_def param_eval to_size_def to_int_id)

definition ex_node_labels :: "bridge_label list" where
  "ex_node_labels = [Begin 1 (LidarFrame ex_frame) 4, Section 1 5, Section 1 6,
     Begin 2 (Observed (OnImu ex_sample)) 5, Section 2 5, Section 2 5, Section 2 5]"

lemma replicate_4: "replicate 4 x = [x, x, x, x]"
  by (simp add: numeral_eq_Suc)

lemma ex_frame_delivered:
  "frames_out (fold rcv_next [Check, Iterate (Some ex_cloud) 5 5 6] ex_constructed) = [ex_frame]"
  by (simp add: rcv_eval ex_constructed_def LidarStreamReceiver_def ex_parse_config ex_assembler_config ex_cloud_parsed asm_eval
      ex_parsed_def empty_packet_result_def ex_frame_def replicate_4)

text \<open>The sine and cosine of the examples are constant.\<close>

lemma ex_graph_env_trig: "trig_finite ex_graph_env"
  by (simp add: trig_finite_def ex_graph_env_def)

lemma ex_node_run:
  "\<exists>b f m. bridge_run ex_graph_env ex_node_labels new_bridge = Some b \<and>
     PublishPoints f \<in> set (nd_outputs (br_node b)) \<and> mc_data f \<noteq> [] \<and> PublishOdom m \<in> set (nd_outputs (br_node b))"
proof -
  have fin: "imu_sample_finite ex_sample"
    by (simp add: imu_sample_finite_def ex_sample_def)
  have en: "lidar_enabled ex_graph_env" "\<not> tf_broadcaster ex_graph_env"
    by (simp_all add: lidar_enabled_def tf_broadcaster_def ex_graph_env_def as_bool_def declared_def ex_overrides_def declared_bools_def)
  obtain q where q: "orientation_quaternion (as_string (ne_ov ex_graph_env) ''imu.quaternion_order'' = ''wxyz'') ex_sample = Some q"
    using ex_sample_quaternion by (auto simp: ex_graph_env_def param_eval)
  show ?thesis
    by (simp add: ex_node_labels_def on_lidar_frame_def on_imu_def fin en q new_bridge_def new_node_def emit_def
        map_cloud_section_def map_cloud_def new_mapper_def points_msg_def ex_frame_def)
qed

theorem published_telemetry_finite_witness:
  "\<exists>d b f m. Impl willing (\<lambda>ip. True) (ne_ov ex_graph_env) Injected Injected = Inr d \<and>
     run (bridge_step ex_graph_env) (dn_bridge d) ex_node_labels b \<and>
     PublishPoints f \<in> set (nd_outputs (br_node b)) \<and> isfinite (fst (hd (mc_data f))) \<and>
     PublishOdom m \<in> set (nd_outputs (br_node b)) \<and> pose_finite (mo_pose m)"
proof -
  obtain d where d: "Impl willing (\<lambda>ip. True) (ne_ov ex_graph_env) Injected Injected = Inr d"
    using willing_constructs [OF ex_accepted] by (auto simp: ex_graph_env_def)
  obtain b f m where b: "bridge_run ex_graph_env ex_node_labels new_bridge = Some b"
      "PublishPoints f \<in> set (nd_outputs (br_node b))" "mc_data f \<noteq> []" "PublishOdom m \<in> set (nd_outputs (br_node b))"
    using ex_node_run by blast
  have r: "run (bridge_step ex_graph_env) (dn_bridge d) ex_node_labels b"
    unfolding Impl_Inr(3) [OF d] using b(1) by (rule bridge_run_run)
  let ?es = "[Check, Iterate (Some ex_cloud) 5 5 6]"
  have "fst (dn_receivers d) = Some (None, ex_constructed)"
    by (simp add: Impl_Inr(4) [OF d] ex_graph_env_def ex_lidar_on create_receivers_def create_receiver_def start_receivers_def
        ex_constructed_def)
  moreover have "run rcv_step ex_constructed ?es (fold rcv_next ?es ex_constructed)"
    by (rule run_fold) (simp add: time_point_max_def)
  ultimately have "event_of d (LidarFrame ex_frame)"
    unfolding event_of.simps delivers_def using ex_frame_delivered by (metis list.set_intros(1))
  moreover have "event_of d (Observed (OnImu ex_sample))"
    by (simp add: float_range_def ex_sample_def)
  ultimately have ev: "\<forall>t ev now. Begin t ev now \<in> set ex_node_labels \<longrightarrow> event_of d ev"
    by (auto simp: ex_node_labels_def simp del: event_of.simps)
  note t = published_telemetry_finite [OF d r ev ex_graph_env_trig]
  have "isfinite (fst (hd (mc_data f)))"
    using t [OF b(2)] b(3) by (cases "mc_data f") auto
  moreover have "pose_finite (mo_pose m)"
    using t [OF b(4)] by simp
  ultimately show ?thesis
    using d r b by blast
qed

end
