(* ===== verification/Spec2Isabelle.thy ===== *)
theory Spec2Isabelle
  imports Thread_Safe_Queue Robot_Controller Lidar_Receiver Command_Runner Runtime_Properties Direct_Sdk_Sessions Driver_System
    Thread_Shutdown Receiver_Shutdown Callback_Context Vendor_Binding Node_Graph Node_Telemetry
begin

text \<open>
  Verification of the SW01 direct ROS 2 driver: a node that drives a legged robot through the ASTRALL vendor
  SDK and publishes its telemetry and the point clouds of its lidar.

  \<^bold>\<open>The program.\<close> The ROS node (\<^verbatim>\<open>src/src/driver_node.cpp\<close>) validates its parameters and builds the parts: two lidar
  receivers, each with its own thread and UDP socket, and the runtime, whose worker thread is the only caller of the
  SDK. Velocities go from the node through the runtime into a safety gate, and a periodic tick of the worker sends
  what the gate lets through; modes and authority requests go through a bounded queue to the worker; an
  emergency stop is a mark the worker answers first. The SDK adapter wraps the vendor's C++ interface and its
  callbacks; before connecting, the runtime checks the network with read-only \<^verbatim>\<open>ip\<close> commands. Status and samples
  come back on vendor threads through the runtime's observer to the node's publishers.

  \<^bold>\<open>Theories.\<close> All under \<^verbatim>\<open>src/src\<close> and \<^verbatim>\<open>src/include/hypertron_ros2_bridge\<close>; the definitions keep the source's names.

  \<^item> \<open>Bridge_Prelude\<close>: runs and reachable states of a step relation, the locale \<open>invariant_system\<close> through which
    every invariant is lifted to reachable states, characters and strings, lists.
  \<^item> \<open>Ieee_Float\<close>: IEEE 754 binary32 and binary64 as rationals, infinities and NaN, with correct rounding. Signed
    zeros are one value and no operation is contracted to a fused one.
  \<^item> \<open>Thread_Safe_Queue\<close> (\<^verbatim>\<open>thread_safe_queue.hpp\<close>), \<open>Robot_Controller\<close> (\<^verbatim>\<open>robot_controller.cpp\<close>): the queue and the safety
    gate; every public method holds one mutex and is one function, with the clock reading as an argument.
  \<^item> \<open>Lidar_Parse\<close>, \<open>Frame_Assembler\<close>, \<open>Lidar_Receiver\<close> (\<^verbatim>\<open>lidar_stream.cpp\<close>): the datagram parsers, in which a read outside the
    datagram is \<open>None\<close>; the assembler with its slots; the UDP source, whose system calls are replies of the
    environment, and the receive loop.
  \<^item> \<open>Network_Preflight\<close>, \<open>Command_Runner\<close> (\<^verbatim>\<open>network_preflight.cpp\<close>): parsing and evaluating the network facts;
    the parent side of the command executor as a step machine over replies of the operating system.
  \<^item> \<open>Sdk_Types\<close> (\<^verbatim>\<open>astrall_sdk.hpp\<close>), \<open>Driver_Runtime\<close> (\<^verbatim>\<open>direct_driver_runtime.cpp\<close>): the worker as actions of a state monad
    with interference points, where the environment runs any steps of other threads; the public methods and
    callbacks are those steps, cut where they release the lock. \<open>State_Triples\<close> and \<open>Runtime_Logic\<close> are its program logic,
    \<open>Runtime_Invariant\<close> the promise invariant and the locales that carry a predicate through the whole worker,
    \<open>Runtime_Warrants\<close> and \<open>Runtime_Origins\<close> why each call to the robot is made and where it comes from,
    \<open>Runtime_Example\<close> a concrete run, \<open>Runtime_Properties\<close> the properties.
  \<^item> \<open>Direct_Sdk\<close>, \<open>Direct_Sdk_Safety\<close>, \<open>Direct_Sdk_Sessions\<close> (\<^verbatim>\<open>direct_astrall_sdk.cpp\<close>, \<^verbatim>\<open>astrall_vendor_api.hpp\<close>): the adapter, each
    public method a program of critical sections of its mutex, with vendor threads delivering callbacks in between.
    \<open>Callback_Context\<close>: the thread-local markers with which adapters recognise calls from their own callbacks, vendor deinit
    and deferred teardown included.
    \<open>Vendor_Binding\<close>: the function table bound to the official library, which is a parameter.
  \<^item> \<open>Owned_Threads\<close>, \<open>Thread_Shutdown\<close>, \<open>Receiver_Shutdown\<close>: start, stop and join of the runtime's worker and of a receive
    thread, by any number of threads and from callbacks; the two contracts they share are locales.
  \<^item> \<open>Lidar_Clock\<close>, \<open>Node_Parameters\<close>, \<open>Node_Bridge\<close>, \<open>Node_Interfaces\<close>, \<open>Node_Construction\<close>, \<open>Node_Graph\<close>, \<open>Node_Telemetry\<close>
    (\<^verbatim>\<open>driver_node.cpp\<close>): the device clock mapper with checked 64-bit arithmetic; parameter declaration, validation and the
    configurations made from them; the handlers as lists of critical sections and outputs that any number of threads
    interleave; the members and the ROS graph; the constructor with the error of every step that can throw; the
    destructor and the graph in use; what is published of the measurements.
  \<^item> \<open>Driver_System\<close>: the node and the runtime together.

  \<^bold>\<open>What is shown.\<close> Safety of motion: from a velocity message to the SDK call every gate, the deadman and the clamp hold,
  modes and authority change only on request, and the emergency stop is answered and blocks motion until released.
  Futures: none is lost, the first answer is final, a stop ends the worker in two of its steps. Sessions: a
  dropped link ends the session without touching the robot; a new session needs a new move mode. SDK adapter:
  deinitialisation waits for the callbacks, at most one thread is in the vendor library, vendor sessions
  alternate, no deadlock. Lidar: the parsers stay in bounds and invert the encoder, an assembled frame is
  genuine and any order of its packets completes it, memory is bounded, only the configured sender is heard, the receive
  thread refines the assembler, stamps lie between capture and reception across device restarts and clock changes that the
  mapper can notice. Preflight: readiness holds exactly for
  matching facts, the executor reports success only for a child that succeeded, closes every descriptor and
  returns. Threads: every call of \<^verbatim>\<open>stop\<close> returns, and then the thread it ends is gone for good and was joined
  at most once; \<^verbatim>\<open>start\<close> from an observer callback is the exception, shown to deadlock. Callbacks: no entry point of the library
  is re-entered for an adapter on a thread; with a single adapter its context test is exact and no thread waits for
  itself; with several, examples show a hidden callback and a relocked mutex. Binding: the library hears every request as
  the adapter made it. Node: an accepted configuration whose integers fit 32 bits is well formed, construction fails only
  with a validation error or a refusal of the platform and a failed socket skips its stream, published states are
  truthful, what is forwarded is in range, what is published is finite and goes through a publisher that exists.

  \<^bold>\<open>Bounds and fuel.\<close> The loops of the command executor may go on as long as the operating system keeps them busy, so they take
  fuel and out of fuel is \<open>None\<close>; once the deadline has passed and reads and waits are no longer busy, fuel
  above the number of replies used so far gives a result. All other loops are recursion on data
  or single steps of a relation. Times are integers in nanoseconds of a monotonic clock; in the runtime they are unbounded,
  in the clock mapper they are checked for overflow. Counters that the code keeps in 64 bits are naturals; port numbers,
  status words, sizes and offsets of the wire format keep their width.

  \<^bold>\<open>Parameters.\<close> \<^verbatim>\<open>inet_pton\<close>, the output of the \<^verbatim>\<open>ip\<close> commands, the replies of system calls, the answers of the middleware and
  the thread library (\<open>platform\<close>), the vendor library, \<^verbatim>\<open>std::sin\<close> and \<^verbatim>\<open>std::cos\<close>. The properties hold for every value of them,
  with two exceptions: that the library hears every request rests on its enumerators of a kind being different
  (\<open>distinct_values\<close>), and that published orientations are finite on sine and cosine being finite on finite arguments.

  \<^bold>\<open>Not modelled.\<close> The ROS middleware (what is created in it is a list of descriptions), the executor and \<^verbatim>\<open>main\<close>; the text
  of log messages and parameter errors; the child side of the command executor; changes of a parameter after construction, and calls of the
  runtime before the node has built it; the destruction of the members when the constructor throws. In the runtime, the loop that
  pops and fails the queued commands is one step, and so is a call of the controller with the promise set after it; exceptions of the SDK are modelled where \<^verbatim>\<open>execute_command\<close> catches them. The
  shutdown of the worker is modelled beside the worker itself: there the worker only enters and leaves SDK calls and
  ends after a stop. In the adapter, weak references to a destroyed adapter and the test hooks are left out, and the lifecycle of several
  adapters that use each other is limited to one thread and its callback contexts.
\<close>

end
